(* ===== verification/Prelude.thy ===== *)
theory Prelude
  imports Main "HOL-Library.Char_ord" "HOL-Library.Sublist"
begin

text \<open>
  What every component of the model shares.

  \<^item> The lemma collections of the development: \<open>tx_simps\<close> decomposes a transaction into its
    steps, \<open>row_simps\<close> reads a table after an update.
  \<^item> Results of fallible Go functions: \<open>(value, error)\<close> is \<^typ>\<open>'e + 'a\<close>, with \<open>Inl\<close> for the
    error. \<open>res_bind\<close> is the \<open>if err != nil { return nil, err }\<close> of the source.
  \<^item> Tables as lists of rows: \<open>update_where\<close> is SQL's \<open>UPDATE ... WHERE\<close>, \<^const>\<open>find\<close> is a
    \<open>SELECT\<close> that returns at most one row, \<open>max_by\<close> is \<open>ORDER BY ... DESC LIMIT 1\<close>.
\<close>

named_theorems tx_simps "decomposition of transactions into their steps"
named_theorems row_simps "reading a table after an update"

subsection \<open>Results\<close>

definition res_bind :: "'e + 'a \<Rightarrow> ('a \<Rightarrow> 'e + 'b) \<Rightarrow> 'e + 'b" where
  "res_bind r k = (case r of Inl e \<Rightarrow> Inl e | Inr x \<Rightarrow> k x)"

definition require :: "bool \<Rightarrow> 'e \<Rightarrow> 'e + unit" where
  "require c e = (if c then Inr () else Inl e)"

lemma res_bind_simps [simp]:
  "res_bind (Inl e) k = Inl e"
  "res_bind (Inr x) k = k x"
  by (simp_all add: res_bind_def)

lemma res_bind_Inr_iff: "res_bind r k = Inr y \<longleftrightarrow> (\<exists>x. r = Inr x \<and> k x = Inr y)"
  by (cases r) auto

lemma res_bind_Inl_iff:
  "res_bind r k = Inl e \<longleftrightarrow> r = Inl e \<or> (\<exists>x. r = Inr x \<and> k x = Inl e)"
  by (cases r) auto

lemma require_Inr [simp]: "require c e = Inr u \<longleftrightarrow> c"
  by (simp add: require_def)

lemma require_Inl [simp]: "require c e = Inl e' \<longleftrightarrow> \<not> c \<and> e' = e"
  by (auto simp add: require_def)

lemma require_True [simp]: "require True e = Inr ()"
  by (simp add: require_def)

lemma require_False [simp]: "require False e = Inl e"
  by (simp add: require_def)

lemmas res_iffs = res_bind_Inr_iff res_bind_Inl_iff

subsection \<open>Tables\<close>

definition update_where :: "('r \<Rightarrow> bool) \<Rightarrow> ('r \<Rightarrow> 'r) \<Rightarrow> 'r list \<Rightarrow> 'r list" where
  "update_where P f rows = map (\<lambda>r. if P r then f r else r) rows"

lemma length_update_where [simp]: "length (update_where P f rows) = length rows"
  by (simp add: update_where_def)

lemma set_update_where:
  "set (update_where P f rows) = (\<lambda>r. if P r then f r else r) ` set rows"
  by (auto simp add: update_where_def)

lemma mem_update_where_iff [row_simps]:
  "r' \<in> set (update_where P f rows) \<longleftrightarrow>
     (\<exists>r \<in> set rows. r' = (if P r then f r else r))"
  by (auto simp add: set_update_where)

lemma map_update_where_id [row_simps]:
  assumes "\<And>r. key (f r) = key r"
  shows "map key (update_where P f rows) = map key rows"
  using assms by (simp add: update_where_def)

lemma image_update_where_id [row_simps]:
  assumes "\<And>r. key (f r) = key r"
  shows "key ` set (update_where P f rows) = key ` set rows"
  using arg_cong [OF map_update_where_id [of key f P rows, OF assms], of set] by simp

lemma update_where_Nil [simp]: "update_where P f [] = []"
  by (simp add: update_where_def)

lemma update_where_Cons [simp]:
  "update_where P f (r # rows) = (if P r then f r else r) # update_where P f rows"
  by (simp add: update_where_def)

lemma update_where_append [simp]:
  "update_where P f (xs @ ys) = update_where P f xs @ update_where P f ys"
  by (simp add: update_where_def)

lemma update_where_none: "(\<And>r. r \<in> set rows \<Longrightarrow> \<not> P r) \<Longrightarrow> update_where P f rows = rows"
  by (induction rows) auto

lemma find_Some_mem: "find P xs = Some x \<Longrightarrow> x \<in> set xs \<and> P x"
  by (induction xs) (auto split: if_splits)

lemma find_None_mem: "find P xs = None \<longleftrightarrow> (\<forall>x \<in> set xs. \<not> P x)"
  by (induction xs) auto

lemma find_update_where:
  "find P xs = Some x \<Longrightarrow> (\<And>y. P (f y) \<longleftrightarrow> P y) \<Longrightarrow> find P (update_where Q f xs) = Some (if Q x then f x else x)"
  by (induction xs) (auto split: if_splits)

text \<open>A key that is distinct over a table identifies a row.\<close>

lemma distinct_key_unique:
  assumes "distinct (map key xs)" "x \<in> set xs" "y \<in> set xs" "key x = key y"
  shows "x = y"
  using assms by (metis distinct_map inj_on_def)

lemma find_key_eq:
  assumes "distinct (map key xs)" "x \<in> set xs"
  shows "find (\<lambda>r. key r = key x) xs = Some x"
proof -
  from assms(2) have "find (\<lambda>r. key r = key x) xs \<noteq> None"
    by (auto simp add: find_None_mem)
  then obtain y where y: "find (\<lambda>r. key r = key x) xs = Some y" by auto
  then have "y \<in> set xs" "key y = key x" by (auto dest: find_Some_mem)
  with assms have "y = x" by (blast intro: distinct_key_unique)
  with y show ?thesis by simp
qed

text \<open>The row with the greatest key; of equal keys the first in the table.\<close>

fun max_by :: "('r \<Rightarrow> 'k::linorder) \<Rightarrow> 'r list \<Rightarrow> 'r option" where
  "max_by k [] = None"
| "max_by k (x # xs) =
     (case max_by k xs of None \<Rightarrow> Some x | Some y \<Rightarrow> if k x < k y then Some y else Some x)"

lemma max_by_None [simp]: "max_by k xs = None \<longleftrightarrow> xs = []"
  by (cases xs) (auto split: option.splits)

lemma max_by_mem: "max_by k xs = Some x \<Longrightarrow> x \<in> set xs"
  by (induction xs arbitrary: x) (auto split: option.splits if_splits)

lemma max_by_ge: "max_by k xs = Some x \<Longrightarrow> y \<in> set xs \<Longrightarrow> k y \<le> k x"
proof (induction xs arbitrary: x y)
  case Nil
  then show ?case by simp
next
  case (Cons z zs)
  show ?case
  proof (cases "max_by k zs")
    case None
    then have "zs = []" by simp
    with Cons.prems None show ?thesis by simp
  next
    case (Some w)
    have w: "k u \<le> k w" if "u \<in> set zs" for u using Cons.IH [OF Some that] .
    show ?thesis
    proof (cases "k z < k w")
      case True
      with Cons.prems Some have "x = w" by simp
      with Cons.prems(2) w True show ?thesis by auto
    next
      case False
      with Cons.prems Some have x: "x = z" by simp
      from Cons.prems(2) consider "y = z" | "y \<in> set zs" by auto
      then show ?thesis
      proof cases
        case 1
        with x show ?thesis by simp
      next
        case 2
        with w have "k y \<le> k w" by blast
        with False x show ?thesis by simp
      qed
    qed
  qed
qed

end
