(* ===== verification/Go_Strings.thy ===== *)
theory Go_Strings
  imports Prelude
begin

text \<open>
  Go strings are byte sequences, normally UTF-8: here \<^typ>\<open>string\<close>, a list of 8-bit
  \<^typ>\<open>char\<close>s. This theory models the parts of Go's \<open>strings\<close>, \<open>strconv\<close>, \<open>unicode/utf8\<close>
  and \<open>unicode/utf16\<close> packages the modelled code calls, and the JavaScript string semantics of
  \<open>internal/jsstr/jsstr.go\<close> on top of them: trimming, lengths and slices counted in UTF-16
  code units. Runes (code points) are \<^typ>\<open>nat\<close>.
\<close>

abbreviation byte :: "char \<Rightarrow> nat" where "byte c \<equiv> of_char c"

text \<open>The em dash of the error messages, in UTF-8.\<close>

definition em_dash :: string where
  "em_dash = [CHR 0xE2, CHR 0x80, CHR 0x94]"

subsection \<open>Decimal numbers: strconv.Itoa and strconv.FormatInt\<close>

definition digit_char :: "nat \<Rightarrow> char" where
  "digit_char d = char_of (48 + d)"

fun nat_digits :: "nat \<Rightarrow> string" where
  "nat_digits n = (if n < 10 then [digit_char n] else nat_digits (n div 10) @ [digit_char (n mod 10)])"

declare nat_digits.simps [simp del]

definition itoa :: "int \<Rightarrow> string" where
  "itoa i = (if i < 0 then CHR ''-'' # nat_digits (nat (- i)) else nat_digits (nat i))"

definition is_digit :: "char \<Rightarrow> bool" where
  "is_digit c = (48 \<le> byte c \<and> byte c \<le> 57)"

text \<open>The value of a run of decimal digits.\<close>

definition dec_value :: "string \<Rightarrow> nat" where
  "dec_value s = foldl (\<lambda>n c. 10 * n + (byte c - 48)) 0 s"

lemma byte_digit_char: "d < 10 \<Longrightarrow> byte (digit_char d) = 48 + d"
  by (simp add: digit_char_def)

lemma is_digit_digit_char: "d < 10 \<Longrightarrow> is_digit (digit_char d)"
  by (simp add: is_digit_def byte_digit_char)

lemma nat_digits_all_digits: "c \<in> set (nat_digits n) \<Longrightarrow> is_digit c"
proof (induction n rule: nat_digits.induct)
  case (1 n)
  show ?case
  proof (cases "n < 10")
    case True
    with "1.prems" show ?thesis by (simp add: nat_digits.simps [of n] is_digit_digit_char)
  next
    case False
    with "1.prems" have "c \<in> set (nat_digits (n div 10)) \<or> c = digit_char (n mod 10)"
      by (auto simp add: nat_digits.simps [of n])
    with "1.IH" False show ?thesis by (auto simp add: is_digit_digit_char)
  qed
qed

lemma dec_value_snoc: "dec_value (s @ [c]) = 10 * dec_value s + (byte c - 48)"
  by (simp add: dec_value_def)

lemma dec_value_nat_digits [simp]: "dec_value (nat_digits n) = n"
proof (induction n rule: nat_digits.induct)
  case (1 n)
  show ?case
  proof (cases "n < 10")
    case True
    then show ?thesis by (simp add: nat_digits.simps [of n] dec_value_def byte_digit_char)
  next
    case False
    with "1.IH" show ?thesis
      by (simp add: nat_digits.simps [of n] dec_value_snoc byte_digit_char)
  qed
qed

lemma nat_digits_not_Nil [simp]: "nat_digits n \<noteq> []"
  by (simp add: nat_digits.simps [of n])

lemma nat_digits_inj [simp]: "nat_digits m = nat_digits n \<longleftrightarrow> m = n"
  by (metis dec_value_nat_digits)

lemma minus_not_digit: "\<not> is_digit (CHR ''-'')"
  by (simp add: is_digit_def)

lemma itoa_inj [simp]: "itoa i = itoa j \<longleftrightarrow> i = j"
proof
  assume eq: "itoa i = itoa j"
  have hd_nd: "hd (nat_digits n) \<noteq> CHR ''-''" for n
    using nat_digits_all_digits [of "hd (nat_digits n)" n] minus_not_digit by auto
  show "i = j"
  proof (cases "i < 0"; cases "j < 0")
    assume "i < 0" "j < 0"
    with eq show ?thesis by (simp add: itoa_def)
  next
    assume "i < 0" "\<not> j < 0"
    with eq hd_nd [of "nat j"] show ?thesis
      by (metis itoa_def list.sel(1))
  next
    assume "\<not> i < 0" "j < 0"
    with eq hd_nd [of "nat i"] show ?thesis
      by (metis itoa_def list.sel(1))
  next
    assume "\<not> i < 0" "\<not> j < 0"
    with eq show ?thesis by (simp add: itoa_def)
  qed
qed simp

text \<open>A numeral without superfluous zeros is the decimal printing of its value.\<close>

lemma dec_value_less: "list_all is_digit ds \<Longrightarrow> dec_value ds < 10 ^ length ds"
proof (induction ds rule: rev_induct)
  case (snoc c ds)
  then have "dec_value ds + 1 \<le> 10 ^ length ds" "byte c - 48 < 10"
    by (auto simp add: is_digit_def)
  then show ?case by (simp add: dec_value_snoc)
qed (simp add: dec_value_def)

lemma dec_value_ge: "list_all is_digit ds \<Longrightarrow> ds \<noteq> [] \<Longrightarrow> hd ds \<noteq> CHR ''0'' \<Longrightarrow>
    10 ^ (length ds - 1) \<le> dec_value ds"
proof (induction ds rule: rev_induct)
  case (snoc c ds)
  show ?case
  proof (cases "ds = []")
    case True
    have "c = CHR ''0''" if "byte c = 48"
    proof -
      have "byte c = byte (CHR ''0'')" using that by simp
      then show ?thesis by (simp only: of_char_eq_iff)
    qed
    with True snoc.prems have "byte c \<noteq> 48" "48 \<le> byte c" by (auto simp add: is_digit_def)
    with True show ?thesis by (simp add: dec_value_def)
  next
    case False
    with snoc have "10 ^ (length ds - 1) \<le> dec_value ds" by auto
    then have "10 * 10 ^ (length ds - 1) \<le> dec_value (ds @ [c])" by (simp add: dec_value_snoc)
    moreover have "10 * 10 ^ (length ds - 1) = (10 :: nat) ^ length ds"
      using False by (cases ds) simp_all
    ultimately show ?thesis by simp
  qed
qed simp

lemma digit_char_byte: "is_digit c \<Longrightarrow> digit_char (byte c - 48) = c"
  by (simp add: is_digit_def digit_char_def)

lemma nat_digits_dec_value:
  "list_all is_digit ds \<Longrightarrow> ds \<noteq> [] \<Longrightarrow> hd ds \<noteq> CHR ''0'' \<or> length ds = 1 \<Longrightarrow>
     nat_digits (dec_value ds) = ds"
proof (induction ds rule: rev_induct)
  case (snoc c ds)
  then have c: "byte c - 48 < 10" "digit_char (byte c - 48) = c"
    by (auto simp add: is_digit_def digit_char_byte)
  show ?case
  proof (cases "ds = []")
    case True
    with c show ?thesis by (simp add: dec_value_def nat_digits.simps)
  next
    case False
    with snoc.prems have ds: "list_all is_digit ds" "hd ds \<noteq> CHR ''0''" by auto
    from dec_value_ge [OF ds(1) False ds(2)] have "1 \<le> dec_value ds"
      by (metis le_trans one_le_numeral one_le_power)
    with snoc.IH [OF ds(1) False] ds c show ?thesis
      by (subst nat_digits.simps) (simp add: dec_value_snoc)
  qed
qed simp

subsection \<open>Splitting and joining\<close>

fun split_on :: "char \<Rightarrow> string \<Rightarrow> string list" where
  \<comment> \<open>strings.Split with a one-byte separator\<close>
  "split_on c [] = [[]]"
| "split_on c (x # xs) =
     (if x = c then [] # split_on c xs
      else (case split_on c xs of [] \<Rightarrow> [[x]] | w # ws \<Rightarrow> (x # w) # ws))"

fun join :: "string \<Rightarrow> string list \<Rightarrow> string" where
  \<comment> \<open>strings.Join\<close>
  "join sep [] = []"
| "join sep [w] = w"
| "join sep (w # ws) = w @ sep @ join sep ws"

lemma split_on_not_Nil [simp]: "split_on c s \<noteq> []"
  by (induction s) (auto split: list.splits)

lemma join_split_on: "join [c] (split_on c s) = s"
proof (induction s)
  case Nil
  then show ?case by simp
next
  case (Cons x xs)
  obtain w ws where ws: "split_on c xs = w # ws"
    by (cases "split_on c xs") auto
  with Cons.IH show ?case by (cases ws) auto
qed

lemma split_on_append: "c \<notin> set u \<Longrightarrow> split_on c (u @ c # v) = u # split_on c v"
  by (induction u) auto

lemma split_on_no_sep: "c \<notin> set u \<Longrightarrow> split_on c u = [u]"
  by (induction u) auto

definition has_prefix :: "string \<Rightarrow> string \<Rightarrow> bool" where
  "has_prefix p s = prefix p s"

definition contains_str :: "string \<Rightarrow> string \<Rightarrow> bool" where
  \<comment> \<open>strings.Contains, and SQL's \<open>position(p IN s) > 0\<close>\<close>
  "contains_str p s = sublist p s"


subsection \<open>UTF-8: unicode/utf8\<close>

text \<open>
  \<open>utf8.DecodeRuneInString\<close>: the first rune and its width in bytes. An invalid encoding is
  \<open>U+FFFD\<close> of width 1, the empty string \<open>U+FFFD\<close> of width 0.
\<close>

definition cont :: "nat \<Rightarrow> nat \<Rightarrow> string \<Rightarrow> nat \<Rightarrow> bool" where
  \<comment> \<open>byte \<open>i\<close> of \<open>s\<close> exists and lies in \<open>lo..hi\<close>\<close>
  "cont lo hi s i = (i < length s \<and> lo \<le> byte (s ! i) \<and> byte (s ! i) \<le> hi)"

definition low6 :: "string \<Rightarrow> nat \<Rightarrow> nat" where
  "low6 s i = byte (s ! i) mod 64"

definition decode_rune :: "string \<Rightarrow> nat \<times> nat" where
  "decode_rune s =
     (case s of [] \<Rightarrow> (0xFFFD, 0)
      | c # _ \<Rightarrow>
        let b = byte c;
            two = cont 0x80 0xBF s 1;
            lo = (if b = 0xE0 then 0xA0 else if b = 0xF0 then 0x90 else 0x80);
            hi = (if b = 0xED then 0x9F else if b = 0xF4 then 0x8F else 0xBF) in
        if b < 0x80 then (b, 1)
        else if 0xC2 \<le> b \<and> b \<le> 0xDF \<and> two then ((b mod 32) * 64 + low6 s 1, 2)
        else if 0xE0 \<le> b \<and> b \<le> 0xEF \<and> cont lo hi s 1 \<and> cont 0x80 0xBF s 2
             then (((b mod 16) * 64 + low6 s 1) * 64 + low6 s 2, 3)
        else if 0xF0 \<le> b \<and> b \<le> 0xF4 \<and> cont lo hi s 1 \<and> cont 0x80 0xBF s 2 \<and> cont 0x80 0xBF s 3
             then ((((b mod 8) * 64 + low6 s 1) * 64 + low6 s 2) * 64 + low6 s 3, 4)
        else (0xFFFD, 1))"

lemma decode_rune_width: "s \<noteq> [] \<Longrightarrow> 0 < snd (decode_rune s)"
  by (auto simp add: decode_rune_def Let_def split: list.splits)

text \<open>\<open>[]rune(s)\<close>, and \<open>for _, r := range s\<close>.\<close>

function runes :: "string \<Rightarrow> nat list" where
  "runes s = (if s = [] then [] else fst (decode_rune s) # runes (drop (snd (decode_rune s)) s))"
  by pat_completeness auto
termination
  by (relation "measure length") (auto simp add: decode_rune_width)

declare runes.simps [simp del]

lemma runes_Nil [simp]: "runes [] = []"
  by (simp add: runes.simps)

definition utf8_encode :: "nat \<Rightarrow> string" where
  "utf8_encode r =
     (let r = (if 0xD800 \<le> r \<and> r \<le> 0xDFFF \<or> 0x10FFFF < r then 0xFFFD else r) in
      if r < 0x80 then [char_of r]
      else if r < 0x800 then [char_of (0xC0 + r div 64), char_of (0x80 + r mod 64)]
      else if r < 0x10000 then
        [char_of (0xE0 + r div 4096), char_of (0x80 + r div 64 mod 64), char_of (0x80 + r mod 64)]
      else [char_of (0xF0 + r div 262144), char_of (0x80 + r div 4096 mod 64),
            char_of (0x80 + r div 64 mod 64), char_of (0x80 + r mod 64)])"

text \<open>\<open>string(rs)\<close> for \<open>rs []rune\<close>.\<close>

definition of_runes :: "nat list \<Rightarrow> string" where
  "of_runes rs = concat (map utf8_encode rs)"

text \<open>\<open>utf8.ValidString\<close>: no byte decodes as an error.\<close>

function valid_utf8 :: "string \<Rightarrow> bool" where
  "valid_utf8 s = (if s = [] then True
     else decode_rune s \<noteq> (0xFFFD, 1) \<and> valid_utf8 (drop (snd (decode_rune s)) s))"
  by pat_completeness auto
termination
  by (relation "measure length") (auto simp add: decode_rune_width)

declare valid_utf8.simps [simp del]

text \<open>An ASCII text is its own sequence of runes.\<close>

lemma decode_ascii: "byte c < 0x80 \<Longrightarrow> decode_rune (c # s) = (byte c, 1)"
  by (simp add: decode_rune_def)

lemma runes_ascii: "\<forall>c \<in> set s. byte c < 0x80 \<Longrightarrow> runes s = map byte s"
  by (induction s) (simp_all add: runes.simps [of "_ # _"] decode_ascii)

lemma valid_utf8_ascii: "\<forall>c \<in> set s. byte c < 0x80 \<Longrightarrow> valid_utf8 s"
  by (induction s) (simp_all add: valid_utf8.simps decode_ascii)

subsection \<open>UTF-16: unicode/utf16 and jsstr\<close>

definition rune_units :: "nat \<Rightarrow> nat" where
  "rune_units r = (if 0x10000 \<le> r then 2 else 1)"

text \<open>\<open>jsstr.UTF16Len\<close>: the length in UTF-16 code units.\<close>

definition utf16_len :: "string \<Rightarrow> nat" where
  "utf16_len s = sum_list (map rune_units (runes s))"

lemma utf16_len_ascii: "\<forall>c \<in> set s. byte c < 0x80 \<Longrightarrow> utf16_len s = length s"
  by (induction s) (auto simp add: utf16_len_def runes_ascii rune_units_def)

definition utf16_encode1 :: "nat \<Rightarrow> nat list" where
  "utf16_encode1 r =
     (if r < 0x10000 then (if 0xD800 \<le> r \<and> r \<le> 0xDFFF then [0xFFFD] else [r])
      else if r \<le> 0x10FFFF
        then [0xD800 + (r - 0x10000) div 1024, 0xDC00 + (r - 0x10000) mod 1024]
      else [0xFFFD])"

definition utf16_encode :: "nat list \<Rightarrow> nat list" where
  "utf16_encode rs = concat (map utf16_encode1 rs)"

fun utf16_decode :: "nat list \<Rightarrow> nat list" where
  "utf16_decode [] = []"
| "utf16_decode [u] = [if 0xD800 \<le> u \<and> u \<le> 0xDFFF then 0xFFFD else u]"
| "utf16_decode (u # v # us) =
     (if 0xD800 \<le> u \<and> u \<le> 0xDBFF \<and> 0xDC00 \<le> v \<and> v \<le> 0xDFFF
      then (0x10000 + (u - 0xD800) * 1024 + (v - 0xDC00)) # utf16_decode us
      else if 0xD800 \<le> u \<and> u \<le> 0xDFFF then 0xFFFD # utf16_decode (v # us)
      else u # utf16_decode (v # us))"

text \<open>\<open>jsstr.Slice\<close> for a start of 0, which is how the modelled code calls it.\<close>

definition js_slice0 :: "string \<Rightarrow> nat \<Rightarrow> string" where
  "js_slice0 s n =
     (if length s \<le> n \<and> valid_utf8 s then s
      else of_runes (utf16_decode (take n (utf16_encode (runes s)))))"

subsection \<open>White space\<close>

text \<open>
  \<open>jsstr.IsSpace\<close> (JavaScript's \<open>trim\<close> set) and \<open>unicode.IsSpace\<close>, as predicates on
  runes, and the byte sequences that encode them.
\<close>

definition js_space_runes :: "nat list" where
  "js_space_runes = [9, 10, 11, 12, 13, 32, 0xa0, 0x1680, 0x2028, 0x2029, 0x202f, 0x205f, 0x3000, 0xfeff]
     @ [0x2000 ..< 0x200b]"

definition go_space_runes :: "nat list" where
  "go_space_runes = [9, 10, 11, 12, 13, 32, 0x85, 0xa0, 0x1680, 0x2028, 0x2029, 0x202f, 0x205f, 0x3000]
     @ [0x2000 ..< 0x200b]"

text \<open>
  \<open>strings.TrimFunc\<close> drops matching runes from the left, then from the right. A rune of the
  set is at an end of the string exactly when its encoding is a prefix (a suffix) of the bytes:
  the first byte of an encoding is never a continuation byte, so no other rune can contain it.
\<close>

definition lead_enc :: "string list \<Rightarrow> string \<Rightarrow> nat" where
  \<comment> \<open>the length of the first of \<open>encs\<close> that is a prefix of \<open>s\<close>, 0 if none is\<close>
  "lead_enc encs s = (case find (\<lambda>e. e \<noteq> [] \<and> prefix e s) encs of None \<Rightarrow> 0 | Some e \<Rightarrow> length e)"

function drop_encs :: "string list \<Rightarrow> string \<Rightarrow> string" where
  "drop_encs encs s =
     (if s = [] \<or> lead_enc encs s = 0 then s else drop_encs encs (drop (lead_enc encs s) s))"
  by pat_completeness auto
termination
  by (relation "measure (\<lambda>(encs, s). length s)") auto

declare drop_encs.simps [simp del]

definition trim_runes :: "nat list \<Rightarrow> string \<Rightarrow> string" where
  "trim_runes rs s =
     (let encs = map utf8_encode rs in
      rev (drop_encs (map rev encs) (rev (drop_encs encs s))))"

definition js_trim :: "string \<Rightarrow> string" where
  "js_trim s = trim_runes js_space_runes s"

text \<open>
  \<open>strings.FieldsFunc\<close>: the maximal runs of bytes that are not part of a separator rune.
  \<open>acc\<close> is the field being read.
\<close>

function fields_loop :: "string list \<Rightarrow> string \<Rightarrow> string \<Rightarrow> string list" where
  "fields_loop encs acc s =
     (if s = [] then (if acc = [] then [] else [acc])
      else if lead_enc encs s = 0 then fields_loop encs (acc @ [hd s]) (tl s)
      else (if acc = [] then [] else [acc]) @ fields_loop encs [] (drop (lead_enc encs s) s))"
  by pat_completeness auto
termination
  by (relation "measure (\<lambda>(encs, acc, s). length s)") auto

declare fields_loop.simps [simp del]

definition go_fields :: "string \<Rightarrow> string list" where
  \<comment> \<open>strings.Fields\<close>
  "go_fields s = fields_loop (map utf8_encode go_space_runes) [] s"

definition js_fields :: "string \<Rightarrow> string list" where
  \<comment> \<open>strings.FieldsFunc(s, isJSSpace)\<close>
  "js_fields s = fields_loop (map utf8_encode js_space_runes) [] s"

end
