(* ===== verification/Json_Object.thy ===== *)
theory Json_Object
  imports Go_Strings
begin

text \<open>
  The ordered JSON object of \<open>internal/jsonv/jsonv.go\<close>: two parallel slices for the keys and
  the values, a hash index built once the object outgrows \<open>indexThreshold\<close> keys, and a count of
  the keys that are canonical array indices, which JavaScript enumerates first.

  The abstract object is the association list of its entries in insertion order
  (\<open>entries\<close>). \<open>wf_object\<close> is the representation invariant, and the lemmas show that every
  operation preserves it and acts on the entries as an ordered map does.
\<close>

record 'v jobject =
  jo_keys :: "string list"
  jo_vals :: "'v list"
  jo_index :: "(string \<Rightarrow> nat option) option"
  jo_nidx :: nat

definition index_threshold :: nat where
  "index_threshold = 8"

definition new_object :: "'v jobject" where
  "new_object = \<lparr>jo_keys = [], jo_vals = [], jo_index = None, jo_nidx = 0\<rparr>"

text \<open>\<open>IsArrayIndex\<close>: "0" or a decimal without leading zeros below \<open>2^32 - 1\<close>.\<close>

definition is_array_index :: "string \<Rightarrow> bool" where
  "is_array_index key =
     (if key = [] \<or> 10 < length key then False
      else if key = ''0'' then True
      else if \<not> (is_digit (hd key) \<and> hd key \<noteq> CHR ''0'') then False
      else if \<not> list_all is_digit (tl key) then False
      else dec_value key < 4294967295)"

text \<open>The position of a key in a list of keys: the linear scan of \<open>find\<close>.\<close>

fun key_pos :: "string \<Rightarrow> string list \<Rightarrow> nat option" where
  "key_pos k [] = None"
| "key_pos k (x # xs) = (if x = k then Some 0 else map_option Suc (key_pos k xs))"

definition obj_find :: "'v jobject \<Rightarrow> string \<Rightarrow> nat option" where
  "obj_find o1 key =
     (case jo_index o1 of Some ix \<Rightarrow> ix key | None \<Rightarrow> key_pos key (jo_keys o1))"

fun build_index :: "nat \<Rightarrow> string list \<Rightarrow> (string \<Rightarrow> nat option) \<Rightarrow> (string \<Rightarrow> nat option)" where
  \<comment> \<open>the loop of \<open>reindex\<close>\<close>
  "build_index i [] m = m"
| "build_index i (k # ks) m = build_index (Suc i) ks (m(k \<mapsto> i))"

definition reindex :: "'v jobject \<Rightarrow> 'v jobject" where
  "reindex o1 = o1\<lparr>jo_index := Some (build_index 0 (jo_keys o1) (\<lambda>_. None))\<rparr>"

definition obj_get :: "'v jobject \<Rightarrow> string \<Rightarrow> 'v option" where
  "obj_get o1 key = map_option (\<lambda>i. jo_vals o1 ! i) (obj_find o1 key)"

definition obj_has :: "'v jobject \<Rightarrow> string \<Rightarrow> bool" where
  "obj_has o1 key = (obj_find o1 key \<noteq> None)"

definition obj_len :: "'v jobject \<Rightarrow> nat" where
  "obj_len o1 = length (jo_keys o1)"

definition obj_set :: "'v jobject \<Rightarrow> string \<Rightarrow> 'v \<Rightarrow> 'v jobject" where
  "obj_set o1 key v =
     (case obj_find o1 key of
        Some i \<Rightarrow> o1\<lparr>jo_vals := (jo_vals o1)[i := v]\<rparr>
      | None \<Rightarrow>
          let o2 = o1\<lparr>jo_keys := jo_keys o1 @ [key], jo_vals := jo_vals o1 @ [v],
                      jo_nidx := (if is_array_index key then jo_nidx o1 + 1 else jo_nidx o1)\<rparr> in
          (case jo_index o2 of
             Some ix \<Rightarrow> o2\<lparr>jo_index := Some (ix(key \<mapsto> length (jo_keys o2) - 1))\<rparr>
           | None \<Rightarrow> if index_threshold < length (jo_keys o2) then reindex o2 else o2))"

definition obj_delete :: "'v jobject \<Rightarrow> string \<Rightarrow> 'v jobject" where
  "obj_delete o1 key =
     (case obj_find o1 key of
        None \<Rightarrow> o1
      | Some i \<Rightarrow>
          let o2 = o1\<lparr>jo_keys := take i (jo_keys o1) @ drop (i + 1) (jo_keys o1),
                      jo_vals := take i (jo_vals o1) @ drop (i + 1) (jo_vals o1),
                      jo_nidx := (if is_array_index key then jo_nidx o1 - 1 else jo_nidx o1)\<rparr> in
          (if jo_index o2 \<noteq> None then reindex o2 else o2))"

text \<open>
  \<open>Keys\<close>: the array indices in numeric order, then the rest in insertion order. Two distinct
  canonical indices have distinct values, so \<open>sort.Slice\<close> is the stable sort here.
\<close>

definition obj_keys :: "'v jobject \<Rightarrow> string list" where
  "obj_keys o1 =
     (if jo_nidx o1 = 0 then jo_keys o1
      else sort_key dec_value (filter is_array_index (jo_keys o1)) @
           filter (\<lambda>k. \<not> is_array_index k) (jo_keys o1))"

text \<open>\<open>Range\<close> with a function that never stops: the entries it visits, in order.\<close>

definition obj_range :: "'v jobject \<Rightarrow> (string \<times> 'v) list" where
  "obj_range o1 =
     (if jo_nidx o1 = 0 then zip (jo_keys o1) (jo_vals o1)
      else map (\<lambda>k. (k, jo_vals o1 ! the (obj_find o1 k))) (obj_keys o1))"

text \<open>\<open>ObjectOf\<close>: set the entries in order.\<close>

definition object_of :: "(string \<times> 'v) list \<Rightarrow> 'v jobject" where
  "object_of kvs = fold (\<lambda>(k, v) o1. obj_set o1 k v) kvs new_object"

definition obj_clone :: "'v jobject \<Rightarrow> 'v jobject" where
  "obj_clone o1 =
     (let c = \<lparr>jo_keys = jo_keys o1, jo_vals = jo_vals o1, jo_index = None, jo_nidx = jo_nidx o1\<rparr> in
      if jo_index o1 \<noteq> None then reindex c else c)"

subsection \<open>The abstract object: an association list in insertion order\<close>

definition entries :: "'v jobject \<Rightarrow> (string \<times> 'v) list" where
  "entries o1 = zip (jo_keys o1) (jo_vals o1)"

fun alist_set :: "string \<Rightarrow> 'v \<Rightarrow> (string \<times> 'v) list \<Rightarrow> (string \<times> 'v) list" where
  "alist_set k v [] = [(k, v)]"
| "alist_set k v ((k', v') # es) = (if k' = k then (k', v) # es else (k', v') # alist_set k v es)"

text \<open>A sequence of updates, on the object and on its entries.\<close>

datatype 'v obj_op = OSet string 'v | ODelete string

fun obj_apply :: "'v obj_op \<Rightarrow> 'v jobject \<Rightarrow> 'v jobject" where
  "obj_apply (OSet k v) o1 = obj_set o1 k v"
| "obj_apply (ODelete k) o1 = obj_delete o1 k"

fun alist_apply :: "'v obj_op \<Rightarrow> (string \<times> 'v) list \<Rightarrow> (string \<times> 'v) list" where
  "alist_apply (OSet k v) es = alist_set k v es"
| "alist_apply (ODelete k) es = filter (\<lambda>e. fst e \<noteq> k) es"

definition js_entries :: "(string \<times> 'v) list \<Rightarrow> (string \<times> 'v) list" where
  \<comment> \<open>the entries in JavaScript enumeration order\<close>
  "js_entries es =
     sort_key (\<lambda>e. dec_value (fst e)) (filter (\<lambda>e. is_array_index (fst e)) es) @
     filter (\<lambda>e. \<not> is_array_index (fst e)) es"

definition aligned :: "'v jobject \<Rightarrow> bool" where
  "aligned o1 \<longleftrightarrow>
     length (jo_vals o1) = length (jo_keys o1) \<and> distinct (jo_keys o1) \<and>
     jo_nidx o1 = length (filter is_array_index (jo_keys o1))"

definition wf_object :: "'v jobject \<Rightarrow> bool" where
  "wf_object o1 \<longleftrightarrow> aligned o1 \<and>
     (\<forall>ix. jo_index o1 = Some ix \<longrightarrow> ix = (\<lambda>k. key_pos k (jo_keys o1)))"

subsection \<open>The operations on the representation\<close>

lemma key_pos_None: "key_pos k ks = None \<longleftrightarrow> k \<notin> set ks"
  by (induction ks) auto

lemma key_pos_Nil_iff [simp]: "k \<notin> set ks \<Longrightarrow> key_pos k ks = None"
  by (simp add: key_pos_None)

lemma key_pos_SomeD: "key_pos k ks = Some i \<Longrightarrow> i < length ks \<and> ks ! i = k"
  by (induction ks arbitrary: i) (auto split: if_splits)

lemma key_pos_append: "key_pos k (xs @ ys) =
    (case key_pos k xs of Some i \<Rightarrow> Some i | None \<Rightarrow> map_option (\<lambda>i. i + length xs) (key_pos k ys))"
  by (induction xs) (auto simp add: option.map_comp o_def option.map_ident split: option.splits)

lemma key_pos_nth: "distinct ks \<Longrightarrow> i < length ks \<Longrightarrow> key_pos (ks ! i) ks = Some i"
proof (induction ks arbitrary: i)
  case (Cons k ks)
  then show ?case by (cases i) (auto simp add: nth_mem)
qed simp

lemma build_index_eq:
  "distinct ks \<Longrightarrow> build_index i ks m =
     (\<lambda>k. case key_pos k ks of Some j \<Rightarrow> Some (i + j) | None \<Rightarrow> m k)"
proof (induction ks arbitrary: i m)
  case Nil
  then show ?case by simp
next
  case (Cons x xs)
  then have IH: "build_index (Suc i) xs (m(x \<mapsto> i)) =
      (\<lambda>k. case key_pos k xs of Some j \<Rightarrow> Some (Suc i + j) | None \<Rightarrow> (m(x \<mapsto> i)) k)"
    by simp
  from Cons.prems have "key_pos x xs = None" by simp
  with IH show ?case by (auto simp add: fun_eq_iff split: option.splits)
qed

lemma wf_new_object: "wf_object new_object"
  by (simp add: wf_object_def aligned_def new_object_def)

lemma wf_reindex: "aligned o1 \<Longrightarrow> wf_object (reindex o1)"
proof -
  assume "aligned o1"
  moreover have "(\<lambda>k. case x k of None \<Rightarrow> None | Some j \<Rightarrow> Some (0 + j)) = x" for x :: "string \<Rightarrow> nat option"
    by (simp add: fun_eq_iff split: option.splits)
  ultimately show ?thesis by (auto simp add: wf_object_def aligned_def reindex_def build_index_eq)
qed

lemma wf_no_index: "aligned o1 \<Longrightarrow> jo_index o1 = None \<Longrightarrow> wf_object o1"
  by (simp add: wf_object_def)

lemma wf_aligned: "wf_object o1 \<Longrightarrow> aligned o1"
  by (simp add: wf_object_def)

lemma find_key_pos: "wf_object o1 \<Longrightarrow> obj_find o1 k = key_pos k (jo_keys o1)"
  by (auto simp add: obj_find_def wf_object_def split: option.splits)

text \<open>\<open>Set\<close> of a new key, before the index is brought up to date.\<close>

lemma aligned_append: "aligned o1 \<Longrightarrow> k \<notin> set (jo_keys o1) \<Longrightarrow>
    aligned (o1\<lparr>jo_keys := jo_keys o1 @ [k], jo_vals := jo_vals o1 @ [v],
                jo_nidx := (if is_array_index k then jo_nidx o1 + 1 else jo_nidx o1)\<rparr>)"
  by (simp add: aligned_def)

lemma key_pos_snoc: "k \<notin> set ks \<Longrightarrow>
    (\<lambda>k'. key_pos k' (ks @ [k])) = (\<lambda>k'. key_pos k' ks)(k \<mapsto> length ks)"
  by (auto simp add: fun_eq_iff key_pos_append split: option.splits)

lemma obj_set_present: "wf_object o1 \<Longrightarrow> key_pos k (jo_keys o1) = Some i \<Longrightarrow>
    obj_set o1 k v = o1\<lparr>jo_vals := (jo_vals o1)[i := v]\<rparr>"
  by (simp add: obj_set_def find_key_pos)

lemma obj_set_absent:
  assumes "wf_object o1" "k \<notin> set (jo_keys o1)"
  shows "wf_object (obj_set o1 k v) \<and> jo_keys (obj_set o1 k v) = jo_keys o1 @ [k] \<and>
         jo_vals (obj_set o1 k v) = jo_vals o1 @ [v]"
proof (cases "jo_index o1")
  case None
  from aligned_append [OF wf_aligned [OF assms(1)] assms(2)] None assms show ?thesis
    by (simp add: obj_set_def find_key_pos Let_def wf_reindex wf_no_index) (simp add: reindex_def)
next
  case (Some ix)
  with assms have "ix = (\<lambda>k'. key_pos k' (jo_keys o1))" by (simp add: wf_object_def)
  with Some aligned_append [OF wf_aligned [OF assms(1)] assms(2)] assms key_pos_snoc [OF assms(2)]
  show ?thesis
    by (simp add: obj_set_def find_key_pos Let_def) (simp add: wf_object_def aligned_def)
qed

lemma wf_obj_set: "wf_object o1 \<Longrightarrow> wf_object (obj_set o1 k v)"
proof (cases "key_pos k (jo_keys o1)")
  case (Some i)
  assume "wf_object o1"
  with Some show ?thesis by (simp add: obj_set_present) (simp add: wf_object_def aligned_def)
qed (simp add: obj_set_absent key_pos_None)

lemma entries_obj_set: "wf_object o1 \<Longrightarrow> entries (obj_set o1 k v) = alist_set k v (entries o1)"
proof (cases "key_pos k (jo_keys o1)")
  case (Some i)
  assume wf: "wf_object o1"
  have upd: "key_pos k ks = Some i \<Longrightarrow> length vs = length ks \<Longrightarrow>
      zip ks (vs[i := v]) = alist_set k v (zip ks vs)" for ks :: "string list" and vs i
  proof (induction ks arbitrary: vs i)
    case (Cons x xs)
    then show ?case by (cases vs) (auto split: if_splits)
  qed simp
  from wf Some show ?thesis
    by (simp add: obj_set_present entries_def) (simp add: upd wf_object_def aligned_def)
next
  case None
  assume wf: "wf_object o1"
  have app: "k \<notin> set ks \<Longrightarrow> length vs = length ks \<Longrightarrow>
      alist_set k v (zip ks vs) = zip ks vs @ [(k, v)]" for ks :: "string list" and vs
  proof (induction ks arbitrary: vs)
    case (Cons x xs)
    then show ?case by (cases vs) auto
  qed simp
  from None have "k \<notin> set (jo_keys o1)" by (simp add: key_pos_None)
  with wf obj_set_absent [OF wf this, of v] show ?thesis
    by (simp add: entries_def app wf_object_def aligned_def)
qed

lemma obj_get_entries: "wf_object o1 \<Longrightarrow> obj_get o1 k = map_of (entries o1) k"
proof -
  have look: "length vs = length ks \<Longrightarrow>
      map_option (\<lambda>i. vs ! i) (key_pos k ks) = map_of (zip ks vs) k" for ks :: "string list" and vs :: "'a list"
  proof (induction ks arbitrary: vs)
    case (Cons x xs)
    then show ?case by (cases vs) (auto simp add: option.map_comp o_def)
  qed simp
  assume "wf_object o1"
  then show ?thesis by (simp add: obj_get_def find_key_pos entries_def look wf_object_def aligned_def)
qed

lemma filter_ne_take_drop:
  assumes "distinct ks" "key_pos k ks = Some i" "length vs = length ks"
  shows "filter (\<lambda>x. x \<noteq> k) ks = take i ks @ drop (Suc i) ks \<and>
         filter (\<lambda>e. fst e \<noteq> k) (zip ks vs) = zip (take i ks @ drop (Suc i) ks) (take i vs @ drop (Suc i) vs)"
  using assms
proof (induction ks arbitrary: i vs)
  case (Cons x xs)
  then obtain v vs' where vs: "vs = v # vs'" by (cases vs) auto
  show ?case
  proof (cases "x = k")
    case True
    with Cons.prems have k: "k \<notin> set xs" and i: "i = 0" by auto
    from k have "filter (\<lambda>x. x \<noteq> k) xs = xs" by (intro filter_True) auto
    moreover from k have "filter (\<lambda>e. fst e \<noteq> k) (zip xs vs') = zip xs vs'"
      by (intro filter_True) (auto dest: set_zip_leftD)
    ultimately show ?thesis using True i vs by simp
  next
    case False
    with Cons.prems obtain j where "key_pos k xs = Some j" "i = Suc j" by auto
    with Cons.IH [of j vs'] Cons.prems False vs show ?thesis by simp
  qed
qed simp

lemma obj_delete_absent: "wf_object o1 \<Longrightarrow> k \<notin> set (jo_keys o1) \<Longrightarrow> obj_delete o1 k = o1"
  by (simp add: obj_delete_def find_key_pos)

lemma obj_delete_present:
  assumes "wf_object o1" "key_pos k (jo_keys o1) = Some i"
  shows "wf_object (obj_delete o1 k) \<and> jo_keys (obj_delete o1 k) = take i (jo_keys o1) @ drop (Suc i) (jo_keys o1) \<and>
         jo_vals (obj_delete o1 k) = take i (jo_vals o1) @ drop (Suc i) (jo_vals o1)"
proof -
  let ?ks = "take i (jo_keys o1) @ drop (Suc i) (jo_keys o1)"
  let ?o = "o1\<lparr>jo_keys := ?ks, jo_vals := take i (jo_vals o1) @ drop (Suc i) (jo_vals o1),
               jo_nidx := (if is_array_index k then jo_nidx o1 - 1 else jo_nidx o1)\<rparr>"
  from wf_aligned [OF assms(1)] have al: "length (jo_vals o1) = length (jo_keys o1)" "distinct (jo_keys o1)"
    "jo_nidx o1 = length (filter is_array_index (jo_keys o1))" by (simp_all add: aligned_def)
  from key_pos_SomeD [OF assms(2)] have i: "i < length (jo_keys o1)" "jo_keys o1 ! i = k" by simp_all
  have ks: "?ks = filter (\<lambda>x. x \<noteq> k) (jo_keys o1)"
    using filter_ne_take_drop [OF al(2) assms(2) al(1)] by simp
  have eq: "take i (jo_keys o1) @ k # drop (Suc i) (jo_keys o1) = jo_keys o1"
    using id_take_nth_drop [OF i(1)] i(2) by simp
  have "length (filter is_array_index (take i (jo_keys o1) @ k # drop (Suc i) (jo_keys o1))) = jo_nidx o1"
    unfolding eq using al(3) by simp
  then have "jo_nidx ?o = length (filter is_array_index ?ks)" by (auto split: if_splits)
  moreover have "distinct ?ks" unfolding ks using al(2) by simp
  ultimately have "aligned ?o" using al(1) i by (simp add: aligned_def del: distinct_append)
  then show ?thesis using assms
    by (auto simp add: obj_delete_def find_key_pos Let_def wf_reindex wf_no_index) (simp_all add: reindex_def)
qed

lemma wf_obj_delete: "wf_object o1 \<Longrightarrow> wf_object (obj_delete o1 k)"
  by (cases "key_pos k (jo_keys o1)") (simp_all add: obj_delete_present obj_delete_absent key_pos_None)

lemma entries_obj_delete:
  assumes "wf_object o1"
  shows "entries (obj_delete o1 k) = filter (\<lambda>e. fst e \<noteq> k) (entries o1)"
proof (cases "key_pos k (jo_keys o1)")
  case None
  then have "k \<notin> set (jo_keys o1)" by (simp add: key_pos_None)
  then have "filter (\<lambda>e. fst e \<noteq> k) (entries o1) = entries o1"
    by (intro filter_True) (auto simp add: entries_def dest: set_zip_leftD)
  with assms \<open>k \<notin> set (jo_keys o1)\<close> show ?thesis by (simp add: obj_delete_absent)
next
  case (Some i)
  from wf_aligned [OF assms] have "length (jo_vals o1) = length (jo_keys o1)" "distinct (jo_keys o1)"
    by (simp_all add: aligned_def)
  with filter_ne_take_drop [OF this(2) Some this(1)] obj_delete_present [OF assms Some] show ?thesis
    by (simp add: entries_def)
qed

text \<open>Enumeration: \<open>Keys\<close> and \<open>Range\<close> visit the entries in JavaScript order.\<close>

lemma sort_key_map: "sort_key f (map g xs) = map g (sort_key (\<lambda>x. f (g x)) xs)"
proof -
  have ins: "insort_key f (g x) (map g xs) = map g (insort_key (\<lambda>x. f (g x)) x xs)" for x xs
    by (induction xs) auto
  show ?thesis by (induction xs) (simp_all add: ins)
qed

lemma map_fst_entries: "wf_object o1 \<Longrightarrow> map fst (entries o1) = jo_keys o1"
  by (simp add: entries_def wf_object_def aligned_def)

lemma filter_map_fst: "filter P (map fst es) = map fst (filter (\<lambda>e. P (fst e)) es)"
  by (simp add: filter_map o_def)

lemma js_entries_no_index:
  assumes "filter (\<lambda>e. is_array_index (fst e)) es = []"
  shows "js_entries es = es"
proof -
  from assms have "filter (\<lambda>e. \<not> is_array_index (fst e)) es = es"
    by (intro filter_True) (auto simp add: filter_empty_conv)
  with assms show ?thesis by (simp add: js_entries_def)
qed

lemma nidx_zero_iff:
  assumes "wf_object o1"
  shows "jo_nidx o1 = 0 \<longleftrightarrow> filter (\<lambda>e. is_array_index (fst e)) (entries o1) = []"
proof -
  have "filter is_array_index (jo_keys o1) = map fst (filter (\<lambda>e. is_array_index (fst e)) (entries o1))"
    using map_fst_entries [OF assms] filter_map_fst [of is_array_index "entries o1"] by simp
  then show ?thesis using wf_aligned [OF assms] by (simp add: aligned_def)
qed

lemma obj_keys_entries:
  assumes "wf_object o1"
  shows "obj_keys o1 = map fst (js_entries (entries o1))"
proof (cases "jo_nidx o1 = 0")
  case True
  with assms show ?thesis
    by (simp add: obj_keys_def nidx_zero_iff js_entries_no_index map_fst_entries)
next
  case False
  have "obj_keys o1 = sort_key dec_value (filter is_array_index (map fst (entries o1))) @
      filter (\<lambda>k. \<not> is_array_index k) (map fst (entries o1))"
    using False by (simp add: obj_keys_def map_fst_entries [OF assms])
  then show ?thesis by (simp add: js_entries_def filter_map_fst sort_key_map)
qed

lemma set_js_entries: "set (js_entries es) = set es"
  by (auto simp add: js_entries_def)

lemma obj_range_entries:
  assumes "wf_object o1"
  shows "obj_range o1 = js_entries (entries o1)"
proof (cases "jo_nidx o1 = 0")
  case True
  with assms have "js_entries (entries o1) = entries o1" by (simp add: nidx_zero_iff js_entries_no_index)
  with True show ?thesis by (simp add: obj_range_def entries_def)
next
  case False
  from assms have d: "distinct (map fst (entries o1))"
    by (simp add: map_fst_entries) (simp add: wf_object_def aligned_def)
  have look: "(fst e, jo_vals o1 ! the (obj_find o1 (fst e))) = e" if "e \<in> set (js_entries (entries o1))" for e
  proof -
    from that d have "map_of (entries o1) (fst e) = Some (snd e)" by (simp add: set_js_entries)
    then have "obj_get o1 (fst e) = Some (snd e)" using assms by (simp add: obj_get_entries)
    then show ?thesis by (auto simp add: obj_get_def)
  qed
  from False have "obj_range o1 = map (\<lambda>e. (fst e, jo_vals o1 ! the (obj_find o1 (fst e)))) (js_entries (entries o1))"
    by (simp add: obj_range_def obj_keys_entries [OF assms])
  also have "\<dots> = js_entries (entries o1)" using look by (intro map_idI) auto
  finally show ?thesis .
qed

lemma wf_obj_clone: "wf_object o1 \<Longrightarrow> wf_object (obj_clone o1)"
  by (auto simp add: obj_clone_def Let_def intro!: wf_reindex wf_no_index) (auto simp add: wf_object_def aligned_def)

lemma entries_obj_clone: "entries (obj_clone o1) = entries o1"
  by (simp add: obj_clone_def entries_def Let_def reindex_def)

subsection \<open>The interface of an ordered map\<close>

text \<open>What the readers and writers of JSON rely on.\<close>

locale ordered_map =
  fixes empty_map :: "'m"
    and put :: "'m \<Rightarrow> string \<Rightarrow> 'v \<Rightarrow> 'm"
    and look :: "'m \<Rightarrow> string \<Rightarrow> 'v option"
    and del :: "'m \<Rightarrow> string \<Rightarrow> 'm"
    and view :: "'m \<Rightarrow> (string \<times> 'v) list"
    and ok :: "'m \<Rightarrow> bool"
  assumes ok_empty: "ok empty_map"
    and ok_put: "ok m \<Longrightarrow> ok (put m k v)"
    and ok_del: "ok m \<Longrightarrow> ok (del m k)"
    and view_empty: "view empty_map = []"
    and view_put: "ok m \<Longrightarrow> view (put m k v) = alist_set k v (view m)"
    and look_view: "ok m \<Longrightarrow> look m k = map_of (view m) k"
    and view_del: "ok m \<Longrightarrow> view (del m k) = filter (\<lambda>e. fst e \<noteq> k) (view m)"
begin

lemma map_of_alist_set: "map_of (alist_set k v es) = (map_of es)(k \<mapsto> v)"
  by (induction es) (auto simp add: fun_eq_iff)

lemma look_put: "ok m \<Longrightarrow> look (put m k v) k' = (if k' = k then Some v else look m k')"
  by (simp add: look_view ok_put view_put map_of_alist_set)

lemma look_del: "ok m \<Longrightarrow> look (del m k) k' = (if k' = k then None else look m k')"
proof -
  have "map_of (filter (\<lambda>e. fst e \<noteq> k) es) k' = (if k' = k then None else map_of es k')"
    for es :: "(string \<times> 'v) list"
    by (induction es) auto
  then show "ok m \<Longrightarrow> ?thesis" by (simp add: look_view ok_del view_del)
qed

lemma put_all:
  "ok m \<Longrightarrow> ok (fold (\<lambda>(k, v) m. put m k v) kvs m) \<and>
     view (fold (\<lambda>(k, v) m. put m k v) kvs m) = fold (\<lambda>(k, v). alist_set k v) kvs (view m)"
  by (induction kvs arbitrary: m) (auto simp add: ok_put view_put)

end

interpretation jobj: ordered_map new_object obj_set obj_get obj_delete entries wf_object
  by unfold_locales
    (simp_all add: wf_new_object wf_obj_set wf_obj_delete entries_obj_set entries_obj_delete
      obj_get_entries, simp add: entries_def new_object_def)

lemma object_of_entries:
  "wf_object (object_of kvs) \<and> entries (object_of kvs) = fold (\<lambda>(k, v). alist_set k v) kvs []"
  using jobj.put_all [OF wf_new_object] by (simp add: object_of_def jobj.view_empty)

lemma obj_ops_wf: "wf_object o1 \<Longrightarrow>
    wf_object (fold obj_apply ops o1) \<and> entries (fold obj_apply ops o1) = fold alist_apply ops (entries o1)"
proof (induction ops arbitrary: o1)
  case (Cons x xs)
  then have "wf_object (obj_apply x o1)" "entries (obj_apply x o1) = alist_apply x (entries o1)"
    by (cases x; simp add: jobj.ok_put jobj.ok_del jobj.view_put jobj.view_del)+
  with Cons.IH [of "obj_apply x o1"] show ?case by simp
qed simp

text \<open>
  C15: whatever mix of linear scan, hash index and array-index counter an object has reached by a
  sequence of \<open>Set\<close> and \<open>Delete\<close> calls, it behaves as an ordered map: \<open>Get\<close> returns the value
  last set and not deleted since, and \<open>Range\<close> visits the array-index keys in numeric order and
  the other keys in insertion order.
\<close>

theorem object_refines_alist:
  "let o1 = fold obj_apply ops new_object; es = fold alist_apply ops [] in
     (\<forall>k. obj_get o1 k = map_of es k) \<and> (\<forall>k. obj_has o1 k = (map_of es k \<noteq> None)) \<and>
     obj_len o1 = length es \<and> obj_range o1 = js_entries es \<and> obj_keys o1 = map fst (js_entries es)"
proof -
  let ?o = "fold obj_apply ops (new_object :: 'a jobject)"
  from obj_ops_wf [OF wf_new_object, of ops]
  have wf: "wf_object ?o" and es: "entries ?o = fold alist_apply ops []"
    by (simp_all add: jobj.view_empty)
  have get: "obj_get ?o k = map_of (entries ?o) k" for k using wf by (rule jobj.look_view)
  have has: "obj_has ?o k = (map_of (entries ?o) k \<noteq> None)" for k
    unfolding get [symmetric] by (auto simp add: obj_has_def obj_get_def)
  have len: "obj_len ?o = length (entries ?o)"
    using map_fst_entries [OF wf] by (metis length_map obj_len_def)
  from get has len obj_range_entries [OF wf] obj_keys_entries [OF wf] show ?thesis
    unfolding Let_def es [symmetric] by blast
qed

end
