(* ===== verification/Json_Value.thy ===== *)
theory Json_Value
  imports Json_Object
begin

text \<open>
  Go's \<open>any\<close> values as the modelled code uses them, and the writing half of
  \<open>internal/jsonv/jsonv.go\<close>: number and string formatting, \<open>Stringify\<close>, \<open>Equal\<close> and the
  small helpers.

  A double is NaN, an infinity, a zero, or a finite non-zero number given by its sign, its
  shortest round-tripping decimal digits \<open>d1 d2 ...\<close> and its decimal exponent \<open>e\<close>, that is
  \<open>d1.d2... * 10^e\<close>: exactly what \<open>strconv.FormatFloat(f, 'e', -1, 64)\<close> prints, and it
  determines the double. \<open>VObj\<close> carries the entries of an object in insertion order
  (\<^const>\<open>entries\<close> of the representation in \<open>Json_Object\<close>).
\<close>

datatype float64 = FNaN | FInf bool | FZero bool | FFin bool string int

datatype goval =
    VNil                                \<comment> \<open>Go nil: an omitted argument; JSON null in the value model\<close>
  | VNull                               \<comment> \<open>\<open>versions.Null\<close>: an explicit JSON null\<close>
  | VBool bool
  | VFloat float64
  | VInt int                            \<comment> \<open>int\<close>
  | VID int                             \<comment> \<open>\<open>jsx.ID\<close>\<close>
  | VRef int                            \<comment> \<open>\<open>versions.WorkspaceRef\<close>\<close>
  | VStr string
  | VList "goval list"                  \<comment> \<open>\<open>[]any\<close>\<close>
  | VObj "(string \<times> goval) list"        \<comment> \<open>\<open>*jsonv.Object\<close>, \<open>map[string]any\<close>\<close>

subsection \<open>Numbers\<close>

definition zeros :: "nat \<Rightarrow> string" where
  "zeros n = replicate n (CHR ''0'')"

definition format_number :: "float64 \<Rightarrow> string" where
  "format_number f =
     (case f of
        FNaN \<Rightarrow> ''NaN''
      | FInf neg \<Rightarrow> if neg then ''-Infinity'' else ''Infinity''
      | FZero neg \<Rightarrow> ''0''
      | FFin neg digits e \<Rightarrow>
          let k = length digits;
              n = e + 1;
              out =
                (if int k \<le> n \<and> n \<le> 21 then digits @ zeros (nat (n - int k))
                 else if 0 < n \<and> n \<le> 21 then take (nat n) digits @ ''.'' @ drop (nat n) digits
                 else if - 6 < n \<and> n \<le> 0 then ''0.'' @ zeros (nat (- n)) @ digits
                 else
                   let es = (if n - 1 < 0 then ''-'' else ''+'');
                       ex = \<bar>n - 1\<bar> in
                   if k = 1 then digits @ ''e'' @ es @ itoa ex
                   else take 1 digits @ ''.'' @ drop 1 digits @ ''e'' @ es @ itoa ex) in
          (if neg then ''-'' else []) @ out)"

definition write_number :: "float64 \<Rightarrow> string" where
  "write_number f =
     (case f of FNaN \<Rightarrow> ''null'' | FInf neg \<Rightarrow> ''null'' | _ \<Rightarrow> format_number f)"

text \<open>The value of a finite double that is an integer, and \<open>==\<close> of doubles.\<close>

definition float_int :: "float64 \<Rightarrow> int option" where
  "float_int f =
     (case f of
        FZero neg \<Rightarrow> Some 0
      | FFin neg digits e \<Rightarrow>
          if int (length digits) \<le> e + 1
          then Some ((if neg then - 1 else 1) * int (dec_value digits) * 10 ^ nat (e + 1 - int (length digits)))
          else None
      | _ \<Rightarrow> None)"

definition float_eq :: "float64 \<Rightarrow> float64 \<Rightarrow> bool" where
  "float_eq a b =
     (case (a, b) of
        (FNaN, _) \<Rightarrow> False
      | (FZero _, FZero _) \<Rightarrow> True
      | _ \<Rightarrow> a = b)"

definition max_safe_integer :: int where
  "max_safe_integer = 2 ^ 53 - 1"

definition is_safe_integer :: "goval \<Rightarrow> bool" where
  "is_safe_integer v =
     (case v of
        VFloat f \<Rightarrow> (case float_int f of Some i \<Rightarrow> \<bar>i\<bar> \<le> max_safe_integer | None \<Rightarrow> False)
      | _ \<Rightarrow> False)"

subsection \<open>Strings\<close>

definition hex_digit :: "nat \<Rightarrow> char" where
  "hex_digit n = (if n < 10 then char_of (48 + n) else char_of (87 + n))"

text \<open>The escape of one byte: the \<open>switch\<close> of \<open>WriteString\<close> and of \<open>writeStringSlow\<close>.\<close>

definition escape_byte :: "char \<Rightarrow> string" where
  "escape_byte c =
     (if c = CHR 0x22 then [CHR 0x5C, CHR 0x22]
      else if c = CHR 0x5C then [CHR 0x5C, CHR 0x5C]
      else if byte c = 8 then [CHR 0x5C, CHR ''b'']
      else if byte c = 12 then [CHR 0x5C, CHR ''f'']
      else if byte c = 10 then [CHR 0x5C, CHR ''n'']
      else if byte c = 13 then [CHR 0x5C, CHR ''r'']
      else if byte c = 9 then [CHR 0x5C, CHR ''t'']
      else if byte c < 32
        then [CHR 0x5C, CHR ''u'', CHR ''0'', CHR ''0'', hex_digit (byte c div 16), hex_digit (byte c mod 16)]
      else [c])"

definition replacement :: string where
  \<comment> \<open>U+FFFD in UTF-8\<close>
  "replacement = [CHR 0xEF, CHR 0xBF, CHR 0xBD]"

definition wtf8_surrogate :: "string \<Rightarrow> bool" where
  "wtf8_surrogate s = (3 \<le> length s \<and> byte (hd s) = 0xED \<and> cont 0xA0 0xBF s 1 \<and> cont 0x80 0xBF s 2)"

function write_slow :: "string \<Rightarrow> string" where
  "write_slow s =
     (case s of
        [] \<Rightarrow> []
      | c # cs \<Rightarrow>
          if byte c < 0x80 then escape_byte c @ write_slow cs
          else if wtf8_surrogate s then
            (let r = 0xD000 + low6 s 1 * 64 + low6 s 2 in
             [CHR 0x5C, CHR ''u'', CHR ''d'', hex_digit (r div 256 mod 16), hex_digit (r div 16 mod 16),
              hex_digit (r mod 16)]) @ write_slow (drop 3 s)
          else if decode_rune s = (0xFFFD, 1) then replacement @ write_slow cs
          else take (snd (decode_rune s)) s @ write_slow (drop (snd (decode_rune s)) s))"
  by pat_completeness auto
termination
  by (relation "measure length") (auto simp add: decode_rune_width)

declare write_slow.simps [simp del]

definition json_quote :: "string \<Rightarrow> string" where
  \<comment> \<open>\<open>WriteString\<close> and \<open>Quote\<close>\<close>
  "json_quote s =
     [CHR 0x22] @ (if valid_utf8 s then concat (map escape_byte s) else write_slow s) @ [CHR 0x22]"

subsection \<open>Values\<close>

text \<open>
  \<open>Stringify\<close>. An object's entries are written in the order \<open>Range\<close> visits them. A
  \<open>WorkspaceRef\<close> and a \<open>jsx.ID\<close> go through their \<open>MarshalJSON\<close>.
\<close>

definition ref_json :: "int \<Rightarrow> string" where
  "ref_json w =
     (if w = 0 then ''null''
      else if w \<le> max_safe_integer then itoa w else [CHR 0x22] @ itoa w @ [CHR 0x22])"

definition id_json :: "int \<Rightarrow> string" where
  "id_json i = (if i = 0 then ''null'' else [CHR 0x22] @ itoa i @ [CHR 0x22])"

fun stringify :: "goval \<Rightarrow> string" where
  "stringify VNil = ''null''"
| "stringify VNull = ''null''"
| "stringify (VBool b) = (if b then ''true'' else ''false'')"
| "stringify (VFloat f) = write_number f"
| "stringify (VInt i) = itoa i"
| "stringify (VID i) = id_json i"
| "stringify (VRef w) = ref_json w"
| "stringify (VStr s) = json_quote s"
| "stringify (VList vs) = ''['' @ join '','' (map stringify vs) @ '']''"
| "stringify (VObj es) =
     ''{'' @ join '','' (map snd (js_entries (map (\<lambda>(k, v). (k, json_quote k @ '':'' @ stringify v)) es))) @ ''}''"

text \<open>
  \<open>ToString\<close>: JavaScript's \<open>String(v)\<close> for parsed values, \<open>fmt.Sprint\<close> for the others.
\<close>

fun to_string :: "goval \<Rightarrow> string" where
  "to_string VNil = ''null''"
| "to_string (VBool b) = (if b then ''true'' else ''false'')"
| "to_string (VFloat f) = format_number f"
| "to_string (VStr s) = s"
| "to_string (VList vs) = join '','' (map (\<lambda>v. if v = VNil then [] else to_string v) vs)"
| "to_string (VObj es) = ''[object Object]''"
| "to_string VNull = ''{}''"
| "to_string (VInt i) = itoa i"
| "to_string (VID i) = (if i = 0 then [] else itoa i)"
| "to_string (VRef w) = itoa w"

text \<open>\<open>Equal\<close>: deep equality, objects by key set.\<close>

function (sequential) json_equal :: "goval \<Rightarrow> goval \<Rightarrow> bool"
  and json_equal_list :: "goval list \<Rightarrow> goval list \<Rightarrow> bool"
  and json_equal_entries :: "(string \<times> goval) list \<Rightarrow> (string \<times> goval) list \<Rightarrow> bool" where
  "json_equal VNil b = (b = VNil)"
| "json_equal (VBool x) b = (b = VBool x)"
| "json_equal (VFloat x) (VFloat y) = float_eq x y"
| "json_equal (VStr x) b = (b = VStr x)"
| "json_equal (VList xs) (VList ys) = (length xs = length ys \<and> json_equal_list xs ys)"
| "json_equal (VObj xs) (VObj ys) = (length xs = length ys \<and> json_equal_entries xs ys)"
| "json_equal _ _ = False"
| "json_equal_list [] ys = True"
| "json_equal_list (x # xs) (y # ys) = (json_equal x y \<and> json_equal_list xs ys)"
| "json_equal_list (x # xs) [] = False"
| "json_equal_entries [] ys = True"
| "json_equal_entries ((k, v) # es) ys =
     ((case map_of ys k of Some v' \<Rightarrow> json_equal v v' | None \<Rightarrow> False) \<and> json_equal_entries es ys)"
  by pat_completeness auto
termination
  by (relation "measure (\<lambda>a. case a of Inl (v, _) \<Rightarrow> 2 * size v
                         | Inr (Inl (vs, _)) \<Rightarrow> 1 + 2 * size_list size vs
                         | Inr (Inr (es, _)) \<Rightarrow> 1 + 2 * size_list (size_prod (\<lambda>_. 0) size) es)") auto

end
