(* ===== verification/Regex.thy ===== *)
theory Regex
  imports Go_Strings
begin

text \<open>
  Go's \<open>regexp\<close> package, as far as the modelled code uses it: whole-string matching
  (\<open>^...$\<close>) of regular expressions built from character classes, sequence, alternative and
  star. \<open>matches\<close> is executable (derivatives with smart constructors); \<open>lang\<close> is the
  language the expression denotes, and \<open>matches_lang\<close> shows the two agree.
\<close>

datatype regex =
    RZero
  | ROne
  | RCls "(char \<times> char) list"   \<comment> \<open>a class \<open>[a-z0-9]\<close> as its ranges\<close>
  | RAlt regex regex
  | RSeq regex regex
  | RStar regex

definition in_class :: "(char \<times> char) list \<Rightarrow> char \<Rightarrow> bool" where
  "in_class rs c = list_ex (\<lambda>(lo, hi). byte lo \<le> byte c \<and> byte c \<le> byte hi) rs"

inductive_set star_lang :: "string set \<Rightarrow> string set" for L where
  star_nil: "[] \<in> star_lang L"
| star_app: "u \<in> L \<Longrightarrow> v \<in> star_lang L \<Longrightarrow> u @ v \<in> star_lang L"

fun lang :: "regex \<Rightarrow> string set" where
  "lang RZero = {}"
| "lang ROne = {[]}"
| "lang (RCls rs) = {[c] | c. in_class rs c}"
| "lang (RAlt r s) = lang r \<union> lang s"
| "lang (RSeq r s) = {u @ v | u v. u \<in> lang r \<and> v \<in> lang s}"
| "lang (RStar r) = star_lang (lang r)"

fun nullable :: "regex \<Rightarrow> bool" where
  "nullable RZero = False"
| "nullable ROne = True"
| "nullable (RCls rs) = False"
| "nullable (RAlt r s) = (nullable r \<or> nullable s)"
| "nullable (RSeq r s) = (nullable r \<and> nullable s)"
| "nullable (RStar r) = True"

fun mk_alt :: "regex \<Rightarrow> regex \<Rightarrow> regex" where
  "mk_alt RZero s = s"
| "mk_alt r RZero = r"
| "mk_alt r s = (if r = s then r else RAlt r s)"

fun mk_seq :: "regex \<Rightarrow> regex \<Rightarrow> regex" where
  "mk_seq RZero s = RZero"
| "mk_seq ROne s = s"
| "mk_seq r RZero = RZero"
| "mk_seq r s = RSeq r s"

fun deriv :: "char \<Rightarrow> regex \<Rightarrow> regex" where
  "deriv c RZero = RZero"
| "deriv c ROne = RZero"
| "deriv c (RCls rs) = (if in_class rs c then ROne else RZero)"
| "deriv c (RAlt r s) = mk_alt (deriv c r) (deriv c s)"
| "deriv c (RSeq r s) =
     (if nullable r then mk_alt (mk_seq (deriv c r) s) (deriv c s) else mk_seq (deriv c r) s)"
| "deriv c (RStar r) = mk_seq (deriv c r) (RStar r)"

fun matches :: "regex \<Rightarrow> string \<Rightarrow> bool" where
  "matches r [] = nullable r"
| "matches r (c # cs) = matches (deriv c r) cs"

text \<open>\<open>RPlus\<close> is \<open>r+\<close>, \<open>ROpt\<close> is \<open>r?\<close>, \<open>RLit\<close> a literal.\<close>

definition RPlus :: "regex \<Rightarrow> regex" where
  "RPlus r = RSeq r (RStar r)"

definition ROpt :: "regex \<Rightarrow> regex" where
  "ROpt r = RAlt ROne r"

definition RChr :: "char \<Rightarrow> regex" where
  "RChr c = RCls [(c, c)]"

fun RLit :: "string \<Rightarrow> regex" where
  "RLit [] = ROne"
| "RLit (c # cs) = RSeq (RChr c) (RLit cs)"

fun RRep :: "nat \<Rightarrow> regex \<Rightarrow> regex" where
  "RRep 0 r = ROne"
| "RRep (Suc n) r = RSeq r (RRep n r)"

subsection \<open>The matcher decides the language\<close>

lemma nullable_lang: "nullable r \<longleftrightarrow> [] \<in> lang r"
  by (induction r) (auto intro: star_nil)

lemma lang_mk_alt [simp]: "lang (mk_alt r s) = lang r \<union> lang s"
  by (cases "(r, s)" rule: mk_alt.cases) auto

lemma lang_mk_seq [simp]: "lang (mk_seq r s) = lang (RSeq r s)"
  by (cases "(r, s)" rule: mk_seq.cases) auto

lemma star_cons:
  "w \<in> star_lang L \<Longrightarrow> w = c # v \<Longrightarrow> \<exists>x y. c # x \<in> L \<and> y \<in> star_lang L \<and> v = x @ y"
proof (induction arbitrary: v rule: star_lang.induct)
  case star_nil
  then show ?case by simp
next
  case (star_app u v')
  show ?case
  proof (cases u)
    case Nil
    with star_app show ?thesis by auto
  next
    case (Cons d x)
    with star_app.prems have "d = c" "v = x @ v'" by auto
    with Cons star_app.hyps show ?thesis by blast
  qed
qed

lemma lang_deriv: "w \<in> lang (deriv c r) \<longleftrightarrow> c # w \<in> lang r"
proof (induction r arbitrary: w)
  case (RSeq r s)
  have split: "c # w \<in> lang (RSeq r s) \<longleftrightarrow>
      (\<exists>u v. w = u @ v \<and> c # u \<in> lang r \<and> v \<in> lang s) \<or> ([] \<in> lang r \<and> c # w \<in> lang s)"
    (is "?L \<longleftrightarrow> ?R")
  proof
    assume ?L
    then obtain u v where uv: "c # w = u @ v" "u \<in> lang r" "v \<in> lang s" by auto
    show ?R
    proof (cases u)
      case Nil
      with uv show ?thesis by auto
    next
      case (Cons d u')
      with uv show ?thesis by auto
    qed
  next
    assume ?R
    then show ?L
    proof
      assume "\<exists>u v. w = u @ v \<and> c # u \<in> lang r \<and> v \<in> lang s"
      then obtain u v where uv: "w = u @ v" "c # u \<in> lang r" "v \<in> lang s" by blast
      then have "c # w = (c # u) @ v" by simp
      with uv(2,3) show ?L unfolding lang.simps by blast
    next
      assume "[] \<in> lang r \<and> c # w \<in> lang s"
      then show ?L by force
    qed
  qed
  show ?case unfolding split by (auto simp add: RSeq.IH nullable_lang)
next
  case (RStar r)
  show ?case
  proof
    assume "w \<in> lang (deriv c (RStar r))"
    then obtain u v where "w = u @ v" "c # u \<in> lang r" "v \<in> star_lang (lang r)"
      by (auto simp add: RStar.IH)
    then show "c # w \<in> lang (RStar r)"
      using star_app [of "c # u" "lang r" v] by simp
  next
    assume "c # w \<in> lang (RStar r)"
    then have "c # w \<in> star_lang (lang r)" by simp
    from star_cons [OF this refl]
    have "\<exists>x y. c # x \<in> lang r \<and> y \<in> star_lang (lang r) \<and> w = x @ y" .
    then show "w \<in> lang (deriv c (RStar r))" by (auto simp add: RStar.IH)
  qed
qed auto

theorem matches_lang: "matches r w \<longleftrightarrow> w \<in> lang r"
  by (induction w arbitrary: r) (simp_all add: nullable_lang lang_deriv)

subsection \<open>Reading facts off a match\<close>

fun alphabet :: "regex \<Rightarrow> (char \<times> char) list" where
  "alphabet RZero = []"
| "alphabet ROne = []"
| "alphabet (RCls rs) = rs"
| "alphabet (RAlt r s) = alphabet r @ alphabet s"
| "alphabet (RSeq r s) = alphabet r @ alphabet s"
| "alphabet (RStar r) = alphabet r"

lemma in_class_append [simp]: "in_class (xs @ ys) c \<longleftrightarrow> in_class xs c \<or> in_class ys c"
  by (auto simp add: in_class_def)

lemma star_lang_all: "w \<in> star_lang L \<Longrightarrow> (\<And>u c. u \<in> L \<Longrightarrow> c \<in> set u \<Longrightarrow> P c) \<Longrightarrow> c \<in> set w \<Longrightarrow> P c"
  by (induction rule: star_lang.induct) auto

lemma lang_alphabet: "w \<in> lang r \<Longrightarrow> c \<in> set w \<Longrightarrow> in_class (alphabet r) c"
proof (induction r arbitrary: w c)
  case (RStar r)
  from RStar.prems(1) have "w \<in> star_lang (lang r)" by simp
  then show ?case
    using star_lang_all [of w "lang r" "in_class (alphabet r)" c] RStar.IH RStar.prems(2) by auto
qed auto

lemma matches_alphabet: "matches r w \<Longrightarrow> c \<in> set w \<Longrightarrow> in_class (alphabet r) c"
  by (auto simp add: matches_lang intro: lang_alphabet)

lemma lang_RPlus: "lang (RPlus r) = {u @ v | u v. u \<in> lang r \<and> v \<in> star_lang (lang r)}"
  by (simp add: RPlus_def)

lemma lang_RChr [simp]: "lang (RChr c) = {[c]}"
  by (auto simp add: RChr_def in_class_def)

end
