(* ===== verification/Args.thy ===== *)
theory Args
  imports Json_Value Regex
begin

text \<open>
  \<open>internal/versions/args.go\<close>, \<open>internal/apierror/apierror.go\<close> and the parsing of ids in
  \<open>internal/jsx/jsx.go\<close>: the errors of the API, and the normalisation of loosely typed
  arguments (slugs, ids, notes, booleans). Every refusal is a value of \<^typ>\<open>goval\<close>-carrying
  \<open>api_error\<close>, with the source's status, message, code and details.
\<close>

subsection \<open>Errors\<close>

record api_error =
  err_status :: nat
  err_message :: string
  err_code :: string
  err_details :: "goval"      \<comment> \<open>VNil when there are none\<close>

text \<open>An error that is not an \<open>*apierror.Error\<close> (a bug or an infrastructure failure).\<close>

datatype go_error = Api api_error | Other string

definition new_error :: "nat \<Rightarrow> string \<Rightarrow> string \<Rightarrow> goval \<Rightarrow> go_error" where
  "new_error status msg code details =
     Api \<lparr>err_status = status, err_message = msg, err_code = code, err_details = details\<rparr>"

definition bad_request :: "string \<Rightarrow> string \<Rightarrow> goval \<Rightarrow> go_error" where
  "bad_request msg code details = new_error 400 msg code details"

definition forbidden :: "string \<Rightarrow> string \<Rightarrow> goval \<Rightarrow> go_error" where
  "forbidden msg code details = new_error 403 msg code details"

definition not_found :: "string \<Rightarrow> string \<Rightarrow> goval \<Rightarrow> go_error" where
  "not_found msg code details = new_error 404 msg code details"

definition conflict :: "string \<Rightarrow> string \<Rightarrow> goval \<Rightarrow> go_error" where
  "conflict msg code details = new_error 409 msg code details"

definition error_code :: "go_error \<Rightarrow> string option" where
  "error_code e = (case e of Api a \<Rightarrow> Some (err_code a) | Other _ \<Rightarrow> None)"

subsection \<open>Loosely typed values\<close>

definition arg :: "goval \<Rightarrow> bool \<Rightarrow> goval" where
  "arg v present = (if \<not> present then VNil else if v = VNil then VNull else v)"

definition is_nullish :: "goval \<Rightarrow> bool" where
  "is_nullish v = (v = VNil \<or> v = VNull)"

text \<open>\<open>jsString\<close>: JavaScript's \<open>String(v)\<close>.\<close>

fun js_string :: "goval \<Rightarrow> string" where
  "js_string VNil = ''undefined''"
| "js_string VNull = ''null''"
| "js_string (VStr s) = s"
| "js_string (VBool b) = (if b then ''true'' else ''false'')"
| "js_string (VFloat f) = format_number f"
| "js_string (VInt i) = itoa i"
| "js_string (VID i) = (if i = 0 then ''null'' else itoa i)"
| "js_string (VList vs) = join '','' (map (\<lambda>e. if is_nullish e then [] else js_string e) vs)"
| "js_string (VRef w) = ''[object Object]''"
| "js_string (VObj es) = ''[object Object]''"

text \<open>\<open>jsx.ID.String\<close>.\<close>

definition id_string :: "int \<Rightarrow> string" where
  "id_string i = (if i = 0 then [] else itoa i)"

definition same_db_id :: "goval \<Rightarrow> int \<Rightarrow> bool" where
  "same_db_id a b = (\<not> is_nullish a \<and> b \<noteq> 0 \<and> js_string a = id_string b)"

text \<open>\<open>pgText\<close>; \<open>None\<close> is SQL NULL. Values of other types are bound as their JSON text.\<close>

definition pg_text :: "goval \<Rightarrow> string option" where
  "pg_text v =
     (case v of
        VNil \<Rightarrow> None
      | VNull \<Rightarrow> None
      | VStr s \<Rightarrow> Some s
      | VBool _ \<Rightarrow> Some (js_string v)
      | VFloat _ \<Rightarrow> Some (js_string v)
      | VInt _ \<Rightarrow> Some (js_string v)
      | VID _ \<Rightarrow> Some (js_string v)
      | VRef _ \<Rightarrow> Some (stringify v)
      | VList _ \<Rightarrow> Some (stringify v)
      | VObj _ \<Rightarrow> Some (stringify v))"

definition js_truthy :: "goval \<Rightarrow> bool" where
  "js_truthy v =
     (case v of
        VNil \<Rightarrow> False
      | VNull \<Rightarrow> False
      | VBool b \<Rightarrow> b
      | VStr s \<Rightarrow> s \<noteq> []
      | VFloat f \<Rightarrow> (case f of FNaN \<Rightarrow> False | FZero _ \<Rightarrow> False | _ \<Rightarrow> True)
      | VInt i \<Rightarrow> i \<noteq> 0
      | VID i \<Rightarrow> i \<noteq> 0
      | _ \<Rightarrow> True)"

definition bool_arg :: "goval \<Rightarrow> bool \<Rightarrow> string \<Rightarrow> go_error + bool" where
  "bool_arg v d field =
     (case v of
        VNil \<Rightarrow> Inr d
      | VBool b \<Rightarrow> Inr b
      | _ \<Rightarrow> Inl (bad_request (field @ '' must be a boolean'') ''bad_boolean'' VNil))"

subsection \<open>Slugs\<close>

text \<open>\<open>^[a-z0-9]+(?:[-_][a-z0-9]+)*(?:/[a-z0-9]+(?:[-_][a-z0-9]+)*)*$\<close>\<close>

definition alnum_class :: regex where
  "alnum_class = RCls [(CHR ''a'', CHR ''z''), (CHR ''0'', CHR ''9'')]"

definition segment_re :: regex where
  "segment_re =
     RSeq (RPlus alnum_class)
       (RStar (RSeq (RCls [(CHR ''-'', CHR ''-''), (CHR ''_'', CHR ''_'')]) (RPlus alnum_class)))"

definition slug_re :: regex where
  "slug_re = RSeq segment_re (RStar (RSeq (RChr (CHR ''/'')) segment_re))"

text \<open>
  \<open>strings.Map(unicode.ToLower, s)\<close>, as far as the pattern can tell: the ASCII capitals, and
  the Kelvin sign U+212A, whose lower case is the ASCII \<open>k\<close>. The lower case of every other
  non-ASCII rune but U+0130 (refused before) is non-ASCII, and a slug with a non-ASCII byte is
  refused, so such runes are left as they are.
\<close>

definition lower_byte :: "char \<Rightarrow> char" where
  "lower_byte c = (if 65 \<le> byte c \<and> byte c \<le> 90 then char_of (byte c + 32) else c)"

fun to_lower :: "string \<Rightarrow> string" where
  "to_lower [] = []"
| "to_lower (a # b # c # s) =
     (if byte a = 0xE2 \<and> byte b = 0x84 \<and> byte c = 0xAA then CHR ''k'' # to_lower s
      else lower_byte a # to_lower (b # c # s))"
| "to_lower (a # s) = lower_byte a # to_lower s"

definition dotted_I :: string where
  \<comment> \<open>U+0130 in UTF-8\<close>
  "dotted_I = [CHR 0xC4, CHR 0xB0]"

definition bad_slug :: go_error where
  "bad_slug = bad_request ''slug must be url-safe (a-z 0-9 - _ /)'' ''bad_slug'' VNil"

definition normalize_slug :: "goval \<Rightarrow> go_error + string" where
  "normalize_slug slug =
     (case slug of
        VStr s0 \<Rightarrow>
          let s = js_trim s0 in
          if contains_str dotted_I s then Inl bad_slug
          else
            let s = to_lower s in
            if \<not> matches slug_re s then Inl bad_slug else Inr s
      | _ \<Rightarrow> Inl (bad_request ''slug is required'' ''slug_required'' VNil))"

subsection \<open>Ids and notes\<close>

text \<open>\<open>^[1-9][0-9]*$\<close>, and \<open>strconv.ParseInt(x, 10, 64)\<close> on what it matches.\<close>

definition decimal_id_re :: regex where
  "decimal_id_re = RSeq (RCls [(CHR ''1'', CHR ''9'')]) (RStar (RCls [(CHR ''0'', CHR ''9'')]))"

definition max_bigint :: int where
  "max_bigint = 2 ^ 63 - 1"

definition parse_int64 :: "string \<Rightarrow> int option" where
  \<comment> \<open>\<open>strconv.ParseInt(s, 10, 64)\<close>: an optional sign and decimal digits, within int64\<close>
  "parse_int64 s =
     (let neg = (s \<noteq> [] \<and> hd s = CHR ''-'');
          ds = (if s \<noteq> [] \<and> (hd s = CHR ''-'' \<or> hd s = CHR ''+'') then tl s else s);
          n = int (dec_value ds) in
      if ds = [] \<or> \<not> list_all is_digit ds then None
      else if neg then (if n \<le> max_bigint + 1 then Some (- n) else None)
      else if n \<le> max_bigint then Some n else None)"

definition parse_positive_id :: "goval \<Rightarrow> int option" where
  "parse_positive_id v =
     (case v of
        VFloat f \<Rightarrow>
          (case float_int f of
             Some n \<Rightarrow> if 0 < n \<and> n \<le> max_safe_integer then Some n else None
           | None \<Rightarrow> None)
      | VInt x \<Rightarrow> if 0 < x \<and> x \<le> max_safe_integer then Some x else None
      | VID x \<Rightarrow> if 0 < x then Some x else None
      | VRef x \<Rightarrow> if 0 < x then Some x else None
      | VStr s \<Rightarrow> if matches decimal_id_re s then parse_int64 s else None
      | _ \<Rightarrow> None)"

definition normalize_workspace_id :: "goval \<Rightarrow> go_error + int" where
  "normalize_workspace_id v =
     (case parse_positive_id v of
        Some i \<Rightarrow> Inr i
      | None \<Rightarrow> Inl (bad_request ''workspace_id must be a positive database id'' ''bad_workspace_id'' VNil))"

definition normalize_note :: "goval \<Rightarrow> go_error + string option" where
  "normalize_note v =
     (if is_nullish v then Inr None
      else
        (case v of
           VStr s \<Rightarrow>
             if 500 < utf16_len s
             then Inl (bad_request ''note must be 500 characters or fewer'' ''note_too_long'' VNil)
             else Inr (Some s)
         | _ \<Rightarrow> Inl (bad_request ''note must be a string or null'' ''bad_note'' VNil)))"

text \<open>\<open>jsx.ParseID\<close>.\<close>

definition parse_id :: "goval \<Rightarrow> go_error + int" where
  "parse_id v =
     (let bad = Inl (Other ''not a valid id'') in
      case v of
        VID x \<Rightarrow> if 0 < x then Inr x else bad
      | VStr s \<Rightarrow>
          (case parse_int64 s of
             Some n \<Rightarrow> if 0 < n \<and> itoa n = s then Inr n else bad
           | None \<Rightarrow> bad)
      | VFloat f \<Rightarrow>
          (case float_int f of
             Some n \<Rightarrow> if 0 < n \<and> n \<le> 9007199254740991 then Inr n else bad
           | None \<Rightarrow> bad)
      | VInt x \<Rightarrow> if 0 < x then Inr x else bad
      | _ \<Rightarrow> bad)"

text \<open>\<open>jsx.ID.UnmarshalJSON\<close> on the text of a JSON number or of an unescaped string.\<close>

definition id_of_json :: "string \<Rightarrow> int option" where
  "id_of_json b =
     (if b = ''null'' then Some 0
      else
        let s = (if 1 < length b \<and> hd b = CHR 0x22 then butlast (tl b) else b) in
        case parse_int64 s of Some n \<Rightarrow> if n < 0 then None else Some n | None \<Rightarrow> None)"

subsection \<open>Normal forms\<close>

text \<open>
  A normaliser maps loosely typed input to a canonical form or refuses it, and leaves a canonical
  form alone. Callers normalise the same value more than once (\<open>Deploy\<close> normalises in
  \<open>PrepareDeploy\<close> and again in \<open>LockPage\<close>) and rely on that.
\<close>

locale canonical_form =
  fixes norm :: "'a \<Rightarrow> 'e + 'b"
    and canon :: "'b \<Rightarrow> bool"
    and embed :: "'b \<Rightarrow> 'a"
  assumes norm_canon: "norm x = Inr s \<Longrightarrow> canon s"
    and canon_fixed: "canon s \<Longrightarrow> norm (embed s) = Inr s"
begin

lemma idempotent: "norm x = Inr s \<Longrightarrow> norm (embed s) = Inr s"
  by (rule canon_fixed) (rule norm_canon)

lemma range_canon: "(\<exists>x. norm x = Inr s) \<longleftrightarrow> canon s"
  by (blast intro: canon_fixed dest: norm_canon)

lemma twice: "res_bind (norm x) (\<lambda>s. norm (embed s)) = norm x"
  by (cases "norm x") (simp_all add: idempotent)

end

subsection \<open>Slugs are in normal form\<close>

definition slug_class :: "(char \<times> char) list" where
  "slug_class = alphabet slug_re"

lemma slug_chars: "matches slug_re s \<Longrightarrow> c \<in> set s \<Longrightarrow> in_class slug_class c"
  unfolding slug_class_def by (rule matches_alphabet)

lemma slug_not_Nil: "matches slug_re s \<Longrightarrow> s \<noteq> []"
  by (auto simp add: slug_re_def segment_re_def RPlus_def alnum_class_def)

definition slug_byte :: "nat \<Rightarrow> bool" where
  "slug_byte n \<longleftrightarrow> n = 45 \<or> n = 47 \<or> n = 95 \<or> 48 \<le> n \<and> n \<le> 57 \<or> 97 \<le> n \<and> n \<le> 122"

lemma slug_class_byte: "in_class slug_class c \<Longrightarrow>
    slug_byte (byte c)"
  by (auto simp add: slug_byte_def slug_class_def slug_re_def segment_re_def RPlus_def RChr_def alnum_class_def in_class_def)

lemma lead_enc_0: "(\<And>e. e \<in> set encs \<Longrightarrow> e \<noteq> [] \<Longrightarrow> s \<noteq> [] \<Longrightarrow> hd e \<noteq> hd s) \<Longrightarrow> lead_enc encs s = 0"
proof -
  assume A: "\<And>e. e \<in> set encs \<Longrightarrow> e \<noteq> [] \<Longrightarrow> s \<noteq> [] \<Longrightarrow> hd e \<noteq> hd s"
  have "find (\<lambda>e. e \<noteq> [] \<and> prefix e s) encs = None"
  proof (subst find_None_mem, intro ballI notI)
    fix e assume "e \<in> set encs" "e \<noteq> [] \<and> prefix e s"
    then have "hd e = hd s" "s \<noteq> []" by (auto simp add: prefix_def)
    with A [of e] \<open>e \<in> set encs\<close> \<open>e \<noteq> [] \<and> prefix e s\<close> show False by simp
  qed
  then show ?thesis by (simp add: lead_enc_def)
qed

lemma trim_runes_id:
  assumes "\<And>e. e \<in> set encs \<Longrightarrow> e \<noteq> [] \<and> \<not> P (hd e) \<and> \<not> P (last e)" "encs = map utf8_encode rs"
    and "s \<noteq> []" "P (hd s)" "P (last s)"
  shows "trim_runes rs s = s"
proof -
  have "lead_enc encs s = 0"
  proof (rule lead_enc_0)
    fix e assume "e \<in> set encs"
    with assms(1) have "\<not> P (hd e)" by blast
    with assms(4) show "hd e \<noteq> hd s" by metis
  qed
  then have 1: "drop_encs encs s = s" by (simp add: drop_encs.simps)
  have "lead_enc (map rev encs) (rev s) = 0"
  proof (rule lead_enc_0)
    fix e assume "e \<in> set (map rev encs)" "e \<noteq> []"
    then obtain e' where e': "e = rev e'" "e' \<in> set encs" "e' \<noteq> []" by auto
    with assms(1) [of e'] assms(3,5) show "hd e \<noteq> hd (rev s)" by (auto simp add: hd_rev)
  qed
  then have "drop_encs (map rev encs) (rev s) = rev s" by (simp add: drop_encs.simps)
  with 1 assms(2) show ?thesis by (simp add: trim_runes_def Let_def)
qed

lemma js_space_not_slug: "list_all (\<lambda>e. e \<noteq> [] \<and> \<not> slug_byte (byte (hd e)) \<and> \<not> slug_byte (byte (last e)))
    (map utf8_encode js_space_runes)"
  by (simp add: js_space_runes_def upt_conv_Cons utf8_encode_def slug_byte_def)

lemma slug_trim: "matches slug_re s \<Longrightarrow> js_trim s = s"
  unfolding js_trim_def
  by (rule trim_runes_id [OF _ refl, where P = "\<lambda>c. slug_byte (byte c)"])
    (use js_space_not_slug in \<open>auto simp add: list_all_iff slug_not_Nil intro!: slug_class_byte slug_chars\<close>)

lemma lower_byte_slug: "in_class slug_class c \<Longrightarrow> lower_byte c = c"
  by (auto simp add: lower_byte_def slug_byte_def dest!: slug_class_byte)

lemma slug_lower: "(\<And>c. c \<in> set s \<Longrightarrow> in_class slug_class c) \<Longrightarrow> to_lower s = s"
proof (induction s rule: to_lower.induct)
  case (2 a b c s)
  have "in_class slug_class a" using "2.prems" by simp
  then have "\<not> byte a = 0xE2" "lower_byte a = a" by (auto simp add: lower_byte_def slug_byte_def dest!: slug_class_byte)
  moreover have "to_lower (b # c # s) = b # c # s" by (rule "2.IH") (use "2.prems" \<open>\<not> byte a = 0xE2\<close> in auto)
  ultimately show ?case by simp
qed (simp_all add: lower_byte_slug)

lemma slug_no_dotted_I: "matches slug_re s \<Longrightarrow> \<not> contains_str dotted_I s"
proof
  assume s: "matches slug_re s" and "contains_str dotted_I s"
  then have "CHR 0xC4 \<in> set s" by (auto simp add: contains_str_def dotted_I_def sublist_def)
  with s have "in_class slug_class (CHR 0xC4)" by (rule slug_chars)
  then show False by (auto simp add: slug_byte_def dest!: slug_class_byte)
qed

lemma normalize_slug_matches: "normalize_slug v = Inr s \<Longrightarrow> matches slug_re s"
  by (auto simp add: normalize_slug_def Let_def split: goval.splits if_splits)

lemma normalize_slug_fixed: "matches slug_re s \<Longrightarrow> normalize_slug (VStr s) = Inr s"
  by (simp add: normalize_slug_def Let_def slug_trim slug_no_dotted_I slug_lower slug_chars)

interpretation slug: canonical_form normalize_slug "matches slug_re" VStr
  by unfold_locales (fact normalize_slug_matches, fact normalize_slug_fixed)

text \<open>The pattern of a slug, segment by segment.\<close>

lemma segment_no_slash: "w \<in> lang segment_re \<Longrightarrow> CHR ''/'' \<notin> set w"
proof
  assume "w \<in> lang segment_re" "CHR ''/'' \<in> set w"
  then have "in_class (alphabet segment_re) (CHR ''/'')" by (rule lang_alphabet)
  then show False by (simp add: segment_re_def RPlus_def alnum_class_def in_class_def)
qed

lemma slug_tail_split:
  "v \<in> star_lang (lang (RSeq (RChr (CHR ''/'')) segment_re)) \<Longrightarrow>
     v = [] \<or> (\<exists>v'. v = CHR ''/'' # v' \<and> (\<forall>w \<in> set (split_on (CHR ''/'') v'). w \<in> lang segment_re))"
proof (induction rule: star_lang.induct)
  case (star_app u v)
  then obtain w where w: "u = CHR ''/'' # w" "w \<in> lang segment_re" by auto
  from segment_no_slash [OF w(2)] star_app.IH w show ?case
    by (auto simp add: split_on_no_sep split_on_append)
qed simp

lemma segments_star:
  "\<forall>w \<in> set ws. w \<in> lang segment_re \<Longrightarrow>
     concat (map (\<lambda>w. CHR ''/'' # w) ws) \<in> star_lang (lang (RSeq (RChr (CHR ''/'')) segment_re))"
proof (induction ws)
  case (Cons w ws)
  then have w: "w \<in> lang segment_re" by simp
  have "[CHR ''/''] \<in> lang (RChr (CHR ''/''))" by simp
  with w have "[CHR ''/''] @ w \<in> lang (RSeq (RChr (CHR ''/'')) segment_re)"
    unfolding lang.simps(5) by blast
  from star_app [OF this Cons.IH] Cons.prems show ?case by simp
qed (simp add: star_nil)

lemma join_slash: "join [CHR ''/''] (w # ws) = w @ concat (map (\<lambda>w. CHR ''/'' # w) ws)"
  by (induction ws arbitrary: w) auto

lemma slug_segments:
  "matches slug_re s \<longleftrightarrow> (\<forall>w \<in> set (split_on (CHR ''/'') s). matches segment_re w)"
  unfolding matches_lang
proof
  assume "s \<in> lang slug_re"
  then obtain u v where uv: "s = u @ v" "u \<in> lang segment_re"
    "v \<in> star_lang (lang (RSeq (RChr (CHR ''/'')) segment_re))"
    unfolding slug_re_def by auto
  from segment_no_slash [OF uv(2)] slug_tail_split [OF uv(3)] uv(1,2)
  show "\<forall>w \<in> set (split_on (CHR ''/'') s). w \<in> lang segment_re"
    by (auto simp add: split_on_no_sep split_on_append)
next
  assume A: "\<forall>w \<in> set (split_on (CHR ''/'') s). w \<in> lang segment_re"
  obtain w ws where ws: "split_on (CHR ''/'') s = w # ws"
    using split_on_not_Nil by (cases "split_on (CHR ''/'') s") auto
  with join_split_on [of "CHR ''/''" s] join_slash [of w ws]
  have "s = w @ concat (map (\<lambda>w. CHR ''/'' # w) ws)" by simp
  with A ws segments_star [of ws] show "s \<in> lang slug_re" unfolding slug_re_def by auto
qed

subsection \<open>Ids\<close>

definition wf_float :: "float64 \<Rightarrow> bool" where
  \<comment> \<open>the digits are those of a shortest representation\<close>
  "wf_float f =
     (case f of
        FFin neg digits e \<Rightarrow> digits \<noteq> [] \<and> list_all is_digit digits \<and> hd digits \<noteq> CHR ''0''
      | _ \<Rightarrow> True)"

lemma dec_value_zeros: "dec_value (ds @ zeros n) = dec_value ds * 10 ^ n"
proof (induction n)
  case (Suc n)
  have "ds @ zeros (Suc n) = (ds @ zeros n) @ [CHR ''0'']" by (simp add: zeros_def replicate_append_same)
  then have "dec_value (ds @ zeros (Suc n)) = 10 * dec_value (ds @ zeros n)"
    by (simp only: dec_value_snoc) simp
  with Suc show ?case by simp
qed (simp add: zeros_def)

lemma digits_zeros: "list_all is_digit ds \<Longrightarrow> list_all is_digit (ds @ zeros n)"
  by (auto simp add: zeros_def list_all_iff is_digit_def set_replicate_conv_if)

text \<open>A positive integral double prints as the integer does.\<close>

lemma format_integer:
  assumes "wf_float f" "float_int f = Some i" "0 < i" "i \<le> max_safe_integer"
  shows "format_number f = itoa i"
proof -
  from assms(2,3) obtain neg ds e where f: "f = FFin neg ds e" "int (length ds) \<le> e + 1"
    and i: "i = (if neg then - 1 else 1) * int (dec_value ds) * 10 ^ nat (e + 1 - int (length ds))"
    by (auto simp add: float_int_def split: float64.splits if_splits)
  let ?n = "nat (e + 1 - int (length ds))"
  have "0 \<le> int (dec_value ds) * 10 ^ ?n" by simp
  with i assms(3) have neg: "\<not> neg" by (cases neg) (simp_all del: of_nat_mult, linarith?)
  with i have i': "i = int (dec_value (ds @ zeros ?n))" by (simp add: dec_value_zeros)
  from assms(1) f have ds: "ds \<noteq> []" "list_all is_digit ds" "hd ds \<noteq> CHR ''0''"
    by (auto simp add: wf_float_def)
  have "nat_digits (dec_value (ds @ zeros ?n)) = ds @ zeros ?n"
    by (rule nat_digits_dec_value) (use ds digits_zeros in auto)
  then have "itoa i = ds @ zeros ?n" using i' by (simp add: itoa_def)
  moreover have "e + 1 \<le> 21"
  proof (rule ccontr)
    assume "\<not> e + 1 \<le> 21"
    then have len: "16 < length (ds @ zeros ?n)" using f(2) by (simp add: zeros_def)
    have "(10 :: nat) ^ 16 \<le> 10 ^ (length (ds @ zeros ?n) - 1)"
      using len by (intro power_increasing) auto
    also have "\<dots> \<le> dec_value (ds @ zeros ?n)"
      using dec_value_ge [OF digits_zeros [OF ds(2), of ?n]] ds by simp
    finally have "int (10 ^ 16) \<le> i" using i' by (simp only: of_nat_le_iff)
    with assms(4) show False by (simp add: max_safe_integer_def)
  qed
  ultimately show ?thesis using f neg by (simp add: format_number_def Let_def add.commute)
qed

lemma itoa_pos: "0 < i \<Longrightarrow> itoa i = nat_digits (nat i) \<and> list_all is_digit (nat_digits (nat i))"
  by (auto simp add: itoa_def list_all_iff nat_digits_all_digits)

lemma parse_int64_itoa: "0 < i \<Longrightarrow> i \<le> max_bigint \<Longrightarrow> parse_int64 (itoa i) = Some i"
proof -
  assume i: "0 < i" "i \<le> max_bigint"
  have "hd (nat_digits (nat i)) \<noteq> CHR ''-''" "hd (nat_digits (nat i)) \<noteq> CHR ''+''"
    using nat_digits_all_digits [of "hd (nat_digits (nat i))" "nat i"] by (auto simp add: is_digit_def)
  moreover from itoa_pos [OF i(1)]
  have "itoa i = nat_digits (nat i)" "list_all is_digit (nat_digits (nat i))" by simp_all
  ultimately show ?thesis using i by (simp add: parse_int64_def Let_def)
qed

text \<open>
  An id that travels as its decimal string comes back as itself, and the string is the only
  text \<open>jsx.ParseID\<close> accepts for it: no sign, no leading zero, no value outside BIGINT.
\<close>

lemma parse_id_roundtrip:
  "parse_id (VStr s) = Inr i \<longleftrightarrow> s = id_string i \<and> 0 < i \<and> i \<le> max_bigint"
proof
  assume "parse_id (VStr s) = Inr i"
  then have p: "parse_int64 s = Some i" "0 < i" "itoa i = s"
    by (auto simp add: parse_id_def Let_def split: option.splits if_splits)
  then have "i \<le> max_bigint" by (auto simp add: parse_int64_def Let_def split: if_splits)
  with p show "s = id_string i \<and> 0 < i \<and> i \<le> max_bigint" by (simp add: id_string_def)
next
  assume "s = id_string i \<and> 0 < i \<and> i \<le> max_bigint"
  then show "parse_id (VStr s) = Inr i"
    by (simp add: id_string_def parse_id_def Let_def parse_int64_itoa)
qed

text \<open>
  The optimistic-concurrency token means the same id however a client spells it: as a decimal
  string, an integer, a database id or a JSON number. It matches exactly that id, and never the
  absent pointer of an unpublished page.
\<close>

lemma same_db_id_spelling:
  assumes "0 < i" "i \<le> max_safe_integer" "wf_float f" "float_int f = Some i"
    and "v \<in> {VStr (itoa i), VInt i, VID i, VFloat f}"
  shows "same_db_id v j \<longleftrightarrow> j = i"
proof -
  have "js_string v = itoa i" "\<not> is_nullish v"
    using assms format_integer [OF assms(3,4,1,2)] by (auto simp add: is_nullish_def)
  then show ?thesis using assms(1) by (auto simp add: same_db_id_def id_string_def)
qed

lemma same_db_id_spelling_witness:
  "same_db_id (VFloat (FFin False ''12'' 1)) 12 \<and> \<not> same_db_id (VInt 12) 0"
  using same_db_id_spelling [of 12 "FFin False ''12'' 1" "VFloat (FFin False ''12'' 1)" 12]
    same_db_id_spelling [of 12 "FFin False ''12'' 1" "VInt 12" 0]
  by (simp add: max_safe_integer_def wf_float_def is_digit_def float_int_def dec_value_def)

end
