(* ===== verification/Routens.thy ===== *)
theory Routens
  imports Args
begin

text \<open>
  \<open>internal/routens/routens.go\<close>: the slug segments that belong to routes, and the check that a
  new slug uses none of them.
\<close>

definition reserved_slug_segments :: "string list" where
  "reserved_slug_segments =
     [''raw'', ''raw-template'', ''assets'', ''healthz'', ''readyz'', ''welcome'',
      ''versions'', ''publish'', ''rollback'', ''approve'', ''reject'', ''approval'',
      ''password'', ''title'', ''theme'', ''disable'', ''enable'', ''delete'', ''restore'',
      ''preview-token'', ''edit-token'', ''deploy-source'', ''preflight'', ''workspace'',
      ''templates'', ''portal'', ''portals'']"

definition is_reserved :: "string \<Rightarrow> bool" where
  "is_reserved segment = (segment \<in> set reserved_slug_segments)"

definition reserved_slug :: "string \<Rightarrow> go_error" where
  "reserved_slug segment =
     bad_request (''slug segment '' @ [CHR 0x27] @ segment @ [CHR 0x27] @ '' is reserved (collides with a route)'')
       ''reserved_slug'' VNil"

definition assert_slug_not_reserved :: "string \<Rightarrow> go_error + unit" where
  "assert_slug_not_reserved slug =
     (case find is_reserved (split_on (CHR ''/'') slug) of
        Some segment \<Rightarrow> Inl (reserved_slug segment)
      | None \<Rightarrow> Inr ())"

lemma not_reserved_iff:
  "assert_slug_not_reserved slug = Inr () \<longleftrightarrow>
     (\<forall>w \<in> set (split_on (CHR ''/'') slug). w \<notin> set reserved_slug_segments)"
proof (cases "find is_reserved (split_on (CHR ''/'') slug)")
  case None
  then have "assert_slug_not_reserved slug = Inr ()" by (simp add: assert_slug_not_reserved_def)
  moreover from None have "\<forall>w \<in> set (split_on (CHR ''/'') slug). w \<notin> set reserved_slug_segments"
    by (simp add: find_None_mem is_reserved_def)
  ultimately show ?thesis by simp
next
  case (Some w)
  then show ?thesis
    by (auto simp add: assert_slug_not_reserved_def is_reserved_def dest!: find_Some_mem)
qed

end
