(* ===== verification/Database.thy ===== *)
theory Database
  imports Routens
begin

text \<open>
  The database and its transactions: the tables of \<open>migrations/*.sql\<close> the state machine uses,
  \<open>internal/db/db.go\<close> (write admission, \<open>WithTx\<close>) and \<open>internal/audit/audit.go\<close>.

  A table is the list of its rows. An id is an \<^typ>\<open>int\<close> with 0 for NULL, as in \<open>jsx.ID\<close>; a
  nullable text or timestamp is an option; a timestamp is in nanoseconds since the Unix epoch.
  A transaction maps the database to an error or to a result and the new database. \<open>WithTx\<close>
  keeps the old database when the transaction fails.
\<close>

subsection \<open>Rows\<close>

datatype version_status = Draft | Pending | Approved | Rejected

definition status_name :: "version_status \<Rightarrow> string" where
  "status_name st =
     (case st of Draft \<Rightarrow> ''draft'' | Pending \<Rightarrow> ''pending'' | Approved \<Rightarrow> ''approved'' | Rejected \<Rightarrow> ''rejected'')"

record page =
  p_id :: int
  p_slug :: string
  p_title :: string
  p_client :: "string option"
  p_workspace :: int
  p_theme :: int
  p_password_hash :: "string option"
  p_password_sealed :: "string option"      \<comment> \<open>\<open>password_ciphertext\<close>\<close>
  p_require_approval :: bool
  p_disabled :: bool
  p_published :: int                        \<comment> \<open>\<open>published_version_id\<close>, the only truth for "live"\<close>
  p_created :: int
  p_updated :: int
  p_deleted :: "int option"
  p_check_at :: "int option"
  p_check_outcome :: "string option"
  p_check_detail :: "string option"
  p_check_source :: "int option"
  p_schedule :: "string option"
  p_owner :: "string option"

record version =
  v_id :: int
  v_page :: int
  v_html :: string
  v_sha :: string
  v_status :: version_status
  v_mode :: string
  v_author :: string
  v_source :: string
  v_note :: "string option"
  v_reviewed_by :: "string option"
  v_reviewed_at :: "int option"
  v_created :: int
  v_data_sha :: "string option"
  v_template_sha :: "string option"
  v_source_as_of :: "int option"
  v_refreshed_at :: "int option"
  v_binding :: int                          \<comment> \<open>\<open>template_version_id\<close>\<close>
  v_config_sha :: "string option"
  v_gaps :: "string option"

record workspace =
  w_id :: int
  w_name :: string
  w_created :: int
  w_updated :: int

record theme =
  th_id :: int
  th_name :: string

record audit_row =
  a_id :: int
  a_actor :: string
  a_actor_type :: string
  a_action :: string
  a_page :: int
  a_version :: int
  a_token :: int
  a_ip :: "string option"
  a_meta :: goval                           \<comment> \<open>VNil is NULL\<close>
  a_created :: int

record portal =
  po_id :: int
  po_slug :: string
  po_name :: string
  po_hash :: string                         \<comment> \<open>\<open>password_hash\<close>, never NULL\<close>
  po_sealed :: "string option"
  po_home :: int
  po_created :: int
  po_updated :: int
  po_deleted :: "int option"

record member =
  me_portal :: int
  me_page :: int
  me_label :: "string option"
  me_order :: int
  me_added :: int

record failure =
  fa_id :: int                              \<comment> \<open>the page or the portal\<close>
  fa_count :: int
  fa_start :: int
  fa_last :: int

record db =
  db_pages :: "page list"
  db_versions :: "version list"
  db_workspaces :: "workspace list"
  db_themes :: "theme list"
  db_templates :: "int list"                \<comment> \<open>the ids of \<open>page_template_versions\<close>\<close>
  db_audit :: "audit_row list"
  db_portals :: "portal list"
  db_members :: "member list"
  db_page_failures :: "failure list"
  db_portal_failures :: "failure list"
  db_next_page :: int                       \<comment> \<open>the identity sequences\<close>
  db_next_version :: int
  db_next_workspace :: int
  db_next_audit :: int
  db_next_portal :: int
  db_now :: int                             \<comment> \<open>\<open>now()\<close> of the current transaction\<close>

definition live_page :: "string \<Rightarrow> page \<Rightarrow> bool" where
  \<comment> \<open>\<open>slug = $1 AND deleted_at IS NULL\<close>\<close>
  "live_page slug p = (p_slug p = slug \<and> p_deleted p = None)"

subsection \<open>Transactions\<close>

type_synonym 'a tx = "db \<Rightarrow> go_error + 'a \<times> db"

definition ret :: "'a \<Rightarrow> 'a tx" where
  "ret x = (\<lambda>s. Inr (x, s))"

definition fail :: "go_error \<Rightarrow> 'a tx" where
  "fail e = (\<lambda>s. Inl e)"

definition bind_tx :: "'a tx \<Rightarrow> ('a \<Rightarrow> 'b tx) \<Rightarrow> 'b tx" where
  "bind_tx m k = (\<lambda>s. case m s of Inl e \<Rightarrow> Inl e | Inr (x, s') \<Rightarrow> k x s')"

definition then_tx :: "unit tx \<Rightarrow> 'b tx \<Rightarrow> 'b tx" where
  "then_tx m k = bind_tx m (\<lambda>_. k)"

text \<open>A pure check or computation; a read; a write that cannot fail.\<close>

definition lift_tx :: "go_error + 'a \<Rightarrow> 'a tx" where
  "lift_tx r = (\<lambda>s. case r of Inl e \<Rightarrow> Inl e | Inr x \<Rightarrow> Inr (x, s))"

definition read_tx :: "(db \<Rightarrow> 'a) \<Rightarrow> 'a tx" where
  "read_tx f = (\<lambda>s. Inr (f s, s))"

definition exec_tx :: "(db \<Rightarrow> db) \<Rightarrow> unit tx" where
  "exec_tx f = (\<lambda>s. Inr ((), f s))"

definition found_or :: "go_error \<Rightarrow> (db \<Rightarrow> 'a option) \<Rightarrow> 'a tx" where
  \<comment> \<open>\<open>QueryRow\<close>, with the error the code answers for \<open>ErrNoRows\<close>\<close>
  "found_or e q = (\<lambda>s. case q s of None \<Rightarrow> Inl e | Some x \<Rightarrow> Inr (x, s))"

text \<open>
  \<open>CheckWriteAdmission\<close>: \<open>rq_drain\<close> is the trimmed content of a fresh drain file ("" when there
  is none), \<open>rq_bypass\<close> tells whether the context carries \<open>WithDrainBypass\<close>, \<open>rq_now\<close> is the
  time at which the transaction begins.
\<close>

record request =
  rq_drain :: string
  rq_bypass :: bool
  rq_now :: int

definition updating :: go_error where
  "updating = new_error 503 (''Pages is updating '' @ em_dash @ '' retry shortly'') ''update_in_progress'' VNil"

definition check_write_admission :: "request \<Rightarrow> go_error + unit" where
  "check_write_admission r =
     (if rq_drain r = ''quiesced'' then Inl updating
      else if rq_drain r = ''draining'' then (if rq_bypass r then Inr () else Inl updating)
      else Inr ())"

definition with_tx :: "request \<Rightarrow> 'a tx \<Rightarrow> db \<Rightarrow> (go_error + 'a) \<times> db" where
  "with_tx r f s =
     (case check_write_admission r of
        Inl e \<Rightarrow> (Inl e, s)
      | Inr u \<Rightarrow>
          (case f (s\<lparr>db_now := rq_now r\<rparr>) of
             Inl e \<Rightarrow> (Inl e, s)
           | Inr (x, s') \<Rightarrow> (Inr x, s')))"

subsection \<open>The audit log\<close>

record actor =
  ac_actor :: string
  ac_type :: string      \<comment> \<open>user | agent | system\<close>
  ac_token :: int
  ac_ip :: string

definition audit_user :: string where "audit_user = ''user''"
definition audit_agent :: string where "audit_agent = ''agent''"
definition audit_system :: string where "audit_system = ''system''"

record audit_entry =
  e_actor :: string
  e_actor_type :: string
  e_action :: string
  e_page :: int
  e_version :: int
  e_token :: int
  e_ip :: string
  e_meta :: goval

text \<open>\<open>Actor.entry\<close>.\<close>

definition actor_entry :: "actor \<Rightarrow> string \<Rightarrow> int \<Rightarrow> int \<Rightarrow> goval \<Rightarrow> audit_entry" where
  "actor_entry a action pid vid meta =
     \<lparr>e_actor = ac_actor a, e_actor_type = ac_type a, e_action = action, e_page = pid, e_version = vid,
      e_token = ac_token a, e_ip = ac_ip a, e_meta = meta\<rparr>"

definition audit_row_of :: "db \<Rightarrow> audit_entry \<Rightarrow> audit_row" where
  "audit_row_of s e =
     \<lparr>a_id = db_next_audit s, a_actor = e_actor e, a_actor_type = e_actor_type e, a_action = e_action e,
      a_page = e_page e, a_version = e_version e, a_token = e_token e,
      a_ip = (if e_ip e \<noteq> [] then Some (e_ip e) else None), a_meta = e_meta e, a_created = db_now s\<rparr>"

definition audit_write :: "audit_entry \<Rightarrow> unit tx" where
  "audit_write e = exec_tx (\<lambda>s. s\<lparr>db_audit := db_audit s @ [audit_row_of s e], db_next_audit := db_next_audit s + 1\<rparr>)"

subsection \<open>Statements\<close>

definition update_page :: "int \<Rightarrow> (page \<Rightarrow> page) \<Rightarrow> db \<Rightarrow> db" where
  \<comment> \<open>\<open>UPDATE pages SET ... WHERE id = $1\<close>\<close>
  "update_page pid f s = s\<lparr>db_pages := update_where (\<lambda>p. p_id p = pid) f (db_pages s)\<rparr>"

definition update_version :: "int \<Rightarrow> (version \<Rightarrow> version) \<Rightarrow> db \<Rightarrow> db" where
  "update_version vid f s = s\<lparr>db_versions := update_where (\<lambda>v. v_id v = vid) f (db_versions s)\<rparr>"

text \<open>
  Another transaction commits between two statements of this one (READ COMMITTED): \<open>g\<close> is its
  effect.
\<close>

definition others_tx :: "(db \<Rightarrow> db) \<Rightarrow> unit tx" where
  "others_tx g = exec_tx g"

end
