(* ===== verification/Invariants.thy ===== *)
theory Invariants
  imports Database
begin

text \<open>
  How transactions are reasoned about.

  \<^item> \<open>tx_simps\<close> decomposes a successful transaction into its statements.
  \<^item> \<open>tx_contract\<close> is the interface of a relation between the databases before and after:
    reflexive and transitive, hence obeyed by a transaction as soon as each of its statements
    obeys it, and by \<open>WithTx\<close>, which either runs the whole transaction or nothing of it.
  \<^item> \<open>history\<close> is what is never lost: the content of a version, its place in the review
    lifecycle, every audit row, and the identity of a page.
  \<^item> \<open>wf_db\<close> is the invariant of the tables.
\<close>

subsection \<open>Decomposition\<close>

lemma ret_Inr [tx_simps]: "ret x s = Inr (y, s') \<longleftrightarrow> y = x \<and> s' = s"
  by (auto simp add: ret_def)

lemma ret_Inl [tx_simps]: "ret x s = Inl e \<longleftrightarrow> False"
  by (simp add: ret_def)

lemma fail_Inr [tx_simps]: "fail e s = Inr r \<longleftrightarrow> False"
  by (simp add: fail_def)

lemma fail_Inl [tx_simps]: "fail e s = Inl e' \<longleftrightarrow> e' = e"
  by (auto simp add: fail_def)

lemma bind_tx_Inr [tx_simps]:
  "bind_tx m k s = Inr r \<longleftrightarrow> (\<exists>x s1. m s = Inr (x, s1) \<and> k x s1 = Inr r)"
  by (auto simp add: bind_tx_def split: sum.splits)

lemma bind_tx_Inl:
  "bind_tx m k s = Inl e \<longleftrightarrow> m s = Inl e \<or> (\<exists>x s1. m s = Inr (x, s1) \<and> k x s1 = Inl e)"
  by (auto simp add: bind_tx_def split: sum.splits)

lemma then_tx_Inr [tx_simps]:
  "then_tx m k s = Inr r \<longleftrightarrow> (\<exists>s1. m s = Inr ((), s1) \<and> k s1 = Inr r)"
  by (auto simp add: then_tx_def bind_tx_Inr)

lemma then_tx_Inl:
  "then_tx m k s = Inl e \<longleftrightarrow> m s = Inl e \<or> (\<exists>s1. m s = Inr ((), s1) \<and> k s1 = Inl e)"
  by (auto simp add: then_tx_def bind_tx_Inl)

lemma lift_tx_Inr [tx_simps]: "lift_tx r s = Inr (x, s') \<longleftrightarrow> r = Inr x \<and> s' = s"
  by (auto simp add: lift_tx_def split: sum.splits)

lemma lift_tx_Inl [tx_simps]: "lift_tx r s = Inl e \<longleftrightarrow> r = Inl e"
  by (auto simp add: lift_tx_def split: sum.splits)

lemma read_tx_Inr [tx_simps]: "read_tx f s = Inr (x, s') \<longleftrightarrow> x = f s \<and> s' = s"
  by (auto simp add: read_tx_def)

lemma read_tx_Inl [tx_simps]: "read_tx f s = Inl e \<longleftrightarrow> False"
  by (simp add: read_tx_def)

lemma exec_tx_Inr [tx_simps]: "exec_tx f s = Inr (x, s') \<longleftrightarrow> s' = f s"
  by (auto simp add: exec_tx_def)

lemma exec_tx_Inl [tx_simps]: "exec_tx f s = Inl e \<longleftrightarrow> False"
  by (simp add: exec_tx_def)

lemma found_or_Inr [tx_simps]: "found_or e q s = Inr (x, s') \<longleftrightarrow> q s = Some x \<and> s' = s"
  by (auto simp add: found_or_def split: option.splits)

lemma found_or_Inl [tx_simps]: "found_or e q s = Inl e' \<longleftrightarrow> q s = None \<and> e' = e"
  by (auto simp add: found_or_def split: option.splits)

definition add_audit :: "audit_entry \<Rightarrow> db \<Rightarrow> db" where
  "add_audit e s = s\<lparr>db_audit := db_audit s @ [audit_row_of s e], db_next_audit := db_next_audit s + 1\<rparr>"

lemma audit_write_Inr [tx_simps]: "audit_write e s = Inr (x, s') \<longleftrightarrow> s' = add_audit e s"
  by (simp add: audit_write_def exec_tx_Inr add_audit_def)

lemma audit_write_Inl [tx_simps]: "audit_write e s = Inl e' \<longleftrightarrow> False"
  by (simp add: audit_write_def exec_tx_Inl)

lemma others_tx_Inr [tx_simps]: "others_tx g s = Inr (x, s') \<longleftrightarrow> s' = g s"
  by (simp add: others_tx_def exec_tx_Inr)

subsection \<open>Contracts\<close>

definition obeys :: "(db \<Rightarrow> db \<Rightarrow> bool) \<Rightarrow> 'a tx \<Rightarrow> bool" where
  "obeys R m \<longleftrightarrow> (\<forall>s x s'. m s = Inr (x, s') \<longrightarrow> R s s')"

lemma obeysI: "(\<And>s x s'. m s = Inr (x, s') \<Longrightarrow> R s s') \<Longrightarrow> obeys R m"
  by (simp add: obeys_def)

lemma obeysD: "obeys R m \<Longrightarrow> m s = Inr (x, s') \<Longrightarrow> R s s'"
  by (auto simp add: obeys_def)

locale tx_contract =
  fixes R :: "db \<Rightarrow> db \<Rightarrow> bool"
  assumes refl: "R s s"
    and trans: "R s1 s2 \<Longrightarrow> R s2 s3 \<Longrightarrow> R s1 s3"
    and clock: "R s (s\<lparr>db_now := t\<rparr>)"
begin

lemma ret: "obeys R (ret x)"
  by (auto intro!: obeysI simp add: tx_simps refl)

lemma fail: "obeys R (fail e)"
  by (auto intro!: obeysI simp add: tx_simps)

lemma lift: "obeys R (lift_tx r)"
  by (auto intro!: obeysI simp add: tx_simps refl)

lemma read: "obeys R (read_tx f)"
  by (auto intro!: obeysI simp add: tx_simps refl)

lemma found: "obeys R (found_or e q)"
  by (auto intro!: obeysI simp add: tx_simps refl)

lemma exec: "(\<And>s. R s (f s)) \<Longrightarrow> obeys R (exec_tx f)"
  by (auto intro!: obeysI simp add: tx_simps)

lemma bind: "obeys R m \<Longrightarrow> (\<And>x. obeys R (k x)) \<Longrightarrow> obeys R (bind_tx m k)"
  by (rule obeysI) (auto simp add: tx_simps dest!: obeysD intro: trans)

lemma andthen: "obeys R m \<Longrightarrow> obeys R k \<Longrightarrow> obeys R (then_tx m k)"
  by (simp add: then_tx_def bind)

lemma tx: "obeys R m \<Longrightarrow> R s (snd (with_tx r m s))"
proof -
  assume ob: "obeys R m"
  have "R s s'" if "m (s\<lparr>db_now := rq_now r\<rparr>) = Inr (x, s')" for x s'
    by (rule trans [OF clock obeysD [OF ob that]])
  then show ?thesis by (auto simp add: with_tx_def refl split: sum.splits)
qed

lemma branch: "obeys R m \<Longrightarrow> obeys R m' \<Longrightarrow> obeys R (if b then m else m')"
  by simp

lemmas rules = ret fail lift read found exec bind andthen branch

end

text \<open>Atomicity of \<open>WithTx\<close>, and what a successful one did.\<close>

lemma with_tx_fails: "fst (with_tx r m s) = Inl e \<Longrightarrow> snd (with_tx r m s) = s"
  by (auto simp add: with_tx_def split: sum.splits)

lemma with_tx_Inr:
  "with_tx r m s = (Inr x, s') \<longleftrightarrow>
     check_write_admission r = Inr () \<and> m (s\<lparr>db_now := rq_now r\<rparr>) = Inr (x, s')"
  by (auto simp add: with_tx_def split: sum.splits)

lemma with_tx_Inl:
  "with_tx r m s = (Inl e, s') \<longleftrightarrow>
     s' = s \<and> (check_write_admission r = Inl e \<or>
       check_write_admission r = Inr () \<and> m (s\<lparr>db_now := rq_now r\<rparr>) = Inl e)"
  by (auto simp add: with_tx_def split: sum.splits)

subsection \<open>What is never lost\<close>

instantiation version_status :: order
begin

definition less_eq_version_status :: "version_status \<Rightarrow> version_status \<Rightarrow> bool" where
  \<comment> \<open>the review lifecycle: draft and pending may be approved or rejected, and that is final\<close>
  "less_eq_version_status a b = (a = b \<or> a \<in> {Draft, Pending} \<and> b \<in> {Approved, Rejected})"

definition less_version_status :: "version_status \<Rightarrow> version_status \<Rightarrow> bool" where
  "less_version_status a b = (a \<le> b \<and> a \<noteq> (b :: version_status))"

instance
  by standard (auto simp add: less_eq_version_status_def less_version_status_def)

end

definition content_of :: "version \<Rightarrow> version" where
  \<comment> \<open>a version without its review state: what the immutability trigger protects\<close>
  "content_of v = v\<lparr>v_status := Draft, v_reviewed_by := None, v_reviewed_at := None, v_gaps := None\<rparr>"

definition page_key :: "page \<Rightarrow> int \<times> string \<times> int" where
  "page_key p = (p_id p, p_slug p, p_created p)"

definition history :: "db \<Rightarrow> db \<Rightarrow> bool" where
  "history s s' \<longleftrightarrow>
     (\<forall>v \<in> set (db_versions s). \<exists>v' \<in> set (db_versions s'). content_of v' = content_of v \<and> v_status v \<le> v_status v') \<and>
     prefix (db_audit s) (db_audit s') \<and>
     page_key ` set (db_pages s) \<subseteq> page_key ` set (db_pages s')"

lemma history_refl: "history s s"
  unfolding history_def by (blast intro: order_refl prefix_order.order_refl)

lemma history_trans: "history s1 s2 \<Longrightarrow> history s2 s3 \<Longrightarrow> history s1 s3"
proof -
  assume A: "history s1 s2" "history s2 s3"
  have "\<exists>v' \<in> set (db_versions s3). content_of v' = content_of v \<and> v_status v \<le> v_status v'"
    if "v \<in> set (db_versions s1)" for v
  proof -
    from A(1) that obtain v2 where v2: "v2 \<in> set (db_versions s2)" "content_of v2 = content_of v" "v_status v \<le> v_status v2"
      unfolding history_def by blast
    with A(2) obtain v3 where "v3 \<in> set (db_versions s3)" "content_of v3 = content_of v2" "v_status v2 \<le> v_status v3"
      unfolding history_def by blast
    with v2 show ?thesis by (intro bexI [of _ v3]) (auto intro: order_trans)
  qed
  moreover have "prefix (db_audit s1) (db_audit s3)"
    using A unfolding history_def by (blast intro: prefix_order.trans)
  moreover have "page_key ` set (db_pages s1) \<subseteq> page_key ` set (db_pages s3)"
    using A unfolding history_def by blast
  ultimately show ?thesis by (simp add: history_def)
qed

lemma history_same:
  "db_versions s' = db_versions s \<Longrightarrow> db_audit s' = db_audit s \<Longrightarrow> db_pages s' = db_pages s \<Longrightarrow> history s s'"
  using history_refl [of s] by (simp add: history_def)

interpretation hist: tx_contract history
  by unfold_locales (rule history_refl, erule history_trans, assumption, simp add: history_same)

lemma history_add_audit: "history s (add_audit e s)"
  using history_refl [of s] by (simp add: history_def add_audit_def)

lemma history_update_page:
  assumes "\<And>p. page_key (f p) = page_key p"
  shows "history s (update_page pid f s)"
  using history_refl [of s] image_update_where_id [of page_key f, OF assms]
  by (simp add: history_def update_page_def)

lemma history_update_version:
  assumes "\<And>v. v \<in> set (db_versions s) \<Longrightarrow> v_id v = vid \<Longrightarrow> content_of (f v) = content_of v \<and> v_status v \<le> v_status (f v)"
  shows "history s (update_version vid f s)"
proof -
  have "\<exists>v' \<in> set (update_where (\<lambda>v. v_id v = vid) f (db_versions s)). content_of v' = content_of v \<and> v_status v \<le> v_status v'"
    if "v \<in> set (db_versions s)" for v
    using that assms by (intro bexI [of _ "if v_id v = vid then f v else v"]) (auto simp add: set_update_where)
  with history_refl [of s] show ?thesis by (simp add: history_def update_version_def)
qed

subsection \<open>The invariant of the tables\<close>

definition ids_ok :: "db \<Rightarrow> bool" where
  "ids_ok s \<longleftrightarrow>
     distinct (map p_id (db_pages s)) \<and> distinct (map v_id (db_versions s)) \<and>
     distinct (map w_id (db_workspaces s)) \<and>
     (\<forall>p \<in> set (db_pages s). 0 < p_id p \<and> p_id p < db_next_page s) \<and>
     (\<forall>v \<in> set (db_versions s). 0 < v_id v \<and> v_id v < db_next_version s) \<and>
     (\<forall>w \<in> set (db_workspaces s). 0 < w_id w \<and> w_id w < db_next_workspace s) \<and>
     0 < db_next_page s \<and> 0 < db_next_version s \<and> 0 < db_next_workspace s"

definition live_unique :: "page list \<Rightarrow> bool" where
  \<comment> \<open>the partial unique index: one live page per slug\<close>
  "live_unique ps \<longleftrightarrow>
     (\<forall>p \<in> set ps. \<forall>q \<in> set ps.
        p_deleted p = None \<longrightarrow> p_deleted q = None \<longrightarrow> p_slug p = p_slug q \<longrightarrow> p_id p = p_id q)"

definition slugs_ok :: "db \<Rightarrow> bool" where
  "slugs_ok s \<longleftrightarrow> (\<forall>p \<in> set (db_pages s). matches slug_re (p_slug p)) \<and> live_unique (db_pages s)"

definition points_to :: "db \<Rightarrow> page \<Rightarrow> version \<Rightarrow> bool" where
  "points_to s p v \<longleftrightarrow> v \<in> set (db_versions s) \<and> v_id v = p_published p \<and> v_page v = p_id p"

definition pointers_ok :: "db \<Rightarrow> bool" where
  \<comment> \<open>the pointer references an approved version of its own page, and a deleted page has none\<close>
  "pointers_ok s \<longleftrightarrow>
     (\<forall>p \<in> set (db_pages s). p_published p \<noteq> 0 \<longrightarrow>
        p_deleted p = None \<and> (\<exists>v. points_to s p v \<and> v_status v = Approved))"

definition refs_ok :: "db \<Rightarrow> bool" where
  "refs_ok s \<longleftrightarrow>
     v_page ` set (db_versions s) \<subseteq> p_id ` set (db_pages s) \<and>
     (\<forall>p \<in> set (db_pages s). p_workspace p \<noteq> 0 \<longrightarrow> p_workspace p \<in> w_id ` set (db_workspaces s)) \<and>
     (\<forall>p \<in> set (db_pages s). p_theme p \<noteq> 0 \<longrightarrow> p_theme p \<in> th_id ` set (db_themes s))"

definition wf_db :: "db \<Rightarrow> bool" where
  "wf_db s \<longleftrightarrow> ids_ok s \<and> slugs_ok s \<and> pointers_ok s \<and> refs_ok s"

lemmas wf_parts = wf_db_def ids_ok_def slugs_ok_def pointers_ok_def refs_ok_def points_to_def

subsection \<open>Statements keep the invariant\<close>

lemma wf_clock [row_simps]: "wf_db (s\<lparr>db_now := t\<rparr>) \<longleftrightarrow> wf_db s"
  by (simp add: wf_parts)

lemma wf_add_audit [row_simps]: "wf_db (add_audit e s) \<longleftrightarrow> wf_db s"
  by (simp add: wf_parts add_audit_def)

text \<open>An update of the settings of a page: everything the invariant speaks of stays.\<close>

definition page_refs :: "page \<Rightarrow> int \<times> string \<times> int \<times> int option" where
  "page_refs p = (p_id p, p_slug p, p_published p, p_deleted p)"

lemma update_page_ids:
  assumes "\<And>p. p_id (f p) = p_id p" "ids_ok s"
  shows "ids_ok (update_page pid f s)"
  using assms by (auto simp add: ids_ok_def update_page_def map_update_where_id mem_update_where_iff)

lemma update_page_pids:
  assumes "\<And>p. p_id (f p) = p_id p"
  shows "p_id ` set (db_pages (update_page pid f s)) = p_id ` set (db_pages s)"
  using image_update_where_id [of p_id f, OF assms] by (simp add: update_page_def)

lemma update_page_mem:
  "q \<in> set (db_pages (update_page pid f s)) \<Longrightarrow> \<exists>p \<in> set (db_pages s). q = (if p_id p = pid then f p else p)"
  by (simp add: update_page_def mem_update_where_iff)

lemma update_page_other [simp]:
  "db_versions (update_page pid f s) = db_versions s"
  "db_workspaces (update_page pid f s) = db_workspaces s"
  "db_themes (update_page pid f s) = db_themes s"
  by (simp_all add: update_page_def)

lemma update_page_slugs:
  assumes "slugs_ok s" "\<And>p. p_id (f p) = p_id p" "\<And>p. p_slug (f p) = p_slug p"
    and "\<And>p. p \<in> set (db_pages s) \<Longrightarrow> p_id p = pid \<Longrightarrow> p_deleted (f p) = None \<Longrightarrow> p_deleted p = None"
  shows "slugs_ok (update_page pid f s)"
  unfolding slugs_ok_def
proof (intro conjI ballI)
  fix q assume "q \<in> set (db_pages (update_page pid f s))"
  then obtain p where "p \<in> set (db_pages s)" "q = (if p_id p = pid then f p else p)"
    using update_page_mem by blast
  with assms show "matches slug_re (p_slug q)" by (auto simp add: slugs_ok_def)
next
  show "live_unique (db_pages (update_page pid f s))"
    unfolding live_unique_def
  proof (intro ballI impI)
  fix q1 q2
  assume q: "q1 \<in> set (db_pages (update_page pid f s))" "q2 \<in> set (db_pages (update_page pid f s))"
    "p_deleted q1 = None" "p_deleted q2 = None" "p_slug q1 = p_slug q2"
  obtain p1 where p1: "p1 \<in> set (db_pages s)" "q1 = (if p_id p1 = pid then f p1 else p1)"
    using q(1) update_page_mem by blast
  obtain p2 where p2: "p2 \<in> set (db_pages s)" "q2 = (if p_id p2 = pid then f p2 else p2)"
    using q(2) update_page_mem by blast
  have "p_deleted p1 = None" "p_deleted p2 = None" "p_slug p1 = p_slug p2"
    using p1 p2 q(3-5) assms(3,4) by (auto split: if_splits)
  then have "p_id p1 = p_id p2" using assms(1) p1(1) p2(1) unfolding slugs_ok_def live_unique_def by blast
  then show "p_id q1 = p_id q2" using p1 p2 assms(2) by auto
  qed
qed

lemma update_page_refs:
  assumes "refs_ok s" "\<And>p. p_id (f p) = p_id p"
    and ws: "\<And>p. p_workspace (f p) = p_workspace p \<or> p_workspace (f p) = 0 \<or>
      p_workspace (f p) \<in> w_id ` set (db_workspaces s)"
    and th: "\<And>p. p_theme (f p) = p_theme p \<or> p_theme (f p) = 0 \<or> p_theme (f p) \<in> th_id ` set (db_themes s)"
  shows "refs_ok (update_page pid f s)"
  unfolding refs_ok_def
proof (intro conjI ballI impI)
  show "v_page ` set (db_versions (update_page pid f s)) \<subseteq> p_id ` set (db_pages (update_page pid f s))"
    using assms(1) update_page_pids [of f pid s, OF assms(2)] by (simp add: refs_ok_def)
next
  fix q assume q: "q \<in> set (db_pages (update_page pid f s))" "p_workspace q \<noteq> 0"
  then obtain p where "p \<in> set (db_pages s)" "q = (if p_id p = pid then f p else p)"
    using update_page_mem by blast
  with q(2) ws [of p] assms(1) show "p_workspace q \<in> w_id ` set (db_workspaces (update_page pid f s))"
    by (cases "p_id p = pid") (simp_all add: refs_ok_def, metis)
next
  fix q assume q: "q \<in> set (db_pages (update_page pid f s))" "p_theme q \<noteq> 0"
  then obtain p where "p \<in> set (db_pages s)" "q = (if p_id p = pid then f p else p)"
    using update_page_mem by blast
  with q(2) th [of p] assms(1) show "p_theme q \<in> th_id ` set (db_themes (update_page pid f s))"
    by (cases "p_id p = pid") (simp_all add: refs_ok_def, metis)
qed

lemma wf_update_settings:
  assumes wf: "wf_db s" and f: "\<And>p. page_refs (f p) = page_refs p"
    and ws: "\<And>p. p_workspace (f p) = p_workspace p \<or> p_workspace (f p) = 0 \<or>
      p_workspace (f p) \<in> w_id ` set (db_workspaces s)"
    and th: "\<And>p. p_theme (f p) = p_theme p \<or> p_theme (f p) = 0 \<or> p_theme (f p) \<in> th_id ` set (db_themes s)"
  shows "wf_db (update_page pid f s)"
proof -
  have f': "p_id (f p) = p_id p" "p_slug (f p) = p_slug p" "p_published (f p) = p_published p"
    "p_deleted (f p) = p_deleted p" for p
    using f [of p] by (simp_all add: page_refs_def)
  have "ids_ok (update_page pid f s)" "slugs_ok (update_page pid f s)" "refs_ok (update_page pid f s)"
    using wf f' ws th update_page_ids [of f s pid] update_page_slugs [of s f pid] update_page_refs [of s f pid]
    by (simp_all add: wf_db_def)
  moreover have "pointers_ok (update_page pid f s)"
    unfolding pointers_ok_def
  proof (intro ballI impI)
    fix q assume q: "q \<in> set (db_pages (update_page pid f s))" "p_published q \<noteq> 0"
    then obtain p where p: "p \<in> set (db_pages s)" "q = (if p_id p = pid then f p else p)"
      using update_page_mem by blast
    then have "page_refs q = page_refs p" using f by simp
    then have "points_to (update_page pid f s) q = points_to s p" "p_published q = p_published p" "p_deleted q = p_deleted p"
      by (auto simp add: page_refs_def points_to_def fun_eq_iff)
    with p(1) q(2) wf show "p_deleted q = None \<and> (\<exists>v. points_to (update_page pid f s) q v \<and> v_status v = Approved)"
      by (simp add: wf_db_def pointers_ok_def)
  qed
  ultimately show ?thesis by (simp add: wf_db_def)
qed

text \<open>Moving the pointer to an approved version of the page, or to nothing.\<close>

lemma wf_move_pointer:
  assumes wf: "wf_db s"
    and f: "\<And>p. p_id (f p) = p_id p \<and> p_slug (f p) = p_slug p \<and> p_workspace (f p) = p_workspace p \<and>
      p_theme (f p) = p_theme p"
    and live: "\<And>p. p \<in> set (db_pages s) \<Longrightarrow> p_id p = pid \<Longrightarrow>
      p_published (f p) = 0 \<and> (p_deleted (f p) = None \<longrightarrow> p_deleted p = None) \<or>
      p_deleted (f p) = None \<and> p_deleted p = None \<and>
        (\<exists>v \<in> set (db_versions s). v_id v = p_published (f p) \<and> v_page v = pid \<and> v_status v = Approved)"
  shows "wf_db (update_page pid f s)"
proof -
  have f': "p_id (f p) = p_id p" "p_slug (f p) = p_slug p" "p_workspace (f p) = p_workspace p" "p_theme (f p) = p_theme p"
    for p using f [of p] by simp_all
  have "ids_ok (update_page pid f s)" "slugs_ok (update_page pid f s)" "refs_ok (update_page pid f s)"
    using wf f' live update_page_ids [of f s pid] update_page_slugs [of s f pid] update_page_refs [of s f pid]
    by (auto simp add: wf_db_def)
  moreover have "pointers_ok (update_page pid f s)"
    unfolding pointers_ok_def
  proof (intro ballI impI)
    fix q assume q: "q \<in> set (db_pages (update_page pid f s))" "p_published q \<noteq> 0"
    then obtain p where p: "p \<in> set (db_pages s)" "q = (if p_id p = pid then f p else p)"
      using update_page_mem by blast
    show "p_deleted q = None \<and> (\<exists>v. points_to (update_page pid f s) q v \<and> v_status v = Approved)"
    proof (cases "p_id p = pid")
      case True
      with p q live [OF p(1)] f' [of p] show ?thesis by (auto simp add: points_to_def)
    next
      case False
      with p q wf show ?thesis by (simp add: wf_db_def pointers_ok_def points_to_def)
    qed
  qed
  ultimately show ?thesis by (simp add: wf_db_def)
qed

text \<open>A review decision on a version that is not approved yet, so no pointer references it.\<close>

lemma wf_update_version:
  assumes wf: "wf_db s"
    and f: "\<And>v. v_id (f v) = v_id v \<and> v_page (f v) = v_page v"
    and st: "\<And>v. v \<in> set (db_versions s) \<Longrightarrow> v_id v = vid \<Longrightarrow> v_status v = Approved \<Longrightarrow> v_status (f v) = Approved"
  shows "wf_db (update_version vid f s)"
proof -
  have f': "v_id (f v) = v_id v" "v_page (f v) = v_page v" for v using f [of v] by simp_all
  have ids: "map v_id (update_where (\<lambda>v. v_id v = vid) f (db_versions s)) = map v_id (db_versions s)"
    and idset: "v_id ` set (update_where (\<lambda>v. v_id v = vid) f (db_versions s)) = v_id ` set (db_versions s)"
    and pgs: "v_page ` set (update_where (\<lambda>v. v_id v = vid) f (db_versions s)) = v_page ` set (db_versions s)"
    using f' by (simp_all add: map_update_where_id image_update_where_id)
  have "\<forall>i \<in> v_id ` set (db_versions s). 0 < i \<and> i < db_next_version s"
    using wf by (simp add: wf_db_def ids_ok_def)
  then have "ids_ok (update_version vid f s)"
    unfolding idset [symmetric] using wf ids by (simp add: wf_db_def ids_ok_def update_version_def)
  moreover have "slugs_ok (update_version vid f s)"
    using wf by (simp add: wf_db_def slugs_ok_def update_version_def)
  moreover have "pointers_ok (update_version vid f s)"
    unfolding pointers_ok_def
  proof (intro ballI impI)
    fix p assume p: "p \<in> set (db_pages (update_version vid f s))" "p_published p \<noteq> 0"
    then have "p \<in> set (db_pages s)" by (simp add: update_version_def)
    with wf p(2) obtain v where v: "v \<in> set (db_versions s)" "v_id v = p_published p" "v_page v = p_id p"
      "v_status v = Approved" and d: "p_deleted p = None"
      by (auto simp add: wf_db_def pointers_ok_def points_to_def)
    let ?v = "if v_id v = vid then f v else v"
    from v f [of v] st [of v] have "points_to (update_version vid f s) p ?v" "v_status ?v = Approved"
      by (auto simp add: points_to_def update_version_def set_update_where)
    with d show "p_deleted p = None \<and> (\<exists>v. points_to (update_version vid f s) p v \<and> v_status v = Approved)"
      by blast
  qed
  moreover have "refs_ok (update_version vid f s)"
    using wf pgs by (simp add: wf_db_def refs_ok_def update_version_def)
  ultimately show ?thesis by (simp add: wf_db_def)
qed

end
