(* ===== verification/Locking.thy ===== *)
theory Locking
  imports Invariants
begin

text \<open>
  The locking and authority part of \<open>internal/versions/deploy.go\<close> and the row types of
  \<open>internal/versions/types.go\<close>: the page and version locks every mutation takes first, the
  optimistic-concurrency check, the authority of agents and of humans, and \<open>movePointer\<close>, the
  one statement that changes what is live. Transactions on one page are serialised by the row
  lock, so a transaction is a function on the database.
\<close>

record locked_page =
  lp_id :: int
  lp_slug :: string
  lp_title :: string
  lp_require_approval :: bool
  lp_disabled :: bool
  lp_published :: int

definition locked_page_of :: "page \<Rightarrow> locked_page" where
  "locked_page_of p =
     \<lparr>lp_id = p_id p, lp_slug = p_slug p, lp_title = p_title p, lp_require_approval = p_require_approval p,
      lp_disabled = p_disabled p, lp_published = p_published p\<rparr>"

text \<open>\<open>Version\<close>: a row without its html, as \<open>versionColumns\<close> selects it.\<close>

record summary =
  vs_id :: int
  vs_page :: int
  vs_sha :: string
  vs_status :: version_status
  vs_mode :: string
  vs_author :: string
  vs_source :: string
  vs_note :: "string option"
  vs_reviewed_by :: "string option"
  vs_reviewed_at :: "int option"
  vs_created :: int

definition version_columns :: "version \<Rightarrow> summary" where
  "version_columns v =
     \<lparr>vs_id = v_id v, vs_page = v_page v, vs_sha = v_sha v, vs_status = v_status v, vs_mode = v_mode v,
      vs_author = v_author v, vs_source = v_source v, vs_note = v_note v, vs_reviewed_by = v_reviewed_by v,
      vs_reviewed_at = v_reviewed_at v, vs_created = v_created v\<rparr>"

definition page_not_found :: "string \<Rightarrow> go_error" where
  "page_not_found slug = not_found (''page not found: '' @ slug) ''page_not_found'' VNil"

definition find_live :: "string \<Rightarrow> db \<Rightarrow> page option" where
  "find_live slug s = find (live_page slug) (db_pages s)"

definition lock_page :: "string \<Rightarrow> locked_page tx" where
  "lock_page slug =
     bind_tx (lift_tx (normalize_slug (VStr slug))) (\<lambda>s.
     bind_tx (found_or (page_not_found s) (find_live s)) (\<lambda>p.
     ret (locked_page_of p)))"

definition find_version :: "int \<Rightarrow> int \<Rightarrow> db \<Rightarrow> version option" where
  \<comment> \<open>\<open>WHERE id = $1 AND page_id = $2\<close>\<close>
  "find_version pid vid s = find (\<lambda>v. v_id v = vid \<and> v_page v = pid) (db_versions s)"

definition lock_version :: "int \<Rightarrow> int \<Rightarrow> summary tx" where
  "lock_version pid vid =
     bind_tx (found_or
       (not_found (''version '' @ js_string (VID vid) @ '' not found on this page'') ''version_not_found'' VNil)
       (find_version pid vid)) (\<lambda>v.
     ret (version_columns v))"

definition id_or_nil :: "int \<Rightarrow> goval" where
  "id_or_nil i = (if i = 0 then VNil else VStr (id_string i))"

definition assert_expected_version :: "locked_page \<Rightarrow> goval \<Rightarrow> go_error + unit" where
  "assert_expected_version lp expected =
     (if is_nullish expected \<or> same_db_id expected (lp_published lp) then Inr ()
      else
        let exp = js_string expected;
            cur = js_string (VID (lp_published lp)) in
        Inl (conflict
          (''published version changed (expected '' @ exp @ '', is '' @ cur @ '') '' @ em_dash @
           '' another write landed after you read version '' @ exp @ ''. '' @
           ''Reread the page, confirm version '' @ cur @
           '' is not already the change you intended, and only then retry once with expected_version '' @ cur @ ''.'')
          ''stale_version''
          (VObj [(''expected_version'', VStr exp),
                 (''published_version_id'', id_or_nil (lp_published lp)),
                 (''retry_with_expected_version'', id_or_nil (lp_published lp))])))"

definition disabled_takedown :: go_error where
  "disabled_takedown = forbidden
     (''this page has been disabled (taken down) by an admin '' @ em_dash @
      '' agents cannot publish, roll back, or delete it'') ''disabled_takedown'' VNil"

definition approval_required :: go_error where
  "approval_required = forbidden
     (''this page requires approval '' @ em_dash @
      '' agents may only deploy a pending version; a human must approve'') ''approval_required'' VNil"

definition assert_agent_may_move_pointer :: "locked_page \<Rightarrow> actor \<Rightarrow> go_error + unit" where
  "assert_agent_may_move_pointer lp a =
     (if ac_type a = audit_user then Inr ()
      else if lp_disabled lp then Inl disabled_takedown
      else if lp_require_approval lp then Inl approval_required
      else Inr ())"

definition assert_admin_action :: "actor \<Rightarrow> string \<Rightarrow> go_error + unit" where
  "assert_admin_action a message =
     (if ac_type a \<noteq> audit_user
      then Inl (forbidden (if message = [] then ''this action is admin-only'' else message) ''admin_only'' VNil)
      else Inr ())"

definition assert_workspace_organizer :: "actor \<Rightarrow> go_error + unit" where
  "assert_workspace_organizer a =
     (if ac_type a \<noteq> audit_user \<and> ac_type a \<noteq> audit_agent
      then Inl (forbidden ''workspace organization requires an authenticated user or agent'' ''organizer_only'' VNil)
      else Inr ())"

definition set_pointer :: "int \<Rightarrow> int \<Rightarrow> page \<Rightarrow> page" where
  \<comment> \<open>\<open>SET published_version_id = $1, updated_at = now()\<close>\<close>
  "set_pointer now vid p = p\<lparr>p_published := vid, p_updated := now\<rparr>"

definition pointer_meta :: "locked_page \<Rightarrow> int \<Rightarrow> string option \<Rightarrow> goval" where
  "pointer_meta lp vid note =
     VObj ([(''from'', id_or_nil (lp_published lp)), (''to'', VStr (id_string vid))] @
           (case note of None \<Rightarrow> [] | Some n \<Rightarrow> [(''note'', VStr n)]))"

definition move_pointer :: "locked_page \<Rightarrow> int \<Rightarrow> goval \<Rightarrow> actor \<Rightarrow> string \<Rightarrow> string option \<Rightarrow> unit tx" where
  "move_pointer lp vid expected a action note =
     then_tx (lift_tx (assert_expected_version lp expected))
     (then_tx (exec_tx (\<lambda>s. update_page (lp_id lp) (set_pointer (db_now s) vid) s))
      (audit_write (actor_entry a action (lp_id lp) vid (pointer_meta lp vid note))))"

definition set_status :: "int \<Rightarrow> version_status \<Rightarrow> db \<Rightarrow> db" where
  "set_status vid st s = update_version vid (\<lambda>v. v\<lparr>v_status := st\<rparr>) s"

definition set_review :: "int \<Rightarrow> version_status \<Rightarrow> string \<Rightarrow> db \<Rightarrow> db" where
  \<comment> \<open>\<open>SET status = ..., reviewed_by = $2, reviewed_at = now()\<close>\<close>
  "set_review vid st reviewer s =
     update_version vid (\<lambda>v. v\<lparr>v_status := st, v_reviewed_by := Some reviewer, v_reviewed_at := Some (db_now s)\<rparr>) s"

subsection \<open>What the locks give\<close>

text \<open>\<open>locked s slug p\<close>: \<open>p\<close> is the row \<open>LockPage\<close> finds for \<open>slug\<close>.\<close>

definition locked :: "db \<Rightarrow> string \<Rightarrow> page \<Rightarrow> bool" where
  "locked s slug p \<longleftrightarrow> normalize_slug (VStr slug) = Inr (p_slug p) \<and> find_live (p_slug p) s = Some p"

lemma find_live_Some: "find_live slug s = Some p \<Longrightarrow> p \<in> set (db_pages s) \<and> p_slug p = slug \<and> p_deleted p = None"
  by (auto simp add: find_live_def live_page_def dest!: find_Some_mem)

lemma lockedD: "locked s slug p \<Longrightarrow> p \<in> set (db_pages s) \<and> p_deleted p = None"
  by (auto simp add: locked_def dest: find_live_Some)

lemma lock_page_Inr [tx_simps]:
  "lock_page slug s = Inr (lp, s') \<longleftrightarrow> s' = s \<and> (\<exists>p. locked s slug p \<and> lp = locked_page_of p)"
proof -
  have "(\<exists>n p. normalize_slug (VStr slug) = Inr n \<and> find_live n s = Some p \<and> lp = locked_page_of p) \<longleftrightarrow>
      (\<exists>p. locked s slug p \<and> lp = locked_page_of p)"
    unfolding locked_def using find_live_Some by blast
  then show ?thesis by (auto simp add: lock_page_def tx_simps)
qed

lemma lock_version_Inr [tx_simps]:
  "lock_version pid vid s = Inr (v, s') \<longleftrightarrow>
     s' = s \<and> (\<exists>r. find_version pid vid s = Some r \<and> v = version_columns r)"
  by (auto simp add: lock_version_def tx_simps)

lemma find_version_Some:
  "find_version pid vid s = Some v \<Longrightarrow> v \<in> set (db_versions s) \<and> v_id v = vid \<and> v_page v = pid"
  by (auto simp add: find_version_def dest!: find_Some_mem)

lemma move_pointer_Inr [tx_simps]:
  "move_pointer lp vid expected a action note s = Inr (u, s') \<longleftrightarrow>
     assert_expected_version lp expected = Inr () \<and>
     s' = add_audit (actor_entry a action (lp_id lp) vid (pointer_meta lp vid note))
            (update_page (lp_id lp) (set_pointer (db_now s) vid) s)"
  by (auto simp add: move_pointer_def tx_simps)

lemma locked_clock [simp]: "locked (s\<lparr>db_now := t\<rparr>) slug p = locked s slug p"
  by (simp add: locked_def find_live_def)

lemma locked_unique: "locked s slug p \<Longrightarrow> locked s slug q \<Longrightarrow> q = p"
  by (auto simp add: locked_def)

lemma find_version_clock [simp]: "find_version pid vid (s\<lparr>db_now := t\<rparr>) = find_version pid vid s"
  by (simp add: find_version_def)

lemma locked_page_of_simps [simp]:
  "lp_id (locked_page_of p) = p_id p" "lp_slug (locked_page_of p) = p_slug p"
  "lp_title (locked_page_of p) = p_title p" "lp_require_approval (locked_page_of p) = p_require_approval p"
  "lp_disabled (locked_page_of p) = p_disabled p" "lp_published (locked_page_of p) = p_published p"
  by (simp_all add: locked_page_of_def)

lemma version_columns_simps [simp]:
  "vs_id (version_columns v) = v_id v" "vs_page (version_columns v) = v_page v"
  "vs_status (version_columns v) = v_status v" "vs_sha (version_columns v) = v_sha v"
  "vs_mode (version_columns v) = v_mode v"
  by (simp_all add: version_columns_def)

lemma agent_authority:
  "assert_agent_may_move_pointer lp a = Inr () \<longleftrightarrow>
     ac_type a = audit_user \<or> \<not> lp_disabled lp \<and> \<not> lp_require_approval lp"
  by (simp add: assert_agent_may_move_pointer_def)

lemma admin_authority: "assert_admin_action a m = Inr () \<longleftrightarrow> ac_type a = audit_user"
  by (simp add: assert_admin_action_def)

lemma expected_version_iff:
  "assert_expected_version lp e = Inr () \<longleftrightarrow> is_nullish e \<or> same_db_id e (lp_published lp)"
  by (auto simp add: assert_expected_version_def Let_def)

subsection \<open>The statements of the state machine keep invariant and history\<close>

lemma wf_page_unique: "wf_db s \<Longrightarrow> p \<in> set (db_pages s) \<Longrightarrow> q \<in> set (db_pages s) \<Longrightarrow> p_id p = p_id q \<Longrightarrow> p = q"
  by (rule distinct_key_unique [of p_id]) (auto simp add: wf_db_def ids_ok_def)

lemma wf_version_unique:
  "wf_db s \<Longrightarrow> v \<in> set (db_versions s) \<Longrightarrow> w \<in> set (db_versions s) \<Longrightarrow> v_id v = v_id w \<Longrightarrow> v = w"
  by (rule distinct_key_unique [of v_id]) (auto simp add: wf_db_def ids_ok_def)

lemma wf_set_pointer:
  assumes "wf_db s" "p \<in> set (db_pages s)" "p_deleted p = None"
    and "v \<in> set (db_versions s)" "v_page v = p_id p" "v_status v = Approved"
  shows "wf_db (update_page (p_id p) (set_pointer now (v_id v)) s)"
proof (rule wf_move_pointer [OF assms(1)])
  fix q assume "q \<in> set (db_pages s)" "p_id q = p_id p"
  then have "q = p" using assms(1,2) by (blast intro: wf_page_unique)
  with assms(3-6) show "p_published (set_pointer now (v_id v) q) = 0 \<and>
      (p_deleted (set_pointer now (v_id v) q) = None \<longrightarrow> p_deleted q = None) \<or>
      p_deleted (set_pointer now (v_id v) q) = None \<and> p_deleted q = None \<and>
      (\<exists>w \<in> set (db_versions s). v_id w = p_published (set_pointer now (v_id v) q) \<and> v_page w = p_id p \<and>
        v_status w = Approved)"
    by (auto simp add: set_pointer_def)
qed (simp add: set_pointer_def)

lemma history_set_pointer: "history s (update_page pid (set_pointer now vid) s)"
  by (rule history_update_page) (simp add: set_pointer_def page_key_def)

lemma set_status_mem:
  "v \<in> set (db_versions s) \<Longrightarrow> v\<lparr>v_status := st\<rparr> \<in> set (db_versions (set_status (v_id v) st s))"
  by (auto simp add: set_status_def update_version_def mem_update_where_iff)

lemma set_status_simps [simp]:
  "db_pages (set_status vid st s) = db_pages s" "db_now (set_status vid st s) = db_now s"
  "db_audit (set_status vid st s) = db_audit s"
  "db_pages (set_review vid st r s) = db_pages s" "db_now (set_review vid st r s) = db_now s"
  "db_audit (set_review vid st r s) = db_audit s"
  by (simp_all add: set_status_def set_review_def update_version_def)

lemma wf_set_status:
  assumes "wf_db s" "v \<in> set (db_versions s)" "st = Approved \<or> v_status v \<noteq> Approved"
  shows "wf_db (set_status (v_id v) st s)" "wf_db (set_review (v_id v) st reviewer s)"
proof -
  have st: "st = Approved" if "w \<in> set (db_versions s)" "v_id w = v_id v" "v_status w = Approved" for w
    using wf_version_unique [OF assms(1) that(1) assms(2) that(2)] assms(3) that(3) by auto
  show "wf_db (set_status (v_id v) st s)" "wf_db (set_review (v_id v) st reviewer s)"
    unfolding set_status_def set_review_def using st by (auto intro!: wf_update_version [OF assms(1)])
qed

lemma history_set_status:
  assumes "wf_db s" "v \<in> set (db_versions s)" "v_status v \<le> st"
  shows "history s (set_status (v_id v) st s)" "history s (set_review (v_id v) st reviewer s)"
proof -
  have st: "v_status w \<le> st" if "w \<in> set (db_versions s)" "v_id w = v_id v" for w
    using wf_version_unique [OF assms(1) that(1) assms(2) that(2)] assms(3) by simp
  show "history s (set_status (v_id v) st s)" "history s (set_review (v_id v) st reviewer s)"
    unfolding set_status_def set_review_def using st
    by (auto intro!: history_update_version simp add: content_of_def)
qed

end
