(* ===== verification/Deploy.thy ===== *)
theory Deploy
  imports Locking "HOL-Library.Product_Lexorder"
begin

text \<open>
  The deploy half of \<open>internal/versions/deploy.go\<close>: \<open>PrepareDeploy\<close> (validation outside any
  transaction), \<open>DeployLocked\<close> (the version state machine on a locked page), and the entry points
  \<open>Deploy\<close>, \<open>SaveDeck\<close> and \<open>CreateAndDeploy\<close>.

  What the code calls in packages this development does not model is a field of \<open>deploy_env\<close>:
  the html passes of \<open>render\<close> and \<open>pagedata\<close>, SHA-256, and Postgres' cast of a text to
  \<open>timestamptz\<close>.
\<close>

subsection \<open>Inputs\<close>

record managed =                          \<comment> \<open>\<open>pagedata.Managed\<close>, without the compiled validators\<close>
  m_html :: string
  m_schema :: goval
  m_envelope :: goval
  m_config :: goval
  m_config_schema :: goval
  m_data_sha :: string
  m_schema_sha :: string
  m_config_sha :: string
  m_config_schema_sha :: string
  m_template_sha :: string
  m_config_block :: bool                  \<comment> \<open>\<open>ConfigBlock != nil\<close>\<close>
  m_source_as_of :: string                \<comment> \<open>the stamps and the data of the envelope\<close>
  m_refreshed_at :: string
  m_data :: goval

record deploy_env =
  env_is_deck :: "string \<Rightarrow> bool"                          \<comment> \<open>\<open>render.IsBentoDeck\<close>\<close>
  env_ensure_schema :: "string \<Rightarrow> go_error + string \<times> bool" \<comment> \<open>\<open>pagedata.EnsureConfigSchema\<close>\<close>
  env_strip_nav :: "string \<Rightarrow> string"                       \<comment> \<open>\<open>render.StripInjectedNav\<close>\<close>
  env_strip_deck :: "string \<Rightarrow> string"                      \<comment> \<open>\<open>render.StripDeckHostAdaptation\<close>\<close>
  env_parse :: "string \<Rightarrow> go_error + managed"               \<comment> \<open>\<open>pagedata.ParseManagedHTML\<close>\<close>
  env_gaps :: "managed option \<Rightarrow> string"                     \<comment> \<open>\<open>coverageGapsJSON\<close> of the detected gaps\<close>
  env_sha256 :: "string \<Rightarrow> string"
  env_timestamp :: "string \<Rightarrow> int option"                    \<comment> \<open>\<open>$n::timestamptz\<close>\<close>

record data_metadata =
  dm_action :: string
  dm_data_sha :: string
  dm_schema_sha :: string
  dm_template_sha :: string
  dm_source_as_of :: string
  dm_refreshed_at :: string

record template_binding =
  tb_name :: string
  tb_version :: int
  tb_revision :: "int option"
  tb_config_sha :: string

definition carry_template_binding :: "int \<Rightarrow> string option \<Rightarrow> template_binding option" where
  "carry_template_binding template_version config_sha =
     (if template_version = 0 then None
      else Some \<lparr>tb_name = [], tb_version = template_version, tb_revision = None,
                 tb_config_sha = (case config_sha of None \<Rightarrow> [] | Some c \<Rightarrow> c)\<rparr>)"

record deploy_input =
  in_slug :: string
  in_html :: string
  in_mode :: goval
  in_note :: goval
  in_author :: goval
  in_source :: string
  in_publish :: goval
  in_expected :: goval
  in_data :: "data_metadata option"
  in_binding :: "template_binding option"

record prepared =
  pr_slug :: string
  pr_html :: string
  pr_schema_generated :: bool
  pr_mode :: string
  pr_note :: "string option"
  pr_author :: string
  pr_source :: string
  pr_publish :: bool
  pr_expected :: goval
  pr_sha :: string
  pr_dedupe_by_data :: bool
  pr_data :: "data_metadata option"
  pr_binding :: "template_binding option"
  pr_gaps :: string

subsection \<open>PrepareDeploy\<close>

abbreviation dq :: string where "dq \<equiv> [CHR 0x22]"

definition assert_managed_blocks_deployable :: "deploy_env \<Rightarrow> string \<Rightarrow> go_error + managed option" where
  "assert_managed_blocks_deployable env html =
     (case env_parse env html of
        Inr m \<Rightarrow> Inr (Some m)
      | Inl e \<Rightarrow>
          (case e of
             Other _ \<Rightarrow> Inl e
           | Api a \<Rightarrow>
               if err_code a = [] then Inl e
               else if err_code a = ''page_not_data_managed'' \<or> err_code a = ''page_not_template_managed''
                 then Inr None
               else Inl (conflict
                 (''refusing to publish: this document's Pages-managed blocks are not valid, so the page would render '' @
                  ''blank and every managed-data tool would fail on it. '' @ err_message a)
                 (err_code a) (err_details a))))"

definition bento_render_mode_error :: go_error where
  "bento_render_mode_error = bad_request
     (''this document is a Bento deck (it carries a <script type='' @ dq @ ''application/bento+json'' @ dq @
      ''> block), which Pages serves raw: '' @
      ''it is its own application with a complete design, so render_mode '' @ dq @ ''themed'' @ dq @
      '' would splice Flag's head tags ahead of '' @
      ''the deck's own CSP and draw a Page menu over its toolbar. Omit render_mode or pass '' @ dq @ ''raw'' @ dq @ ''.'')
     ''bad_render_mode'' VNil"

definition resolve_mode :: "bool \<Rightarrow> goval \<Rightarrow> go_error + string" where
  \<comment> \<open>the render mode of a document that is (\<open>deck\<close>) or is not a Bento deck\<close>
  "resolve_mode deck mode =
     res_bind
       (if is_nullish mode then Inr (if deck then ''raw'' else ''themed'')
        else if mode = VStr ''themed'' then Inr ''themed''
        else if mode = VStr ''raw'' then Inr ''raw''
        else Inl (bad_request (''bad render_mode: '' @ js_string mode) ''bad_render_mode'' VNil))
       (\<lambda>m. if deck \<and> m \<noteq> ''raw'' then Inl bento_render_mode_error else Inr m)"

definition resolve_source :: "string \<Rightarrow> go_error + string" where
  "resolve_source source0 =
     (let source = (if source0 = [] then ''api'' else source0) in
      if source \<noteq> ''api'' \<and> source \<noteq> ''mcp'' \<and> source \<noteq> ''admin''
      then Inl (bad_request (''bad source: '' @ source) ''bad_source'' VNil) else Inr source)"

definition managed_metadata :: "data_metadata option \<Rightarrow> managed \<Rightarrow> data_metadata" where
  \<comment> \<open>the hashes and stamps of the document itself; the action of the caller\<close>
  "managed_metadata given m =
     \<lparr>dm_action =
        (case given of
           None \<Rightarrow> ''deploy''
         | Some d \<Rightarrow> if dm_action d = [] then ''data_update'' else dm_action d),
      dm_data_sha = m_data_sha m, dm_schema_sha = m_schema_sha m, dm_template_sha = m_template_sha m,
      dm_source_as_of = m_source_as_of m, dm_refreshed_at = m_refreshed_at m\<rparr>"

definition version_author :: "goval \<Rightarrow> actor \<Rightarrow> string" where
  "version_author author a =
     (if js_truthy author then (case pg_text author of Some t \<Rightarrow> t | None \<Rightarrow> []) else ac_actor a)"

definition prepare_deploy :: "deploy_env \<Rightarrow> deploy_input \<Rightarrow> actor \<Rightarrow> go_error + prepared" where
  "prepare_deploy env inp a =
     res_bind (bool_arg (in_publish inp) False ''publish'') (\<lambda>publish.
     res_bind (require (in_html inp \<noteq> []) (bad_request ''html is required'' ''html_required'' VNil)) (\<lambda>_.
     res_bind (resolve_mode (env_is_deck env (in_html inp)) (in_mode inp)) (\<lambda>mode.
     res_bind (resolve_source (in_source inp)) (\<lambda>source.
     res_bind (normalize_note (in_note inp)) (\<lambda>note.
     res_bind (env_ensure_schema env (in_html inp)) (\<lambda>(normalized, generated).
     let html = env_strip_deck env (env_strip_nav env normalized) in
     res_bind (assert_managed_blocks_deployable env html) (\<lambda>managed.
     let dm = map_option (managed_metadata (in_data inp)) managed in
     res_bind (normalize_slug (VStr (in_slug inp))) (\<lambda>slug.
     Inr \<lparr>pr_slug = slug, pr_html = html, pr_schema_generated = generated, pr_mode = mode, pr_note = note,
          pr_author = version_author (in_author inp) a, pr_source = source, pr_publish = publish,
          pr_expected = in_expected inp, pr_sha = env_sha256 env html,
          pr_dedupe_by_data = (in_data inp \<noteq> None \<and> dm \<noteq> None), pr_data = dm,
          pr_binding = in_binding inp, pr_gaps = env_gaps env managed\<rparr>))))))))"

subsection \<open>DeployLocked\<close>

record deploy_result =
  dr_version :: summary
  dr_deduped :: bool
  dr_published :: bool
  dr_gated :: bool
  dr_live :: bool
  dr_schema_generated :: bool

definition binding_id :: "prepared \<Rightarrow> int" where
  "binding_id pr = (case pr_binding pr of None \<Rightarrow> 0 | Some tb \<Rightarrow> tb_version tb)"

definition dedupe_status :: "bool \<Rightarrow> version_status \<Rightarrow> bool" where
  \<comment> \<open>\<open>status <> 'rejected'\<close> and \<open>statusSkip\<close>\<close>
  "dedupe_status gated st = (st \<noteq> Rejected \<and> (if gated then st \<noteq> Draft else st \<noteq> Pending))"

definition dedupe_common :: "locked_page \<Rightarrow> prepared \<Rightarrow> int \<Rightarrow> version \<Rightarrow> bool" where
  "dedupe_common lp pr only v =
     (v_page v = lp_id lp \<and> v_mode v = pr_mode pr \<and> (only = 0 \<or> v_id v = only) \<and>
      v_binding v = binding_id pr \<and> dedupe_status (lp_require_approval lp) (v_status v))"

definition cast_error :: go_error where
  "cast_error = Other ''invalid input syntax for type timestamp with time zone''"

definition dedupe_query :: "deploy_env \<Rightarrow> locked_page \<Rightarrow> prepared \<Rightarrow> int \<Rightarrow> db \<Rightarrow> go_error + version option" where
  "dedupe_query env lp pr only s =
     (case (if pr_dedupe_by_data pr then pr_data pr else None) of
        Some dm \<Rightarrow>
          (case env_timestamp env (dm_source_as_of dm) of
             None \<Rightarrow> Inl cast_error
           | Some t \<Rightarrow>
               Inr (max_by v_id (filter (\<lambda>v. dedupe_common lp pr only v \<and> v_data_sha v = Some (dm_data_sha dm) \<and>
                      v_template_sha v = Some (dm_template_sha dm) \<and> v_source_as_of v = Some t) (db_versions s))))
      | None \<Rightarrow>
          Inr (max_by v_id (filter (\<lambda>v. dedupe_common lp pr only v \<and> v_sha v = pr_sha pr) (db_versions s))))"

text \<open>The CHECK constraints of \<open>page_versions\<close> and its foreign key to the template revisions.\<close>

definition hex64 :: "string \<Rightarrow> bool" where
  "hex64 x = (length x = 64 \<and> list_all (in_class [(CHR ''0'', CHR ''9''), (CHR ''a'', CHR ''f'')]) x)"

definition version_constraints :: "db \<Rightarrow> version \<Rightarrow> bool" where
  "version_constraints s v =
     ((case (v_data_sha v, v_template_sha v, v_source_as_of v, v_refreshed_at v) of
         (None, None, None, None) \<Rightarrow> True
       | (Some d, Some t, Some _, Some _) \<Rightarrow> hex64 d \<and> hex64 t
       | _ \<Rightarrow> False) \<and>
      (case v_config_sha v of
         None \<Rightarrow> v_binding v = 0
       | Some c \<Rightarrow> v_binding v \<noteq> 0 \<and> hex64 c \<and> v_binding v \<in> set (db_templates s)))"

definition casts :: "deploy_env \<Rightarrow> prepared \<Rightarrow> go_error + (int \<times> int) option" where
  \<comment> \<open>\<open>$11::timestamptz\<close> and \<open>$12::timestamptz\<close>\<close>
  "casts env pr =
     (case pr_data pr of
        None \<Rightarrow> Inr None
      | Some dm \<Rightarrow>
          (case (env_timestamp env (dm_source_as_of dm), env_timestamp env (dm_refreshed_at dm)) of
             (Some t, Some u) \<Rightarrow> Inr (Some (t, u))
           | _ \<Rightarrow> Inl cast_error))"

definition new_version :: "locked_page \<Rightarrow> prepared \<Rightarrow> (int \<times> int) option \<Rightarrow> db \<Rightarrow> version" where
  "new_version lp pr stamps s =
     \<lparr>v_id = db_next_version s, v_page = lp_id lp, v_html = pr_html pr, v_sha = pr_sha pr,
      v_status = (if lp_require_approval lp then Pending else Draft), v_mode = pr_mode pr,
      v_author = pr_author pr, v_source = pr_source pr, v_note = pr_note pr,
      v_reviewed_by = None, v_reviewed_at = None, v_created = db_now s,
      v_data_sha = map_option dm_data_sha (pr_data pr),
      v_template_sha = map_option dm_template_sha (pr_data pr),
      v_source_as_of = map_option fst stamps, v_refreshed_at = map_option snd stamps,
      v_binding = binding_id pr, v_config_sha = map_option tb_config_sha (pr_binding pr),
      v_gaps = (if pr_gaps pr \<noteq> [] then Some (pr_gaps pr) else None)\<rparr>"

definition add_version :: "version \<Rightarrow> db \<Rightarrow> db" where
  "add_version v s = s\<lparr>db_versions := db_versions s @ [v], db_next_version := db_next_version s + 1\<rparr>"

definition insert_version :: "deploy_env \<Rightarrow> locked_page \<Rightarrow> prepared \<Rightarrow> summary tx" where
  "insert_version env lp pr =
     bind_tx (lift_tx (casts env pr)) (\<lambda>stamps.
     bind_tx (read_tx (new_version lp pr stamps)) (\<lambda>v.
     bind_tx (read_tx (\<lambda>s. version_constraints s v)) (\<lambda>ok.
     then_tx (lift_tx (require ok (Other ''violates check constraint'')))
     (then_tx (exec_tx (add_version v))
      (ret (version_columns v))))))"

definition deploy_meta :: "locked_page \<Rightarrow> prepared \<Rightarrow> goval" where
  "deploy_meta lp pr =
     VObj
      ([(''status'', VStr (status_name (if lp_require_approval lp then Pending else Draft))),
        (''render_mode'', VStr (pr_mode pr)), (''deduped'', VBool False)] @
       (case pr_data pr of
          None \<Rightarrow> []
        | Some dm \<Rightarrow>
            [(''data_sha256'', VStr (dm_data_sha dm)), (''schema_sha256'', VStr (dm_schema_sha dm)),
             (''template_sha256'', VStr (dm_template_sha dm)), (''source_as_of'', VStr (dm_source_as_of dm)),
             (''refreshed_at'', VStr (dm_refreshed_at dm))]) @
       (case pr_binding pr of
          None \<Rightarrow> []
        | Some tb \<Rightarrow>
            (if tb_name tb \<noteq> [] then [(''template'', VStr (tb_name tb))] else []) @
            [(''template_version_id'', VStr (id_string (tb_version tb)))] @
            (case tb_revision tb of None \<Rightarrow> [] | Some r \<Rightarrow> [(''template_revision'', VInt r)]) @
            [(''config_sha256'', VStr (tb_config_sha tb))]))"

definition deploy_action :: "prepared \<Rightarrow> string" where
  "deploy_action pr =
     (case pr_data pr of
        None \<Rightarrow> ''deploy''
      | Some dm \<Rightarrow> if dm_action dm = [] then ''data_update'' else dm_action dm)"

definition find_or_insert :: "deploy_env \<Rightarrow> locked_page \<Rightarrow> prepared \<Rightarrow> actor \<Rightarrow> int \<Rightarrow> (summary \<times> bool) tx" where
  \<comment> \<open>the version the deploy lands on, and whether it was there before\<close>
  "find_or_insert env lp pr a only =
     bind_tx (read_tx (dedupe_query env lp pr only)) (\<lambda>q.
     bind_tx (lift_tx q) (\<lambda>hit.
     case hit of
       Some v \<Rightarrow> ret (version_columns v, True)
     | None \<Rightarrow>
         bind_tx (insert_version env lp pr) (\<lambda>vs.
         then_tx (audit_write (actor_entry a (deploy_action pr) (lp_id lp) (vs_id vs) (deploy_meta lp pr)))
         (ret (vs, False)))))"

definition rejected_terminal :: go_error where
  "rejected_terminal = conflict ''cannot publish a rejected version; deploy new content'' ''rejected_terminal'' VNil"

definition fast_publish :: "locked_page \<Rightarrow> prepared \<Rightarrow> actor \<Rightarrow> summary \<Rightarrow> (summary \<times> bool) tx" where
  \<comment> \<open>the fast path on open pages: the version as it is now, and whether the pointer moved\<close>
  "fast_publish lp pr a vs =
     (if pr_publish pr \<and> \<not> lp_require_approval lp then
        then_tx (lift_tx (assert_agent_may_move_pointer lp a))
        (then_tx (lift_tx (require (vs_status vs \<noteq> Rejected) rejected_terminal))
        (then_tx (exec_tx (\<lambda>s. if vs_status vs \<noteq> Approved then set_status (vs_id vs) Approved s else s))
        (let vs' = vs\<lparr>vs_status := Approved\<rparr> in
         if pr_data pr = None \<or> lp_published lp \<noteq> vs_id vs then
           then_tx (move_pointer lp (vs_id vs) (pr_expected pr) a ''publish'' None) (ret (vs', True))
         else ret (vs', False))))
      else ret (vs, False))"

definition deploy_locked :: "deploy_env \<Rightarrow> locked_page \<Rightarrow> prepared \<Rightarrow> actor \<Rightarrow> int \<Rightarrow> deploy_result tx" where
  "deploy_locked env lp pr a only =
     then_tx (lift_tx (assert_expected_version lp (pr_expected pr)))
     (bind_tx (find_or_insert env lp pr a only) (\<lambda>(vs, deduped).
      bind_tx (fast_publish lp pr a vs) (\<lambda>(vs', published).
      ret \<lparr>dr_version = vs', dr_deduped = deduped, dr_published = published,
           dr_gated = lp_require_approval lp,
           dr_live = (\<not> lp_disabled lp \<and>
             (published \<or> lp_published lp \<noteq> 0 \<and> lp_published lp = vs_id vs')),
           dr_schema_generated = False\<rparr>)))"

subsection \<open>Deploy and SaveDeck\<close>

definition from_prepared :: "(go_error + 'p) \<Rightarrow> ('p \<Rightarrow> db \<Rightarrow> (go_error + 'a) \<times> db) \<Rightarrow> db \<Rightarrow> (go_error + 'a) \<times> db" where
  \<comment> \<open>validation before the transaction: \<open>if err != nil { return nil, err }\<close>\<close>
  "from_prepared r k s = (case r of Inl e \<Rightarrow> (Inl e, s) | Inr p \<Rightarrow> k p s)"

definition deploy_tx :: "deploy_env \<Rightarrow> prepared \<Rightarrow> actor \<Rightarrow> deploy_result tx" where
  "deploy_tx env pr a =
     bind_tx (lock_page (pr_slug pr)) (\<lambda>lp.
     bind_tx (deploy_locked env lp pr a 0) (\<lambda>r.
     ret (r\<lparr>dr_schema_generated := pr_schema_generated pr\<rparr>)))"

definition deploy :: "deploy_env \<Rightarrow> request \<Rightarrow> deploy_input \<Rightarrow> actor \<Rightarrow> db \<Rightarrow> (go_error + deploy_result) \<times> db" where
  "deploy env rq inp a = from_prepared (prepare_deploy env inp a) (\<lambda>pr. with_tx rq (deploy_tx env pr a))"

record deck_input =
  dk_slug :: string
  dk_page :: int
  dk_base :: string
  dk_html :: string

definition base_version_re :: regex where
  "base_version_re = RSeq (RCls [(CHR ''1'', CHR ''9'')]) (RRep 18 (ROpt (RCls [(CHR ''0'', CHR ''9'')])))"

definition big_over :: "string \<Rightarrow> bool" where
  "big_over x = (\<not> (x \<noteq> [] \<and> list_all is_digit x) \<or> max_bigint < int (dec_value x))"

definition latest_version :: "int \<Rightarrow> db \<Rightarrow> version option" where
  \<comment> \<open>\<open>ORDER BY created_at DESC, id DESC LIMIT 1\<close>\<close>
  "latest_version pid s = max_by (\<lambda>v. (v_created v, v_id v)) (filter (\<lambda>v. v_page v = pid) (db_versions s))"

definition deck_unavailable :: "string \<Rightarrow> go_error" where
  "deck_unavailable msg = forbidden msg ''deck_session_unavailable'' VNil"

definition deck_input_deploy :: "deck_input \<Rightarrow> deploy_input" where
  "deck_input_deploy inp =
     \<lparr>in_slug = dk_slug inp, in_html = dk_html inp, in_mode = VStr ''raw'',
      in_note = VStr ''Saved from the Bento editor'', in_author = VNil, in_source = ''admin'',
      in_publish = VBool False, in_expected = VNil, in_data = None, in_binding = None\<rparr>"

definition save_deck_tx :: "deploy_env \<Rightarrow> deck_input \<Rightarrow> int \<Rightarrow> prepared \<Rightarrow> actor \<Rightarrow> deploy_result tx" where
  "save_deck_tx env inp base pr a =
     bind_tx (lock_page (pr_slug pr)) (\<lambda>lp.
     then_tx (lift_tx (require (lp_id lp = dk_page inp \<and> \<not> lp_disabled lp)
       (deck_unavailable ''this edit session is no longer available for this page'')))
     (bind_tx (found_or
         (deck_unavailable (''this page is no longer a deck '' @ em_dash @ '' reopen it from the admin''))
         (latest_version (lp_id lp))) (\<lambda>latest.
      then_tx (lift_tx (require (env_is_deck env (v_html latest) \<and> env_is_deck env (pr_html pr))
        (deck_unavailable (''this page is no longer a deck '' @ em_dash @ '' reopen it from the admin''))))
      (bind_tx (read_tx (find_version (lp_id lp) base)) (\<lambda>found.
       let unusable = (if lp_require_approval lp then Draft else Pending);
           same_snapshot = (v_sha latest = pr_sha pr \<and> v_mode latest = pr_mode pr \<and>
             v_status latest \<noteq> Rejected \<and> v_status latest \<noteq> unusable) in
       then_tx (lift_tx (require (found \<noteq> None \<and> (v_id latest = base \<or> same_snapshot))
         (conflict (''a newer deck version was saved '' @ em_dash @
            '' reopen the editor from the admin and reconcile your changes before saving again'')
            ''stale_deck_version''
            (VObj [(''base_version_id'', VStr (dk_base inp)), (''latest_version_id'', VStr (id_string (v_id latest)))]))))
       (deploy_locked env lp pr a (v_id latest)))))))"

definition save_deck :: "deploy_env \<Rightarrow> request \<Rightarrow> deck_input \<Rightarrow> actor \<Rightarrow> db \<Rightarrow> (go_error + deploy_result) \<times> db" where
  "save_deck env rq inp a =
     from_prepared
       (res_bind (require (ac_type a = audit_user)
          (forbidden ''a deck edit session requires a staff actor'' ''admin_only'' VNil)) (\<lambda>_.
        res_bind (require (matches base_version_re (dk_base inp) \<and> \<not> big_over (dk_base inp))
          (bad_request ''reopen the deck from the admin before saving: a valid X-Pages-Base-Version is required''
             ''deck_base_version_required'' VNil)) (\<lambda>_.
        res_bind (prepare_deploy env (deck_input_deploy inp) a) (\<lambda>pr.
        Inr (case parse_id (VStr (dk_base inp)) of Inl _ \<Rightarrow> 0 | Inr i \<Rightarrow> i, pr)))))
       (\<lambda>(base, pr). with_tx rq (save_deck_tx env inp base pr a))"

subsection \<open>Inserting a version\<close>

lemma wf_add_version:
  assumes "wf_db s" "v_id v = db_next_version s" "v_page v \<in> p_id ` set (db_pages s)"
  shows "wf_db (add_version v s)"
proof -
  have "ids_ok (add_version v s)"
    using assms(1,2) by (auto simp add: wf_db_def ids_ok_def add_version_def)
  moreover have "slugs_ok (add_version v s)"
    using assms(1) by (simp add: wf_db_def slugs_ok_def add_version_def)
  moreover have "pointers_ok (add_version v s)"
    using assms(1) unfolding wf_db_def pointers_ok_def points_to_def add_version_def by fastforce
  moreover have "refs_ok (add_version v s)"
    using assms(1,3) by (simp add: wf_db_def refs_ok_def add_version_def)
  ultimately show ?thesis by (simp add: wf_db_def)
qed

lemma history_add_version: "history s (add_version v s)"
  using history_refl [of s] by (auto simp add: history_def add_version_def)

lemma insert_version_Inr [tx_simps]:
  "insert_version env lp pr s = Inr (vs, s') \<longleftrightarrow>
     (\<exists>stamps. casts env pr = Inr stamps \<and> version_constraints s (new_version lp pr stamps s) \<and>
        vs = version_columns (new_version lp pr stamps s) \<and> s' = add_version (new_version lp pr stamps s) s)"
  by (auto simp add: insert_version_def tx_simps)

lemma new_version_simps [simp]:
  "v_id (new_version lp pr st s) = db_next_version s" "v_page (new_version lp pr st s) = lp_id lp"
  "v_status (new_version lp pr st s) = (if lp_require_approval lp then Pending else Draft)"
  "v_sha (new_version lp pr st s) = pr_sha pr" "v_mode (new_version lp pr st s) = pr_mode pr"
  "v_html (new_version lp pr st s) = pr_html pr" "v_binding (new_version lp pr st s) = binding_id pr"
  "v_data_sha (new_version lp pr st s) = map_option dm_data_sha (pr_data pr)"
  "v_template_sha (new_version lp pr st s) = map_option dm_template_sha (pr_data pr)"
  "v_source_as_of (new_version lp pr st s) = map_option fst st"
  by (simp_all add: new_version_def)

lemma add_version_simps [simp]:
  "db_versions (add_version v s) = db_versions s @ [v]" "db_pages (add_version v s) = db_pages s"
  "db_audit (add_version v s) = db_audit s" "db_now (add_version v s) = db_now s"
  by (simp_all add: add_version_def)

lemma add_audit_simps [simp]:
  "db_versions (add_audit e s) = db_versions s" "db_pages (add_audit e s) = db_pages s"
  "db_now (add_audit e s) = db_now s" "db_audit (add_audit e s) = db_audit s @ [audit_row_of s e]"
  "db_next_version (add_audit e s) = db_next_version s"
  "db_workspaces (add_audit e s) = db_workspaces s" "db_themes (add_audit e s) = db_themes s"
  "db_templates (add_audit e s) = db_templates s"
  by (simp_all add: add_audit_def)

subsection \<open>Where a deploy lands\<close>

text \<open>\<open>same_identity\<close>: the row carries the content the deploy was prepared from.\<close>

definition same_identity :: "deploy_env \<Rightarrow> prepared \<Rightarrow> version \<Rightarrow> bool" where
  "same_identity env pr v =
     (v_mode v = pr_mode pr \<and> v_binding v = binding_id pr \<and>
      (case (if pr_dedupe_by_data pr then pr_data pr else None) of
         Some dm \<Rightarrow> v_data_sha v = Some (dm_data_sha dm) \<and> v_template_sha v = Some (dm_template_sha dm) \<and>
           v_source_as_of v = env_timestamp env (dm_source_as_of dm) \<and> v_source_as_of v \<noteq> None
       | None \<Rightarrow> v_sha v = pr_sha pr))"

lemma dedupe_query_Inr:
  "dedupe_query env lp pr only s = Inr q \<Longrightarrow>
     q = max_by v_id (filter (\<lambda>v. v_page v = lp_id lp \<and> (only = 0 \<or> v_id v = only) \<and>
           dedupe_status (lp_require_approval lp) (v_status v) \<and> same_identity env pr v) (db_versions s))"
  unfolding dedupe_query_def same_identity_def dedupe_common_def
  by (auto split: option.splits if_splits intro!: arg_cong [where f = "max_by v_id"] filter_cong)

lemma new_version_identity:
  "casts env pr = Inr stamps \<Longrightarrow> same_identity env pr (new_version lp pr stamps s)"
  by (auto simp add: same_identity_def casts_def split: option.splits)

lemma same_identity_status [simp]:
  "same_identity env pr (v\<lparr>v_status := st\<rparr>) = same_identity env pr v"
  by (simp add: same_identity_def split: option.split)

lemma same_identity_eq:
  assumes "pr_sha pr2 = pr_sha pr" "pr_mode pr2 = pr_mode pr" "pr_binding pr2 = pr_binding pr"
    "pr_data pr2 = pr_data pr" "pr_dedupe_by_data pr2 = pr_dedupe_by_data pr"
  shows "same_identity env pr2 = same_identity env pr"
  unfolding same_identity_def binding_id_def assms ..

lemma dedupe_status_new: "dedupe_status g (if g then Pending else Draft)"
  by (simp add: dedupe_status_def)

text \<open>
  \<open>lands env p pr only s s1 v deduped\<close>: from \<open>s\<close>, \<open>find_or_insert\<close> lands on the row \<open>v\<close> of
  \<open>s1\<close>, an old one (\<open>deduped\<close>) or a new one.
\<close>

definition matching :: "deploy_env \<Rightarrow> page \<Rightarrow> prepared \<Rightarrow> int \<Rightarrow> version \<Rightarrow> bool" where
  \<comment> \<open>a row the deploy may dedupe onto\<close>
  "matching env p pr only v \<longleftrightarrow>
     v_page v = p_id p \<and> (only = 0 \<or> v_id v = only) \<and> dedupe_status (p_require_approval p) (v_status v) \<and>
     same_identity env pr v"

definition lands :: "deploy_env \<Rightarrow> page \<Rightarrow> prepared \<Rightarrow> int \<Rightarrow> db \<Rightarrow> db \<Rightarrow> version \<Rightarrow> bool \<Rightarrow> bool" where
  "lands env p pr only s s1 v deduped \<longleftrightarrow>
     v \<in> set (db_versions s1) \<and> v_page v = p_id p \<and> same_identity env pr v \<and>
     dedupe_status (p_require_approval p) (v_status v) \<and>
     db_pages s1 = db_pages s \<and> db_now s1 = db_now s \<and>
     (\<forall>w \<in> set (db_versions s). matching env p pr only w \<longrightarrow> deduped \<and> v_id w \<le> v_id v) \<and>
     (if deduped then s1 = s \<and> (only = 0 \<or> v_id v = only)
      else db_versions s1 = db_versions s @ [v] \<and> v_id v = db_next_version s \<and> v_html v = pr_html pr \<and>
        v_status v = (if p_require_approval p then Pending else Draft))"

lemma find_or_insert_lands:
  assumes "wf_db s" "p \<in> set (db_pages s)"
    and run: "find_or_insert env (locked_page_of p) pr a only s = Inr ((vs, deduped), s1)"
  shows "\<exists>v. lands env p pr only s s1 v deduped \<and> vs = version_columns v \<and> wf_db s1 \<and> history s s1"
proof -
  from run obtain hit where hit: "dedupe_query env (locked_page_of p) pr only s = Inr hit"
    and rest: "(case hit of
       Some v \<Rightarrow> ret (version_columns v, True)
     | None \<Rightarrow> bind_tx (insert_version env (locked_page_of p) pr) (\<lambda>vs.
         then_tx (audit_write (actor_entry a (deploy_action pr) (p_id p) (vs_id vs) (deploy_meta (locked_page_of p) pr)))
         (ret (vs, False)))) s = Inr ((vs, deduped), s1)"
    by (auto simp add: find_or_insert_def tx_simps)
  show ?thesis
  proof (cases hit)
    case (Some v)
    then have "v \<in> set (filter (\<lambda>v. v_page v = p_id p \<and> (only = 0 \<or> v_id v = only) \<and>
           dedupe_status (p_require_approval p) (v_status v) \<and> same_identity env pr v) (db_versions s))"
      using dedupe_query_Inr [OF hit] by (intro max_by_mem [of v_id]) simp
    moreover from Some rest have "vs = version_columns v" "deduped" "s1 = s"
      by (simp_all add: tx_simps)
    moreover have "\<forall>w \<in> set (db_versions s). matching env p pr only w \<longrightarrow> v_id w \<le> v_id v"
      using dedupe_query_Inr [OF hit] Some max_by_ge [of v_id _ v] by (auto simp add: matching_def)
    ultimately show ?thesis
      using assms(1) by (intro exI [of _ v]) (simp add: lands_def history_refl)
  next
    case None
    with rest obtain stamps where st: "casts env pr = Inr stamps"
      and v: "vs = version_columns (new_version (locked_page_of p) pr stamps s)"
      and d: "\<not> deduped"
      and s1: "s1 = add_audit (actor_entry a (deploy_action pr) (p_id p) (vs_id vs) (deploy_meta (locked_page_of p) pr))
        (add_version (new_version (locked_page_of p) pr stamps s) s)"
      by (auto simp add: tx_simps)
    let ?v = "new_version (locked_page_of p) pr stamps s"
    have wf1: "wf_db s1" unfolding s1 wf_add_audit
      by (rule wf_add_version [OF assms(1)]) (use assms(2) in auto)
    have h1: "history s s1" unfolding s1
      by (rule history_trans [OF history_add_version history_add_audit])
    have "\<forall>w \<in> set (db_versions s). \<not> matching env p pr only w"
      using dedupe_query_Inr [OF hit] unfolding None eq_commute [of None] max_by_None
      by (simp add: matching_def filter_empty_conv)
    then have "lands env p pr only s s1 ?v deduped"
      using d new_version_identity [OF st] dedupe_status_new [of "p_require_approval p"]
      by (simp add: lands_def s1)
    with wf1 h1 v show ?thesis by (intro exI [of _ ?v]) simp
  qed
qed

lemma lands_max:
  assumes "lands env p pr only s s1 v deduped" "w \<in> set (db_versions s1)" "matching env p pr only w"
  shows "v_id w \<le> v_id v"
  using assms by (cases deduped) (auto simp add: lands_def)

lemma lands_matching: "lands env p pr 0 s s1 v deduped \<Longrightarrow> matching env p pr 0 v"
  by (simp add: lands_def matching_def)

lemma deduped_keeps: "lands env p pr only s s1 v True \<Longrightarrow> s1 = s"
  by (simp add: lands_def)

subsection \<open>The fast path\<close>

lemma fast_publish_skip:
  "\<not> (pr_publish pr \<and> \<not> lp_require_approval lp) \<Longrightarrow>
     fast_publish lp pr a vs s = Inr ((vs', pub), s') \<longleftrightarrow> vs' = vs \<and> \<not> pub \<and> s' = s"
  by (auto simp add: fast_publish_def tx_simps)

lemma fast_publish_go:
  assumes "pr_publish pr" "\<not> lp_require_approval lp"
    and "fast_publish lp pr a vs s = Inr ((vs', pub), s')"
  shows "vs_status vs \<noteq> Rejected" "vs' = vs\<lparr>vs_status := Approved\<rparr>"
    "assert_agent_may_move_pointer lp a = Inr ()"
    "pub \<longleftrightarrow> pr_data pr = None \<or> lp_published lp \<noteq> vs_id vs"
    "s' = (let s1 = (if vs_status vs \<noteq> Approved then set_status (vs_id vs) Approved s else s) in
           if pub then add_audit (actor_entry a ''publish'' (lp_id lp) (vs_id vs) (pointer_meta lp (vs_id vs) None))
                         (update_page (lp_id lp) (set_pointer (db_now s1) (vs_id vs)) s1)
           else s1)"
  using assms by (auto simp add: fast_publish_def tx_simps Let_def split: if_splits)

subsection \<open>The state machine of a deploy\<close>

text \<open>
  \<open>published_from s1 p a pr v pub s'\<close>: what the fast path does to the row \<open>v\<close> the deploy landed on.
\<close>

definition approve_row :: "version \<Rightarrow> db \<Rightarrow> db" where
  "approve_row v s = (if v_status v \<noteq> Approved then set_status (v_id v) Approved s else s)"

definition published_from :: "db \<Rightarrow> page \<Rightarrow> actor \<Rightarrow> prepared \<Rightarrow> version \<Rightarrow> bool \<Rightarrow> db \<Rightarrow> bool" where
  "published_from s1 p a pr v pub s' \<longleftrightarrow>
     (pub \<longleftrightarrow> pr_data pr = None \<or> p_published p \<noteq> v_id v) \<and>
     v_status v \<in> {Draft, Approved} \<and>
     assert_agent_may_move_pointer (locked_page_of p) a = Inr () \<and>
     s' = (if pub then add_audit (actor_entry a ''publish'' (p_id p) (v_id v) (pointer_meta (locked_page_of p) (v_id v) None))
                         (update_page (p_id p) (set_pointer (db_now s1) (v_id v)) (approve_row v s1))
           else approve_row v s1)"

lemma approve_row_simps [simp]:
  "db_pages (approve_row v s) = db_pages s" "db_now (approve_row v s) = db_now s"
  "db_audit (approve_row v s) = db_audit s"
  by (simp_all add: approve_row_def)

lemma approve_row_ok:
  assumes "wf_db s" "v \<in> set (db_versions s)" "v_status v \<noteq> Rejected"
  shows "wf_db (approve_row v s)" "history s (approve_row v s)"
    "v\<lparr>v_status := Approved\<rparr> \<in> set (db_versions (approve_row v s))"
proof -
  have le: "v_status v \<le> Approved"
    using assms(3) by (cases "v_status v") (simp_all add: less_eq_version_status_def)
  show "wf_db (approve_row v s)" using assms wf_set_status(1) by (simp add: approve_row_def)
  show "history s (approve_row v s)"
    using history_set_status(1) [OF assms(1,2) le] history_refl by (simp add: approve_row_def)
  show "v\<lparr>v_status := Approved\<rparr> \<in> set (db_versions (approve_row v s))"
  proof (cases "v_status v = Approved")
    case True
    then have eq: "v\<lparr>v_status := Approved\<rparr> = v" by simp
    show ?thesis unfolding eq using True assms(2) by (simp add: approve_row_def)
  qed (simp add: approve_row_def set_status_mem assms(2))
qed

lemma published_from_ok:
  assumes "wf_db s1" "p \<in> set (db_pages s1)" "p_deleted p = None"
    and "v \<in> set (db_versions s1)" "v_page v = p_id p" "published_from s1 p a pr v pub s'"
  shows "wf_db s' \<and> history s1 s'"
proof -
  from assms(6) have "v_status v \<noteq> Rejected" by (auto simp add: published_from_def)
  note ap = approve_row_ok [OF assms(1,4) this]
  have ptr: "wf_db (update_page (p_id p) (set_pointer (db_now s1) (v_id v)) (approve_row v s1))"
    using wf_set_pointer [OF ap(1) _ assms(3) ap(3)] assms(2,5) by simp
  have h: "history s1 (update_page (p_id p) (set_pointer (db_now s1) (v_id v)) (approve_row v s1))"
    by (rule history_trans [OF ap(2) history_set_pointer])
  from assms(6) ptr ap(1) have "wf_db s'" by (auto simp add: published_from_def wf_add_audit)
  moreover from assms(6) h ap(2) have "history s1 s'"
    by (auto simp add: published_from_def intro: history_trans [OF _ history_add_audit])
  ultimately show ?thesis by simp
qed

lemma deploy_locked_cases:
  assumes "wf_db s" "p \<in> set (db_pages s)"
    and "deploy_locked env (locked_page_of p) pr a only s = Inr (r, s')"
  obtains v s1 where "assert_expected_version (locked_page_of p) (pr_expected pr) = Inr ()"
    "lands env p pr only s s1 v (dr_deduped r)" "wf_db s1" "history s s1"
    "dr_gated r = p_require_approval p"
    "dr_live r = (\<not> p_disabled p \<and> (dr_published r \<or> p_published p \<noteq> 0 \<and> p_published p = v_id v))"
    "if pr_publish pr \<and> \<not> p_require_approval p
     then published_from s1 p a pr v (dr_published r) s' \<and> dr_version r = version_columns (v\<lparr>v_status := Approved\<rparr>)
     else s' = s1 \<and> \<not> dr_published r \<and> dr_version r = version_columns v"
proof -
  from assms(3) obtain vs d s1 vs' pub where e: "assert_expected_version (locked_page_of p) (pr_expected pr) = Inr ()"
    and fi: "find_or_insert env (locked_page_of p) pr a only s = Inr ((vs, d), s1)"
    and fp: "fast_publish (locked_page_of p) pr a vs s1 = Inr ((vs', pub), s')"
    and r: "r = \<lparr>dr_version = vs', dr_deduped = d, dr_published = pub, dr_gated = p_require_approval p,
           dr_live = (\<not> p_disabled p \<and> (pub \<or> p_published p \<noteq> 0 \<and> p_published p = vs_id vs')),
           dr_schema_generated = False\<rparr>"
    by (auto simp add: deploy_locked_def tx_simps)
  from find_or_insert_lands [OF assms(1,2) fi] obtain v where v: "lands env p pr only s s1 v d"
    "vs = version_columns v" "wf_db s1" "history s s1" by blast
  show thesis
  proof (cases "pr_publish pr \<and> \<not> p_require_approval p")
    case False
    with fp have "vs' = vs" "\<not> pub" "s' = s1" by (simp_all add: fast_publish_skip)
    with False e r v show thesis by (intro that [of s1 v]) auto
  next
    case True
    from v(2) have vid: "vs_id vs = v_id v" "vs_status vs = v_status v" by simp_all
    from True fast_publish_go [OF _ _ fp]
    have g: "vs_status vs \<noteq> Rejected" "vs' = vs\<lparr>vs_status := Approved\<rparr>"
      "assert_agent_may_move_pointer (locked_page_of p) a = Inr ()"
      "pub \<longleftrightarrow> pr_data pr = None \<or> p_published p \<noteq> v_id v"
      "s' = (let s1' = approve_row v s1 in
           if pub then add_audit (actor_entry a ''publish'' (p_id p) (v_id v) (pointer_meta (locked_page_of p) (v_id v) None))
                         (update_page (p_id p) (set_pointer (db_now s1') (v_id v)) s1')
           else s1')"
      by (simp_all add: approve_row_def vid Let_def)
    have "v_status v \<in> {Draft, Approved}"
      using v(1) True by (cases "v_status v") (simp_all add: lands_def dedupe_status_def)
    with g have pf: "published_from s1 p a pr v pub s'" by (simp add: published_from_def Let_def)
    have "vs' = version_columns (v\<lparr>v_status := Approved\<rparr>)"
      using g(2) v(2) by (simp add: version_columns_def)
    with True e r v pf show thesis by (intro that [of s1 v]) auto
  qed
qed

text \<open>The rows a deploy leaves behind.\<close>

lemma deploy_leaves:
  assumes "wf_db s1" "lands env p pr 0 s s1 v d"
    and c: "if pr_publish pr \<and> \<not> p_require_approval p
     then published_from s1 p a pr v pub s' \<and> vr = version_columns (v\<lparr>v_status := Approved\<rparr>)
     else s' = s1 \<and> \<not> pub \<and> vr = version_columns v"
  shows "\<exists>v'. v' \<in> set (db_versions s') \<and> v_id v' = v_id v \<and> matching env p pr 0 v' \<and>
    (\<forall>w. w \<in> set (db_versions s') \<longrightarrow> v_id w \<noteq> v_id v \<longrightarrow> w \<in> set (db_versions s1)) \<and>
    (\<forall>q. q \<in> set (db_pages s') \<longrightarrow> p_id q = p_id p \<longrightarrow> (\<exists>q0 \<in> set (db_pages s). p_id q0 = p_id q \<and>
      p_require_approval q0 = p_require_approval q))"
proof (cases "pr_publish pr \<and> \<not> p_require_approval p")
  case False
  with c have "s' = s1" by auto
  with assms(2) show ?thesis by (auto simp add: lands_def matching_def)
next
  case True
  with c have pf: "published_from s1 p a pr v pub s'" by simp
  from assms(2) have v: "v \<in> set (db_versions s1)" "db_pages s1 = db_pages s" by (simp_all add: lands_def)
  from pf have vs: "db_versions s' = db_versions (approve_row v s1)" by (simp add: published_from_def)
  have nr: "v_status v \<noteq> Rejected" using pf by (auto simp add: published_from_def)
  let ?v = "v\<lparr>v_status := Approved\<rparr>"
  have "?v \<in> set (db_versions s')" unfolding vs by (rule approve_row_ok(3) [OF assms(1) v(1) nr])
  moreover have "matching env p pr 0 ?v"
    using lands_matching [OF assms(2)] True by (simp add: matching_def dedupe_status_def)
  moreover have "w \<in> set (db_versions s1)" if "w \<in> set (db_versions s')" "v_id w \<noteq> v_id v" for w
    using that unfolding vs
    by (auto simp add: approve_row_def set_status_def update_version_def mem_update_where_iff split: if_splits)
  moreover have "p_id q = p_id p \<longrightarrow> (\<exists>q0 \<in> set (db_pages s). p_id q0 = p_id q \<and> p_require_approval q0 = p_require_approval q)"
    if "q \<in> set (db_pages s')" for q
    using that pf v(2) by (force simp add: published_from_def update_page_def mem_update_where_iff set_pointer_def split: if_splits)
  ultimately show ?thesis by (intro exI [of _ ?v] conjI allI) (simp | blast)+
qed

lemma deploy_locked_ok:
  assumes "wf_db s" "p \<in> set (db_pages s)" "p_deleted p = None"
    and "deploy_locked env (locked_page_of p) pr a only s = Inr (r, s')"
  shows "wf_db s' \<and> history s s'"
proof (rule deploy_locked_cases [OF assms(1,2,4)])
  fix v s1
  assume l: "lands env p pr only s s1 v (dr_deduped r)" "wf_db s1" "history s s1"
    and c: "if pr_publish pr \<and> \<not> p_require_approval p
     then published_from s1 p a pr v (dr_published r) s' \<and> dr_version r = version_columns (v\<lparr>v_status := Approved\<rparr>)
     else s' = s1 \<and> \<not> dr_published r \<and> dr_version r = version_columns v"
  show ?thesis
  proof (cases "pr_publish pr \<and> \<not> p_require_approval p")
    case True
    with c have "published_from s1 p a pr v (dr_published r) s'" by simp
    moreover have "p \<in> set (db_pages s1)" "v \<in> set (db_versions s1)" "v_page v = p_id p"
      using l(1) assms(2) by (simp_all add: lands_def)
    ultimately have "wf_db s' \<and> history s1 s'"
      using published_from_ok [OF l(2) _ assms(3)] by blast
    with l(3) show ?thesis by (blast intro: history_trans)
  next
    case False
    with c l show ?thesis by simp
  qed
qed

subsection \<open>The entry point\<close>

lemma prepare_deploy_Inr:
  assumes "prepare_deploy env inp a = Inr pr"
  shows "normalize_slug (VStr (in_slug inp)) = Inr (pr_slug pr)" "pr_expected pr = in_expected inp"
    "pr_html pr \<noteq> [] \<longrightarrow> pr_sha pr = env_sha256 env (pr_html pr)"
    "in_data inp = None \<longrightarrow> \<not> pr_dedupe_by_data pr"
    "pr_mode pr \<in> {''themed'', ''raw''}" "env_is_deck env (in_html inp) \<longrightarrow> pr_mode pr = ''raw''"
    "pr_publish pr \<longleftrightarrow> in_publish inp = VBool True"
  using assms
  by (auto simp add: prepare_deploy_def resolve_mode_def bool_arg_def res_bind_Inr_iff Let_def
      split: prod.splits if_splits goval.splits)

lemma deploy_Inr:
  assumes "deploy env rq inp a s = (Inr r, s')"
  obtains pr p r0 where "prepare_deploy env inp a = Inr pr"
    "find_live (pr_slug pr) s = Some p" "p \<in> set (db_pages s)" "p_deleted p = None" "p_slug p = pr_slug pr"
    "deploy_locked env (locked_page_of p) pr a 0 (s\<lparr>db_now := rq_now rq\<rparr>) = Inr (r0, s')"
    "r = r0\<lparr>dr_schema_generated := pr_schema_generated pr\<rparr>"
proof -
  from assms obtain pr where pr: "prepare_deploy env inp a = Inr pr"
    and tx: "with_tx rq (deploy_tx env pr a) s = (Inr r, s')"
    by (auto simp add: deploy_def from_prepared_def split: sum.splits)
  from prepare_deploy_Inr(1) [OF pr] have n: "normalize_slug (VStr (pr_slug pr)) = Inr (pr_slug pr)"
    by (rule slug.idempotent)
  from tx obtain p r0 where p: "find_live (pr_slug pr) (s\<lparr>db_now := rq_now rq\<rparr>) = Some p"
    and run: "deploy_locked env (locked_page_of p) pr a 0 (s\<lparr>db_now := rq_now rq\<rparr>) = Inr (r0, s')"
    and r: "r = r0\<lparr>dr_schema_generated := pr_schema_generated pr\<rparr>"
    by (auto simp add: with_tx_Inr deploy_tx_def tx_simps locked_def n)
  from p have "find_live (pr_slug pr) s = Some p" by (simp add: find_live_def)
  with find_live_Some [OF this] pr run r show thesis by (intro that [of pr p r0]) auto
qed

subsection \<open>A small database for the witnesses\<close>

definition ex_page :: page where
  "ex_page =
     \<lparr>p_id = 1, p_slug = ''acme'', p_title = ''Acme'', p_client = None, p_workspace = 0, p_theme = 0,
      p_password_hash = None, p_password_sealed = None, p_require_approval = False, p_disabled = False,
      p_published = 5, p_created = 0, p_updated = 0, p_deleted = None, p_check_at = None,
      p_check_outcome = None, p_check_detail = None, p_check_source = None, p_schedule = None, p_owner = None\<rparr>"

definition ex_version :: version where
  "ex_version =
     \<lparr>v_id = 5, v_page = 1, v_html = ''old'', v_sha = ''old'', v_status = Approved, v_mode = ''themed'',
      v_author = ''ann'', v_source = ''api'', v_note = None, v_reviewed_by = None, v_reviewed_at = None,
      v_created = 0, v_data_sha = None, v_template_sha = None, v_source_as_of = None, v_refreshed_at = None,
      v_binding = 0, v_config_sha = None, v_gaps = None\<rparr>"

definition ex_db :: "page \<Rightarrow> version list \<Rightarrow> db" where
  "ex_db p vs =
     \<lparr>db_pages = [p], db_versions = vs, db_workspaces = [], db_themes = [], db_templates = [], db_audit = [],
      db_portals = [], db_members = [], db_page_failures = [], db_portal_failures = [],
      db_next_page = 2, db_next_version = 8, db_next_workspace = 1, db_next_audit = 1, db_next_portal = 1, db_now = 0\<rparr>"

definition ex_request :: request where
  "ex_request = \<lparr>rq_drain = [], rq_bypass = False, rq_now = 100\<rparr>"

definition ex_user :: actor where
  "ex_user = \<lparr>ac_actor = ''ann'', ac_type = ''user'', ac_token = 0, ac_ip = []\<rparr>"

definition ex_agent :: actor where
  "ex_agent = \<lparr>ac_actor = ''bot'', ac_type = ''agent'', ac_token = 3, ac_ip = []\<rparr>"

definition ex_env :: deploy_env where
  \<comment> \<open>documents without managed blocks, each its own hash\<close>
  "ex_env =
     \<lparr>env_is_deck = (\<lambda>h. False), env_ensure_schema = (\<lambda>h. Inr (h, False)), env_strip_nav = (\<lambda>h. h),
      env_strip_deck = (\<lambda>h. h),
      env_parse = (\<lambda>h. Inl (conflict ''not managed'' ''page_not_data_managed'' VNil)),
      env_gaps = (\<lambda>m. []), env_sha256 = (\<lambda>h. h), env_timestamp = (\<lambda>t. Some 0)\<rparr>"

definition ex_input :: "string \<Rightarrow> goval \<Rightarrow> goval \<Rightarrow> deploy_input" where
  "ex_input html publish expected =
     \<lparr>in_slug = ''acme'', in_html = html, in_mode = VNil, in_note = VNil, in_author = VNil, in_source = [],
      in_publish = publish, in_expected = expected, in_data = None, in_binding = None\<rparr>"

definition ex_prepared :: prepared where
  "ex_prepared =
     \<lparr>pr_slug = ''acme'', pr_html = ''new'', pr_schema_generated = False, pr_mode = ''themed'', pr_note = None,
      pr_author = ''ann'', pr_source = ''api'', pr_publish = True, pr_expected = VNil, pr_sha = ''new'',
      pr_dedupe_by_data = False, pr_data = None, pr_binding = None, pr_gaps = []\<rparr>"

lemma ex_slug: "matches slug_re ''acme''"
  by code_simp

lemma ex_slug_norm [simp]: "normalize_slug (VStr ''acme'') = Inr ''acme''"
  by (rule normalize_slug_fixed) (rule ex_slug)

lemmas ex_defs = ex_page_def ex_version_def ex_db_def ex_request_def ex_user_def ex_agent_def ex_env_def ex_input_def

lemma wf_ex_db:
  assumes "p_id p = 1" "p_slug p = ''acme''" "p_workspace p = 0" "p_theme p = 0"
    and "p_published p = 0 \<or> p_deleted p = None \<and> (\<exists>v \<in> set vs. v_id v = p_published p \<and> v_status v = Approved)"
    and "distinct (map v_id vs)" "\<And>v. v \<in> set vs \<Longrightarrow> 0 < v_id v \<and> v_id v < 8 \<and> v_page v = 1"
  shows "wf_db (ex_db p vs)"
  using assms ex_slug
  by (auto simp add: wf_parts ex_db_def live_unique_def)

lemma ex_locked: "p_slug p = ''acme'' \<Longrightarrow> p_deleted p = None \<Longrightarrow> locked (ex_db p vs) ''acme'' q \<longleftrightarrow> q = p"
  by (auto simp add: locked_def find_live_def live_page_def ex_db_def)

lemma ex_db_simps [simp]: "db_pages (ex_db p vs) = [p]" "db_versions (ex_db p vs) = vs"
  by (simp_all add: ex_db_def)

lemmas run_simps = with_tx_def deploy_tx_def lock_page_def find_live_def live_page_def deploy_locked_def
  find_or_insert_def insert_version_def fast_publish_def move_pointer_def dedupe_query_def dedupe_common_def
  dedupe_status_def casts_def new_version_def version_constraints_def check_write_admission_def
  bind_tx_def then_tx_def ret_def fail_def lift_tx_def read_tx_def exec_tx_def found_or_def audit_write_def
  assert_expected_version_def assert_agent_may_move_pointer_def audit_user_def locked_page_of_def
  version_columns_def binding_id_def is_nullish_def same_db_id_def id_string_def deploy_action_def

lemmas prepare_simps = prepare_deploy_def bool_arg_def resolve_mode_def resolve_source_def normalize_note_def
  is_nullish_def assert_managed_blocks_deployable_def conflict_def new_error_def version_author_def js_truthy_def

subsection \<open>Properties\<close>

text \<open>
  C6: \<open>DeployResult.Live\<close> is the truthful serving state. After a deploy, \<open>live\<close> is true exactly
  when the live page of the slug is not disabled and its pointer references the version the
  result carries, whether the deploy inserted it or deduped onto an older row.
\<close>

theorem deploy_live_truthful:
  assumes "wf_db s" "deploy env rq inp a s = (Inr r, s')"
  shows "dr_live r \<longleftrightarrow>
    (\<exists>q \<in> set (db_pages s'). normalize_slug (VStr (in_slug inp)) = Inr (p_slug q) \<and> p_deleted q = None \<and>
       \<not> p_disabled q \<and> p_published q = vs_id (dr_version r))"
proof (rule deploy_Inr [OF assms(2)])
  fix pr p r0
  assume pr: "prepare_deploy env inp a = Inr pr" and p: "p \<in> set (db_pages s)" "p_deleted p = None" "p_slug p = pr_slug pr"
    and run: "deploy_locked env (locked_page_of p) pr a 0 (s\<lparr>db_now := rq_now rq\<rparr>) = Inr (r0, s')"
    and r: "r = r0\<lparr>dr_schema_generated := pr_schema_generated pr\<rparr>"
  let ?s = "s\<lparr>db_now := rq_now rq\<rparr>"
  have wf: "wf_db ?s" and p': "p \<in> set (db_pages ?s)" using assms(1) p by (simp_all add: wf_clock)
  from deploy_locked_ok [OF wf p' p(2) run] have wf': "wf_db s'" by simp
  have uniq: "q = q'" if "q \<in> set (db_pages s')" "q' \<in> set (db_pages s')" "p_slug q = p_slug q'"
    "p_deleted q = None" "p_deleted q' = None" for q q'
  proof (rule wf_page_unique [OF wf' that(1,2)])
    from wf' that show "p_id q = p_id q'" unfolding wf_db_def slugs_ok_def live_unique_def by blast
  qed
  obtain v s1 where l: "lands env p pr 0 ?s s1 v (dr_deduped r0)" and wf1: "wf_db s1"
    and live: "dr_live r0 = (\<not> p_disabled p \<and> (dr_published r0 \<or> p_published p \<noteq> 0 \<and> p_published p = v_id v))"
    and c: "if pr_publish pr \<and> \<not> p_require_approval p
     then published_from s1 p a pr v (dr_published r0) s' \<and> dr_version r0 = version_columns (v\<lparr>v_status := Approved\<rparr>)
     else s' = s1 \<and> \<not> dr_published r0 \<and> dr_version r0 = version_columns v"
    by (rule deploy_locked_cases [OF wf p' run])
  have vid: "vs_id (dr_version r) = v_id v" using c r by (simp split: if_splits)
  let ?q = "if dr_published r0 then set_pointer (db_now ?s) (v_id v) p else p"
  have q: "?q \<in> set (db_pages s')"
    using c l p' by (auto simp add: lands_def published_from_def update_page_def mem_update_where_iff split: if_splits)
  have slug: "normalize_slug (VStr (in_slug inp)) = Inr (p_slug ?q)"
    using prepare_deploy_Inr(1) [OF pr] p(3) by (simp add: set_pointer_def)
  have "0 < v_id v"
    using wf1 l by (simp add: lands_def wf_db_def ids_ok_def)
  then have "dr_live r \<longleftrightarrow> \<not> p_disabled ?q \<and> p_published ?q = v_id v"
    using live r by (auto simp add: set_pointer_def)
  also have "\<dots> \<longleftrightarrow> (\<exists>q \<in> set (db_pages s'). normalize_slug (VStr (in_slug inp)) = Inr (p_slug q) \<and>
      p_deleted q = None \<and> \<not> p_disabled q \<and> p_published q = v_id v)"
  proof
    assume "\<not> p_disabled ?q \<and> p_published ?q = v_id v"
    moreover have "p_deleted ?q = None" using p(2) by (simp add: set_pointer_def)
    ultimately show "\<exists>q \<in> set (db_pages s'). normalize_slug (VStr (in_slug inp)) = Inr (p_slug q) \<and>
      p_deleted q = None \<and> \<not> p_disabled q \<and> p_published q = v_id v"
      using q slug by blast
  next
    assume "\<exists>q \<in> set (db_pages s'). normalize_slug (VStr (in_slug inp)) = Inr (p_slug q) \<and>
      p_deleted q = None \<and> \<not> p_disabled q \<and> p_published q = v_id v"
    then obtain q' where q': "q' \<in> set (db_pages s')" "p_slug q' = p_slug ?q" "p_deleted q' = None"
      "\<not> p_disabled q'" "p_published q' = v_id v"
      using slug by auto
    moreover have "p_deleted ?q = None" using p(2) by (simp add: set_pointer_def)
    ultimately have "q' = ?q" using uniq q by blast
    with q' show "\<not> p_disabled ?q \<and> p_published ?q = v_id v" by simp
  qed
  finally show ?thesis by (simp add: vid)
qed

theorem deploy_live_truthful_witness:
  "\<exists>r s'. deploy ex_env ex_request (ex_input ''new'' (VBool True) VNil) ex_user (ex_db ex_page [ex_version]) = (Inr r, s') \<and>
     dr_live r \<and> (\<exists>q \<in> set (db_pages s'). p_published q = 8)"
proof -
  let ?s = "ex_db ex_page [ex_version]"
  have "wf_db ?s" by (rule wf_ex_db) (simp_all add: ex_page_def ex_version_def)
  moreover obtain r s' where run: "deploy ex_env ex_request (ex_input ''new'' (VBool True) VNil) ex_user ?s = (Inr r, s')"
    and r: "dr_live r" "vs_id (dr_version r) = 8"
    by (simp add: deploy_def from_prepared_def prepare_simps ex_defs run_simps)
  ultimately have "\<exists>q \<in> set (db_pages s'). p_published q = 8"
    using deploy_live_truthful [of ?s ex_env ex_request "ex_input ''new'' (VBool True) VNil" ex_user r s'] by auto
  with run r show ?thesis by blast
qed

text \<open>
  C7: on a page that requires approval a deploy only ever stages. Whoever deploys and whatever
  \<open>publish\<close> says, no page row changes, nothing is published, and the version the deploy lands on
  waits for a human (pending) or was approved by one before; a new row is pending.
\<close>

theorem deploy_gated_stages:
  assumes "wf_db s" "deploy env rq inp a s = (Inr r, s')"
    and "normalize_slug (VStr (in_slug inp)) = Inr n" "find_live n s = Some p" "p_require_approval p"
  shows "db_pages s' = db_pages s \<and> dr_gated r \<and> \<not> dr_published r \<and>
    (\<exists>v \<in> set (db_versions s'). dr_version r = version_columns v \<and> v_status v \<in> {Pending, Approved} \<and>
       (dr_deduped r \<longrightarrow> v \<in> set (db_versions s)) \<and> (\<not> dr_deduped r \<longrightarrow> v_status v = Pending))"
proof (rule deploy_Inr [OF assms(2)])
  fix pr q r0
  assume pr: "prepare_deploy env inp a = Inr pr" "find_live (pr_slug pr) s = Some q" and q: "q \<in> set (db_pages s)"
    and run: "deploy_locked env (locked_page_of q) pr a 0 (s\<lparr>db_now := rq_now rq\<rparr>) = Inr (r0, s')"
    and r: "r = r0\<lparr>dr_schema_generated := pr_schema_generated pr\<rparr>"
  let ?s = "s\<lparr>db_now := rq_now rq\<rparr>"
  have qp: "q = p" using pr assms(3,4) prepare_deploy_Inr(1) [OF pr(1)] by simp
  have wf: "wf_db ?s" and q': "q \<in> set (db_pages ?s)" using assms(1) q by (simp_all add: wf_clock)
  obtain v s1 where l: "lands env q pr 0 ?s s1 v (dr_deduped r0)" and g: "dr_gated r0 = p_require_approval q"
    and c: "if pr_publish pr \<and> \<not> p_require_approval q
     then published_from s1 q a pr v (dr_published r0) s' \<and> dr_version r0 = version_columns (v\<lparr>v_status := Approved\<rparr>)
     else s' = s1 \<and> \<not> dr_published r0 \<and> dr_version r0 = version_columns v"
    by (rule deploy_locked_cases [OF wf q' run])
  have c': "s' = s1" "\<not> dr_published r0" "dr_version r0 = version_columns v" using c assms(5) qp by simp_all
  have "v_status v \<in> {Pending, Approved}"
    using l assms(5) qp by (cases "v_status v") (simp_all add: lands_def dedupe_status_def)
  then show ?thesis using l c' g r assms(5) qp by (auto simp add: lands_def split: if_splits)
qed

theorem deploy_gated_stages_witness:
  "\<exists>r s'. deploy ex_env ex_request (ex_input ''new'' (VBool True) VNil) ex_agent
       (ex_db (ex_page\<lparr>p_require_approval := True\<rparr>) [ex_version]) = (Inr r, s') \<and>
     db_pages s' = [ex_page\<lparr>p_require_approval := True\<rparr>] \<and> \<not> dr_published r"
proof -
  let ?p = "ex_page\<lparr>p_require_approval := True\<rparr>"
  let ?s = "ex_db ?p [ex_version]"
  have wf: "wf_db ?s" by (rule wf_ex_db) (simp_all add: ex_page_def ex_version_def)
  obtain r s' where run: "deploy ex_env ex_request (ex_input ''new'' (VBool True) VNil) ex_agent ?s = (Inr r, s')"
    by (simp add: deploy_def from_prepared_def prepare_simps ex_defs run_simps)
  have "find_live ''acme'' ?s = Some ?p" by (simp add: ex_defs find_live_def live_page_def)
  with deploy_gated_stages [OF wf run, of "''acme''" ?p]
  have "db_pages s' = db_pages ?s" "\<not> dr_published r" by (simp_all add: ex_input_def ex_page_def)
  with run show ?thesis by (auto simp add: ex_db_def)
qed

text \<open>
  C8: optimistic concurrency holds on every deploy, staged and gated ones included. If the caller
  names an expected version and the pointer of the page references another one (or none), the
  deploy answers 409 \<open>stale_version\<close> and the database is untouched; the error carries the version
  to retry with.
\<close>

theorem deploy_stale_refused:
  assumes "prepare_deploy env inp a = Inr pr" "check_write_admission rq = Inr ()"
    and "find_live (pr_slug pr) s = Some p"
    and "\<not> is_nullish (in_expected inp)" "\<not> same_db_id (in_expected inp) (p_published p)"
  shows "\<exists>e. deploy env rq inp a s = (Inl (Api e), s) \<and> err_status e = 409 \<and> err_code e = ''stale_version'' \<and>
    err_details e = VObj [(''expected_version'', VStr (js_string (in_expected inp))),
      (''published_version_id'', id_or_nil (p_published p)),
      (''retry_with_expected_version'', id_or_nil (p_published p))]"
proof -
  have n: "normalize_slug (VStr (pr_slug pr)) = Inr (pr_slug pr)"
    by (rule slug.idempotent) (rule prepare_deploy_Inr(1) [OF assms(1)])
  have f: "find_live (pr_slug pr) (s\<lparr>db_now := rq_now rq\<rparr>) = Some p"
    using assms(3) by (simp add: find_live_def)
  obtain e where e: "assert_expected_version (locked_page_of p) (in_expected inp) = Inl (Api e)" "err_status e = 409"
    "err_code e = ''stale_version''" "err_details e = VObj [(''expected_version'', VStr (js_string (in_expected inp))),
      (''published_version_id'', id_or_nil (p_published p)),
      (''retry_with_expected_version'', id_or_nil (p_published p))]"
    using assms(4,5) by (auto simp add: assert_expected_version_def Let_def conflict_def new_error_def)
  have "deploy_tx env pr a (s\<lparr>db_now := rq_now rq\<rparr>) = Inl (Api e)"
    using n f e(1) prepare_deploy_Inr(2) [OF assms(1)]
    by (simp add: deploy_tx_def bind_tx_Inl lock_page_def deploy_locked_def then_tx_Inl tx_simps)
  with assms(1,2) e show ?thesis by (simp add: deploy_def from_prepared_def with_tx_def)
qed

theorem deploy_stale_refused_witness:
  "\<exists>e. deploy ex_env ex_request (ex_input ''new'' (VBool False) (VStr ''4'')) ex_agent (ex_db ex_page [ex_version]) =
       (Inl (Api e), ex_db ex_page [ex_version]) \<and> err_status e = 409"
proof -
  let ?s = "ex_db ex_page [ex_version]" and ?i = "ex_input ''new'' (VBool False) (VStr ''4'')"
  obtain pr where pr: "prepare_deploy ex_env ?i ex_agent = Inr pr" "pr_slug pr = ''acme''"
    by (simp add: prepare_simps ex_defs)
  have "find_live (pr_slug pr) ?s = Some ex_page" by (simp add: pr(2) ex_defs find_live_def live_page_def)
  moreover have "check_write_admission ex_request = Inr ()" by (simp add: ex_request_def check_write_admission_def)
  moreover have "\<not> is_nullish (in_expected ?i)" "\<not> same_db_id (in_expected ?i) (p_published ex_page)"
    by (simp_all add: ex_input_def is_nullish_def same_db_id_def ex_page_def id_string_def itoa_def nat_digits.simps
        digit_char_def char_of_def)
  ultimately show ?thesis using deploy_stale_refused [OF pr(1), of ex_request ?s ex_page] by blast
qed

text \<open>
  C13: a retry never creates a second row. Deploying the same content again (same bytes, or same
  data identity, render mode and template binding) on the page as the first deploy left it
  dedupes onto the very version the first deploy landed on; no version row is added, whatever
  author, note, actor, publish flag or expected version the retry carries.
\<close>

theorem deploy_retry_dedupes:
  assumes wf: "wf_db s" and p: "p \<in> set (db_pages s)" "p_deleted p = None"
    and first: "deploy_locked env (locked_page_of p) pr a 0 s = Inr (r, s')"
    and q: "q \<in> set (db_pages s')" "p_id q = p_id p"
    and same: "pr_sha pr2 = pr_sha pr" "pr_mode pr2 = pr_mode pr" "pr_binding pr2 = pr_binding pr"
      "pr_data pr2 = pr_data pr" "pr_dedupe_by_data pr2 = pr_dedupe_by_data pr"
    and second: "deploy_locked env (locked_page_of q) pr2 a2 0 s' = Inr (r2, s2)"
  shows "dr_deduped r2 \<and> vs_id (dr_version r2) = vs_id (dr_version r) \<and>
    map v_id (db_versions s2) = map v_id (db_versions s')"
proof -
  from deploy_locked_ok [OF wf p first] have wf': "wf_db s'" and hist: "history s s'" by simp_all
  obtain v s1 where l: "lands env p pr 0 s s1 v (dr_deduped r)" and wf1: "wf_db s1"
    and c: "if pr_publish pr \<and> \<not> p_require_approval p
     then published_from s1 p a pr v (dr_published r) s' \<and> dr_version r = version_columns (v\<lparr>v_status := Approved\<rparr>)
     else s' = s1 \<and> \<not> dr_published r \<and> dr_version r = version_columns v"
    by (rule deploy_locked_cases [OF wf p(1) first])
  have vid: "vs_id (dr_version r) = v_id v" using c by (simp split: if_splits)
  from deploy_leaves [OF wf1 l c] obtain v' where v': "v' \<in> set (db_versions s')" "v_id v' = v_id v"
      "matching env p pr 0 v'"
    and others: "\<And>w. w \<in> set (db_versions s') \<Longrightarrow> v_id w \<noteq> v_id v \<Longrightarrow> w \<in> set (db_versions s1)"
    and flags: "\<And>q. q \<in> set (db_pages s') \<Longrightarrow> p_id q = p_id p \<Longrightarrow> \<exists>q0 \<in> set (db_pages s). p_id q0 = p_id q \<and>
      p_require_approval q0 = p_require_approval q" by blast
  from flags [OF q] obtain q0 where q0: "q0 \<in> set (db_pages s)" "p_id q0 = p_id q"
    "p_require_approval q0 = p_require_approval q" by blast
  with q(2) have "q0 = p" using wf_page_unique [OF wf] p(1) by simp
  then have m: "matching env q pr2 0 = matching env p pr 0"
    using q(2) q0(3) same_identity_eq [OF same, of env] by (simp add: matching_def fun_eq_iff)
  obtain v2 s1' where l2: "lands env q pr2 0 s' s1' v2 (dr_deduped r2)"
    and c2: "if pr_publish pr2 \<and> \<not> p_require_approval q
     then published_from s1' q a2 pr2 v2 (dr_published r2) s2 \<and> dr_version r2 = version_columns (v2\<lparr>v_status := Approved\<rparr>)
     else s2 = s1' \<and> \<not> dr_published r2 \<and> dr_version r2 = version_columns v2"
    by (rule deploy_locked_cases [OF wf' q(1) second])
  from l2 v'(1,3) have ded: "dr_deduped r2" and le: "v_id v \<le> v_id v2"
    using v'(2) by (auto simp add: lands_def m)
  with l2 have s1': "s1' = s'" and v2: "v2 \<in> set (db_versions s')" by (auto simp add: lands_def)
  have "v_id v2 \<le> v_id v"
    using others [OF v2] lands_max [OF l] lands_matching [OF l2] m by (cases "v_id v2 = v_id v") auto
  with le have eq: "v_id v2 = v_id v" by simp
  have "map v_id (db_versions s2) = map v_id (db_versions s')"
    using c2 by (auto simp add: s1' published_from_def approve_row_def set_status_def update_version_def
        map_update_where_id split: if_splits)
  moreover have "vs_id (dr_version r2) = v_id v2" using c2 by (simp split: if_splits)
  ultimately show ?thesis using ded eq vid by simp
qed

theorem deploy_retry_dedupes_witness:
  "\<exists>r s' r2 s2. deploy_locked ex_env (locked_page_of ex_page) ex_prepared ex_user 0 (ex_db ex_page [ex_version]) = Inr (r, s') \<and>
     deploy_locked ex_env (locked_page_of (hd (db_pages s'))) (ex_prepared\<lparr>pr_author := ''bot''\<rparr>) ex_agent 0 s' = Inr (r2, s2) \<and>
     dr_deduped r2 \<and> vs_id (dr_version r2) = 8 \<and> map v_id (db_versions s2) = [5, 8]"
proof -
  let ?s = "ex_db ex_page [ex_version]"
  have wf: "wf_db ?s" by (rule wf_ex_db) (simp_all add: ex_page_def ex_version_def)
  have p: "ex_page \<in> set (db_pages ?s)" "p_deleted ex_page = None" by (simp_all add: ex_defs)
  note run = run_simps ex_defs ex_prepared_def add_version_def set_status_def update_version_def update_page_def
    set_pointer_def audit_row_of_def actor_entry_def
  obtain r s' where first: "deploy_locked ex_env (locked_page_of ex_page) ex_prepared ex_user 0 ?s = Inr (r, s')"
    and s': "vs_id (dr_version r) = 8" "map v_id (db_versions s') = [5, 8]" "p_id (hd (db_pages s')) = 1" "db_pages s' \<noteq> []"
    by (simp add: run)
  obtain r2 s2 where second: "deploy_locked ex_env (locked_page_of (hd (db_pages s')))
      (ex_prepared\<lparr>pr_author := ''bot''\<rparr>) ex_agent 0 s' = Inr (r2, s2)"
    using first by (simp add: run) (auto simp add: run split: if_splits)
  have "dr_deduped r2 \<and> vs_id (dr_version r2) = vs_id (dr_version r) \<and> map v_id (db_versions s2) = map v_id (db_versions s')"
    by (rule deploy_retry_dedupes [OF wf p first _ _ _ _ _ _ _ second]) (use s' in \<open>simp_all add: ex_prepared_def ex_page_def\<close>)
  with first second s' show ?thesis by auto
qed

end
