(* ===== verification/Page_Creation.thy ===== *)
theory Page_Creation
  imports Deploy
begin

text \<open>
  The creation of pages: \<open>CreatePage\<close> of \<open>internal/versions/mutations.go\<close> and the
  create-or-deploy path of \<open>internal/versions/deploy.go\<close>.

  Between the look-up of the slug and the insertion another transaction may commit. The
  transactions take its effect as the argument \<open>others\<close>, so that the unique-index branches of the
  code can be reached; at the entry points transactions are serial and \<open>others\<close> is the identity.
\<close>

subsection \<open>Inserting a page\<close>

definition new_page :: "string \<Rightarrow> string \<Rightarrow> string option \<Rightarrow> int \<Rightarrow> bool \<Rightarrow> db \<Rightarrow> page" where
  "new_page slug title client ws approval s =
     \<lparr>p_id = db_next_page s, p_slug = slug, p_title = title, p_client = client, p_workspace = ws, p_theme = 0,
      p_password_hash = None, p_password_sealed = None, p_require_approval = approval, p_disabled = False,
      p_published = 0, p_created = db_now s, p_updated = db_now s, p_deleted = None, p_check_at = None,
      p_check_outcome = None, p_check_detail = None, p_check_source = None, p_schedule = None, p_owner = None\<rparr>"

definition add_page :: "page \<Rightarrow> db \<Rightarrow> db" where
  "add_page p s = s\<lparr>db_pages := db_pages s @ [p], db_next_page := db_next_page s + 1\<rparr>"

text \<open>
  \<open>INSERT INTO pages ...\<close>: the NOT NULL column \<open>title\<close>, the partial unique index on the live
  slugs (\<open>None\<close> when it is violated), and the foreign key to the workspaces.
\<close>

definition insert_page :: "string \<Rightarrow> string option \<Rightarrow> string option \<Rightarrow> int \<Rightarrow> bool \<Rightarrow> page option tx" where
  "insert_page slug title client ws approval =
     (\<lambda>s. case title of
        None \<Rightarrow> Inl (Other ''null value in column title violates not-null constraint'')
      | Some t \<Rightarrow>
          if find_live slug s \<noteq> None then Inr (None, s)
          else if ws \<noteq> 0 \<and> ws \<notin> w_id ` set (db_workspaces s)
            then Inl (Other ''violates foreign key constraint'')
          else (let p = new_page slug t client ws approval s in Inr (Some p, add_page p s)))"

definition find_workspace :: "int \<Rightarrow> db \<Rightarrow> workspace option" where
  "find_workspace ws s = find (\<lambda>w. w_id w = ws) (db_workspaces s)"

definition workspace_not_found :: go_error where
  "workspace_not_found = not_found ''workspace not found'' ''workspace_not_found'' VNil"

definition workspace_name :: "int \<Rightarrow> string option tx" where
  \<comment> \<open>\<open>SELECT name FROM workspaces ... FOR KEY SHARE\<close> when a workspace is given\<close>
  "workspace_name ws =
     (if ws \<noteq> 0 then bind_tx (found_or workspace_not_found (find_workspace ws)) (\<lambda>w. ret (Some (w_name w)))
      else ret None)"

definition workspace_arg :: "goval \<Rightarrow> actor \<Rightarrow> go_error + int" where
  "workspace_arg v a =
     (if is_nullish v then Inr 0
      else res_bind (assert_workspace_organizer a) (\<lambda>_. normalize_workspace_id v))"

definition create_meta :: "int \<Rightarrow> goval" where
  "create_meta ws = (if ws \<noteq> 0 then VObj [(''workspace_id'', VRef ws)] else VNil)"

definition title_text :: "goval \<Rightarrow> string option" where
  "title_text title = pg_text (if title = VNil then VStr [] else title)"

subsection \<open>CreatePage\<close>

record create_input =
  ci_slug :: goval
  ci_title :: goval
  ci_client :: goval
  ci_workspace :: goval
  ci_approval :: goval

definition slug_exists :: "string \<Rightarrow> go_error" where
  "slug_exists slug = conflict (''slug already exists: '' @ slug) ''slug_exists'' VNil"

definition create_page_tx :: "(db \<Rightarrow> db) \<Rightarrow> create_input \<Rightarrow> string \<Rightarrow> int \<Rightarrow> bool \<Rightarrow> actor \<Rightarrow> (page \<times> string option) tx" where
  "create_page_tx others inp slug ws approval a =
     bind_tx (workspace_name ws) (\<lambda>name.
     bind_tx (read_tx (find_live slug)) (\<lambda>existing.
     then_tx (lift_tx (require (existing = None) (slug_exists slug)))
     (then_tx (others_tx others)
     (bind_tx (insert_page slug (title_text (ci_title inp)) (pg_text (ci_client inp)) ws approval) (\<lambda>row.
      case row of
        None \<Rightarrow> fail (slug_exists slug)
      | Some p \<Rightarrow>
          then_tx (audit_write (actor_entry a ''create_page'' (p_id p) 0 (create_meta ws)))
          (ret (p, name)))))))"

definition check_create :: "create_input \<Rightarrow> actor \<Rightarrow> go_error + string \<times> int \<times> bool" where
  "check_create inp a =
     res_bind (bool_arg (ci_approval inp) False ''require_approval'') (\<lambda>approval.
     res_bind (normalize_slug (ci_slug inp)) (\<lambda>slug.
     res_bind (assert_slug_not_reserved slug) (\<lambda>_.
     res_bind (workspace_arg (ci_workspace inp) a) (\<lambda>ws.
     Inr (slug, ws, approval)))))"

definition create_page :: "request \<Rightarrow> create_input \<Rightarrow> actor \<Rightarrow> db \<Rightarrow> (go_error + page \<times> string option) \<times> db" where
  "create_page rq inp a =
     from_prepared (check_create inp a)
       (\<lambda>(slug, ws, approval). with_tx rq (create_page_tx (\<lambda>s. s) inp slug ws approval a))"

subsection \<open>CreateAndDeploy\<close>

record create_deploy_input =
  cd_deploy :: deploy_input
  cd_title :: goval
  cd_client :: goval
  cd_workspace :: goval
  cd_approval :: goval

definition scan_page :: "page \<Rightarrow> locked_page" where
  \<comment> \<open>the columns \<open>lockSQL\<close> selects: no title\<close>
  "scan_page p = (locked_page_of p)\<lparr>lp_title := []\<rparr>"

definition create_race :: "string \<Rightarrow> go_error" where
  "create_race slug = conflict (''slug changed concurrently: '' @ slug) ''slug_race'' VNil"

definition create_with_expected :: go_error where
  "create_with_expected =
     conflict ''expected_version cannot be used when creating a missing page'' ''stale_version'' VNil"

definition create_missing :: "(db \<Rightarrow> db) \<Rightarrow> create_deploy_input \<Rightarrow> prepared \<Rightarrow> int \<Rightarrow> bool \<Rightarrow> actor \<Rightarrow> (locked_page \<times> bool) tx" where
  \<comment> \<open>the page is missing: insert it, or lock the one a concurrent transaction created\<close>
  "create_missing others inp pr ws approval a =
     then_tx (lift_tx (assert_slug_not_reserved (pr_slug pr)))
     (bind_tx (workspace_name ws) (\<lambda>_.
      then_tx (others_tx others)
      (bind_tx (insert_page (pr_slug pr) (title_text (cd_title inp)) (pg_text (cd_client inp)) ws approval) (\<lambda>row.
       case row of
         Some p \<Rightarrow>
           then_tx (lift_tx (require (is_nullish (pr_expected pr)) create_with_expected))
           (then_tx (audit_write (actor_entry a ''create_page'' (p_id p) 0 (create_meta ws)))
            (ret (scan_page p, True)))
       | None \<Rightarrow>
           bind_tx (found_or (create_race (pr_slug pr)) (find_live (pr_slug pr))) (\<lambda>p. ret (scan_page p, False))))))"

definition create_and_deploy_prepared ::
  "deploy_env \<Rightarrow> (db \<Rightarrow> db) \<Rightarrow> create_deploy_input \<Rightarrow> prepared \<Rightarrow> int \<Rightarrow> bool \<Rightarrow> actor \<Rightarrow>
     (locked_page \<Rightarrow> unit tx) option \<Rightarrow> (bool \<times> deploy_result) tx" where
  "create_and_deploy_prepared env others inp pr ws approval a assert_existing =
     bind_tx (read_tx (find_live (pr_slug pr))) (\<lambda>existing.
     bind_tx (case existing of Some p \<Rightarrow> ret (scan_page p, False) | None \<Rightarrow> create_missing others inp pr ws approval a)
       (\<lambda>(lp, created).
     then_tx (case assert_existing of
         Some check \<Rightarrow> if created then ret () else check lp
       | None \<Rightarrow> ret ())
     (bind_tx (deploy_locked env lp pr a 0) (\<lambda>r.
      ret (created, r\<lparr>dr_schema_generated := pr_schema_generated pr\<rparr>)))))"

definition create_and_deploy_with_tx ::
  "deploy_env \<Rightarrow> (db \<Rightarrow> db) \<Rightarrow> create_deploy_input \<Rightarrow> actor \<Rightarrow> (locked_page \<Rightarrow> unit tx) option \<Rightarrow>
     (bool \<times> deploy_result) tx" where
  "create_and_deploy_with_tx env others inp a assert_existing =
     bind_tx (lift_tx (bool_arg (cd_approval inp) False ''require_approval'')) (\<lambda>approval.
     bind_tx (lift_tx (workspace_arg (cd_workspace inp) a)) (\<lambda>ws.
     bind_tx (lift_tx (prepare_deploy env (cd_deploy inp) a)) (\<lambda>pr.
     create_and_deploy_prepared env others inp pr ws approval a assert_existing)))"

definition create_and_deploy ::
  "deploy_env \<Rightarrow> request \<Rightarrow> create_deploy_input \<Rightarrow> actor \<Rightarrow> db \<Rightarrow> (go_error + bool \<times> deploy_result) \<times> db" where
  "create_and_deploy env rq inp a = with_tx rq (create_and_deploy_with_tx env (\<lambda>s. s) inp a None)"

subsection \<open>The invariant\<close>

lemma new_page_simps [simp]:
  "p_id (new_page slug t c ws ap s) = db_next_page s" "p_slug (new_page slug t c ws ap s) = slug"
  "p_deleted (new_page slug t c ws ap s) = None" "p_published (new_page slug t c ws ap s) = 0"
  "p_workspace (new_page slug t c ws ap s) = ws" "p_theme (new_page slug t c ws ap s) = 0"
  "p_require_approval (new_page slug t c ws ap s) = ap" "p_disabled (new_page slug t c ws ap s) = False"
  by (simp_all add: new_page_def)

lemma find_live_None: "find_live slug s = None \<longleftrightarrow> (\<forall>p \<in> set (db_pages s). p_slug p = slug \<longrightarrow> p_deleted p \<noteq> None)"
  by (auto simp add: find_live_def find_None_mem live_page_def)

lemma wf_add_page:
  assumes "wf_db s" "matches slug_re slug" "find_live slug s = None"
    and "ws = 0 \<or> ws \<in> w_id ` set (db_workspaces s)"
  shows "wf_db (add_page (new_page slug t c ws ap s) s)"
proof -
  let ?p = "new_page slug t c ws ap s" and ?s = "add_page (new_page slug t c ws ap s) s"
  have ps: "db_pages ?s = db_pages s @ [?p]" by (simp add: add_page_def)
  have "ids_ok ?s"
    using assms(1) by (auto simp add: wf_db_def ids_ok_def add_page_def)
  moreover have "live_unique (db_pages ?s)"
    unfolding live_unique_def
  proof (intro ballI impI)
    fix p q assume pq: "p \<in> set (db_pages ?s)" "q \<in> set (db_pages ?s)" "p_deleted p = None" "p_deleted q = None"
      "p_slug p = p_slug q"
    have old: "live_unique (db_pages s)" using assms(1) by (simp add: wf_db_def slugs_ok_def)
    have new: "p_slug r \<noteq> slug" if "r \<in> set (db_pages s)" "p_deleted r = None" for r
      using assms(3) that by (auto simp add: find_live_None)
    from pq(1,2) consider "p = ?p" "q = ?p" | "p = ?p" "q \<in> set (db_pages s)" | "p \<in> set (db_pages s)" "q = ?p"
      | "p \<in> set (db_pages s)" "q \<in> set (db_pages s)" by (auto simp add: ps)
    then show "p_id p = p_id q"
    proof cases
      case 4
      with old pq(3-5) show ?thesis unfolding live_unique_def by blast
    qed (use new pq(3-5) in auto)
  qed
  then have "slugs_ok ?s"
    using assms(1,2) by (simp add: slugs_ok_def wf_db_def ps ball_Un)
  moreover have "pointers_ok ?s"
    using assms(1) by (simp add: wf_db_def pointers_ok_def points_to_def add_page_def)
  moreover have "refs_ok ?s"
    using assms(1,4) by (auto simp add: wf_db_def refs_ok_def add_page_def)
  ultimately show ?thesis by (simp add: wf_db_def)
qed

lemma history_add_page: "history s (add_page p s)"
  using history_refl [of s] by (auto simp add: history_def add_page_def)

lemma insert_page_Inr:
  "insert_page slug title client ws ap s = Inr (row, s') \<longleftrightarrow>
     (\<exists>t. title = Some t \<and>
       (if find_live slug s \<noteq> None then row = None \<and> s' = s
        else (ws = 0 \<or> ws \<in> w_id ` set (db_workspaces s)) \<and>
          row = Some (new_page slug t client ws ap s) \<and> s' = add_page (new_page slug t client ws ap s) s))"
  by (auto simp add: insert_page_def Let_def split: option.splits)

lemma insert_page_ok:
  assumes "insert_page slug title client ws ap s = Inr (row, s')" "wf_db s" "matches slug_re slug"
  shows "wf_db s' \<and> history s s' \<and> (\<forall>p. row = Some p \<longrightarrow> p \<in> set (db_pages s') \<and> p_deleted p = None)"
proof (cases "find_live slug s")
  case None
  with assms(1) obtain t where t: "ws = 0 \<or> ws \<in> w_id ` set (db_workspaces s)"
    "row = Some (new_page slug t client ws ap s)" "s' = add_page (new_page slug t client ws ap s) s"
    by (auto simp add: insert_page_Inr)
  with wf_add_page [OF assms(2,3) None t(1)] history_add_page show ?thesis
    by (simp add: add_page_def)
next
  case (Some p)
  with assms(1,2) show ?thesis by (auto simp add: insert_page_Inr history_refl)
qed

lemma workspace_name_Inr: "workspace_name ws s = Inr (n, s') \<Longrightarrow> s' = s"
  by (auto simp add: workspace_name_def tx_simps split: if_splits)

text \<open>What the invariant needs of the transactions that commit in between.\<close>

definition safe_others :: "(db \<Rightarrow> db) \<Rightarrow> bool" where
  "safe_others g \<longleftrightarrow> (\<forall>s. wf_db s \<longrightarrow> wf_db (g s) \<and> history s (g s))"

lemma safe_id: "safe_others (\<lambda>s. s)"
  by (simp add: safe_others_def history_refl)

lemma create_page_tx_ok:
  assumes "create_page_tx others inp slug ws ap a s = Inr ((p, name), s')"
    and "wf_db s" "matches slug_re slug" "safe_others others"
  shows "wf_db s' \<and> history s s'"
proof -
  from assms(1) obtain s1 where ins: "insert_page slug (title_text (ci_title inp)) (pg_text (ci_client inp)) ws ap (others s) = Inr (Some p, s1)"
    and s': "s' = add_audit (actor_entry a ''create_page'' (p_id p) 0 (create_meta ws)) s1"
    by (auto simp add: create_page_tx_def tx_simps dest!: workspace_name_Inr split: option.splits)
  from assms(2,4) have o: "wf_db (others s)" "history s (others s)" by (simp_all add: safe_others_def)
  from insert_page_ok [OF ins o(1) assms(3)] have "wf_db s1" "history (others s) s1" by simp_all
  with o(2) show ?thesis
    by (auto simp add: s' wf_add_audit intro: history_trans history_add_audit)
qed

subsection \<open>Create or deploy\<close>

text \<open>The state machine does not look at the title, which \<open>lockSQL\<close> does not select.\<close>

lemma scan_page_simps [simp]:
  "lp_id (scan_page p) = p_id p" "lp_slug (scan_page p) = p_slug p"
  "lp_require_approval (scan_page p) = p_require_approval p"
  "lp_disabled (scan_page p) = p_disabled p" "lp_published (scan_page p) = p_published p"
  by (simp_all add: scan_page_def)

lemma deploy_locked_scan: "deploy_locked env (scan_page p) pr a only = deploy_locked env (locked_page_of p) pr a only"
proof -
  have q: "dedupe_query env (scan_page p) pr only = dedupe_query env (locked_page_of p) pr only"
  proof -
    have "dedupe_common (scan_page p) pr only = dedupe_common (locked_page_of p) pr only"
      by (simp add: dedupe_common_def fun_eq_iff)
    then show ?thesis unfolding dedupe_query_def by (simp only:)
  qed
  have i: "insert_version env (scan_page p) pr = insert_version env (locked_page_of p) pr"
  proof -
    have "new_version (scan_page p) pr st = new_version (locked_page_of p) pr st" for st
      by (simp add: new_version_def fun_eq_iff)
    then show ?thesis by (simp add: insert_version_def)
  qed
  have f: "find_or_insert env (scan_page p) pr a only = find_or_insert env (locked_page_of p) pr a only"
  proof -
    have "deploy_meta (scan_page p) pr = deploy_meta (locked_page_of p) pr" by (simp add: deploy_meta_def)
    then show ?thesis unfolding find_or_insert_def q i scan_page_simps locked_page_of_simps by (simp only:)
  qed
  have m: "assert_expected_version (scan_page p) e = assert_expected_version (locked_page_of p) e" for e
    by (simp add: assert_expected_version_def)
  have g: "fast_publish (scan_page p) pr a vs = fast_publish (locked_page_of p) pr a vs" for vs
  proof -
    have "pointer_meta (scan_page p) vid nt = pointer_meta (locked_page_of p) vid nt" for vid nt
      by (simp add: pointer_meta_def)
    then have mp: "move_pointer (scan_page p) = move_pointer (locked_page_of p)"
      by (simp add: fun_eq_iff move_pointer_def m)
    have ag: "assert_agent_may_move_pointer (scan_page p) = assert_agent_may_move_pointer (locked_page_of p)"
      by (simp add: fun_eq_iff assert_agent_may_move_pointer_def)
    show ?thesis unfolding fast_publish_def mp ag scan_page_simps locked_page_of_simps ..
  qed
  show ?thesis by (simp add: deploy_locked_def f g m)
qed

lemma create_missing_ok:
  assumes "create_missing others inp pr ws ap a s = Inr ((lp, created), s')"
    and "wf_db s" "matches slug_re (pr_slug pr)" "safe_others others"
  shows "wf_db s' \<and> history s s' \<and> (\<exists>p \<in> set (db_pages s'). p_deleted p = None \<and> lp = scan_page p)"
proof -
  from assms(1) obtain row s1 where
    ins: "insert_page (pr_slug pr) (title_text (cd_title inp)) (pg_text (cd_client inp)) ws ap (others s) = Inr (row, s1)"
    and rest: "(case row of
         Some p \<Rightarrow> then_tx (lift_tx (require (is_nullish (pr_expected pr)) create_with_expected))
           (then_tx (audit_write (actor_entry a ''create_page'' (p_id p) 0 (create_meta ws))) (ret (scan_page p, True)))
       | None \<Rightarrow> bind_tx (found_or (create_race (pr_slug pr)) (find_live (pr_slug pr))) (\<lambda>p. ret (scan_page p, False))) s1
      = Inr ((lp, created), s')"
    by (auto simp add: create_missing_def tx_simps dest!: workspace_name_Inr)
  from assms(2,4) have o: "wf_db (others s)" "history s (others s)" by (simp_all add: safe_others_def)
  from insert_page_ok [OF ins o(1) assms(3)] have s1: "wf_db s1" "history (others s) s1"
    "\<And>p. row = Some p \<Longrightarrow> p \<in> set (db_pages s1) \<and> p_deleted p = None" by simp_all
  have h: "history s s1" by (rule history_trans [OF o(2) s1(2)])
  show ?thesis
  proof (cases row)
    case None
    with rest s1(1) h show ?thesis by (auto simp add: tx_simps dest!: find_live_Some)
  next
    case (Some p)
    with rest have "lp = scan_page p"
      "s' = add_audit (actor_entry a ''create_page'' (p_id p) 0 (create_meta ws)) s1"
      by (auto simp add: tx_simps)
    with s1(1) s1(3) [OF Some] h show ?thesis
      by (auto simp add: wf_add_audit intro: history_trans history_add_audit)
  qed
qed

text \<open>A check of the existing page may read and write, but keeps the invariant and the page.\<close>

definition safe_check :: "(locked_page \<Rightarrow> unit tx) option \<Rightarrow> bool" where
  "safe_check c \<longleftrightarrow> (\<forall>f lp s s'. c = Some f \<longrightarrow> f lp s = Inr ((), s') \<longrightarrow> wf_db s \<longrightarrow>
     wf_db s' \<and> history s s' \<and> db_pages s' = db_pages s)"

lemma create_and_deploy_prepared_ok:
  assumes "create_and_deploy_prepared env others inp pr ws ap a c s = Inr (r, s')"
    and "wf_db s" "matches slug_re (pr_slug pr)" "safe_others others" "safe_check c"
  shows "wf_db s' \<and> history s s'"
proof -
  obtain created res where r: "r = (created, res)" by (cases r)
  from assms(1) obtain lp s1 s2 r0 where
    fst: "(case find_live (pr_slug pr) s of Some p \<Rightarrow> ret (scan_page p, False)
           | None \<Rightarrow> create_missing others inp pr ws ap a) s = Inr ((lp, created), s1)"
    and chk: "(case c of Some check \<Rightarrow> if created then ret () else check lp | None \<Rightarrow> ret ()) s1 = Inr ((), s2)"
    and dep: "deploy_locked env lp pr a 0 s2 = Inr (r0, s')"
    unfolding create_and_deploy_prepared_def r by (auto simp add: tx_simps)
  have s1: "wf_db s1 \<and> history s s1 \<and> (\<exists>p \<in> set (db_pages s1). p_deleted p = None \<and> lp = scan_page p)"
  proof (cases "find_live (pr_slug pr) s")
    case None
    with fst have "create_missing others inp pr ws ap a s = Inr ((lp, created), s1)" by simp
    then show ?thesis by (rule create_missing_ok) (use assms in auto)
  next
    case (Some p)
    with fst assms(2) find_live_Some [OF Some] show ?thesis by (auto simp add: tx_simps history_refl)
  qed
  have s2: "wf_db s2 \<and> history s1 s2 \<and> db_pages s2 = db_pages s1"
  proof (cases "c = None \<or> created")
    case True
    then have "(case c of Some check \<Rightarrow> if created then ret () else check lp | None \<Rightarrow> ret ()) = ret ()"
      by (auto split: option.split)
    with chk have "s2 = s1" by (simp add: tx_simps)
    with s1 show ?thesis by (simp add: history_refl)
  next
    case False
    then obtain f where f: "c = Some f" "\<not> created" by auto
    with chk have "f lp s1 = Inr ((), s2)" by simp
    with f(1) s1 assms(5) show ?thesis unfolding safe_check_def by blast
  qed
  from s1 obtain p where p: "p \<in> set (db_pages s2)" "p_deleted p = None" "lp = scan_page p" using s2 by auto
  from deploy_locked_ok [of s2 p env pr a 0 r0 s'] dep p s2
  have "wf_db s' \<and> history s2 s'" by (simp add: deploy_locked_scan)
  with s1 s2 show ?thesis by (blast intro: history_trans)
qed

lemma create_and_deploy_with_tx_ok:
  assumes "create_and_deploy_with_tx env others inp a c s = Inr (r, s')"
    and "wf_db s" "safe_others others" "safe_check c"
  shows "wf_db s' \<and> history s s'"
proof -
  from assms(1) obtain ap ws pr where pr: "prepare_deploy env (cd_deploy inp) a = Inr pr"
    and run: "create_and_deploy_prepared env others inp pr ws ap a c s = Inr (r, s')"
    by (auto simp add: create_and_deploy_with_tx_def tx_simps)
  have "matches slug_re (pr_slug pr)" by (rule normalize_slug_matches) (rule prepare_deploy_Inr(1) [OF pr])
  from create_and_deploy_prepared_ok [OF run assms(2) this assms(3,4)] show ?thesis .
qed

subsection \<open>Properties\<close>

text \<open>
  On a page that exists, MCP's create-or-update call is the ordinary deploy: same result, same
  error, same database, with \<open>created\<close> false. Title, client and workspace of the request are
  ignored.
\<close>

lemma create_and_deploy_existing:
  assumes "find_live n s = Some p" "normalize_slug (VStr (in_slug (cd_deploy inp))) = Inr n"
    and "bool_arg (cd_approval inp) False ''require_approval'' = Inr ap" "workspace_arg (cd_workspace inp) a = Inr ws"
    and "check_write_admission rq = Inr ()"
  shows "create_and_deploy env rq inp a s =
    (case deploy env rq (cd_deploy inp) a s of (Inl e, s') \<Rightarrow> (Inl e, s') | (Inr r, s') \<Rightarrow> (Inr (False, r), s'))"
proof (cases "prepare_deploy env (cd_deploy inp) a")
  case (Inl e)
  then show ?thesis using assms(3-5)
    by (simp add: create_and_deploy_def deploy_def from_prepared_def with_tx_def create_and_deploy_with_tx_def
        bind_tx_def lift_tx_def)
next
  case (Inr pr)
  with prepare_deploy_Inr(1) [OF Inr] assms(2) have n: "pr_slug pr = n" by simp
  have nn: "normalize_slug (VStr n) = Inr n" using assms(2) by (rule slug.idempotent)
  have f: "find_live n (s\<lparr>db_now := rq_now rq\<rparr>) = Some p" using assms(1) by (simp add: find_live_def)
  show ?thesis
    using assms(3-5) Inr n nn f
    by (simp add: create_and_deploy_def deploy_def from_prepared_def with_tx_def create_and_deploy_with_tx_def
        deploy_tx_def create_and_deploy_prepared_def lock_page_def bind_tx_def then_tx_def lift_tx_def read_tx_def
        ret_def found_or_def deploy_locked_scan split: sum.splits prod.splits)
qed

definition ex_create :: "goval \<Rightarrow> create_deploy_input" where
  "ex_create expected =
     \<lparr>cd_deploy = ex_input ''new'' (VBool True) expected, cd_title = VNil, cd_client = VNil, cd_workspace = VNil,
      cd_approval = VNil\<rparr>"

lemmas create_simps = create_and_deploy_def create_and_deploy_with_tx_def create_and_deploy_prepared_def
  create_missing_def insert_page_def workspace_arg_def workspace_name_def title_text_def pg_text_def new_page_def
  add_page_def scan_page_def others_tx_def

lemma create_and_deploy_existing_witness:
  "\<exists>r s'. create_and_deploy ex_env ex_request (ex_create VNil) ex_user (ex_db ex_page [ex_version]) = (Inr (False, r), s') \<and>
     deploy ex_env ex_request (ex_input ''new'' (VBool True) VNil) ex_user (ex_db ex_page [ex_version]) = (Inr r, s')"
proof -
  let ?s = "ex_db ex_page [ex_version]"
  obtain r s' where run: "deploy ex_env ex_request (ex_input ''new'' (VBool True) VNil) ex_user ?s = (Inr r, s')"
    by (simp add: deploy_def from_prepared_def prepare_simps ex_defs run_simps)
  have "find_live ''acme'' ?s = Some ex_page" by (simp add: ex_defs find_live_def live_page_def)
  moreover have "normalize_slug (VStr (in_slug (cd_deploy (ex_create VNil)))) = Inr ''acme''"
    by (simp add: ex_create_def ex_input_def)
  moreover have "bool_arg (cd_approval (ex_create VNil)) False ''require_approval'' = Inr False"
    "workspace_arg (cd_workspace (ex_create VNil)) ex_user = Inr 0"
    by (simp_all add: ex_create_def bool_arg_def workspace_arg_def is_nullish_def)
  moreover have "check_write_admission ex_request = Inr ()" by (simp add: ex_request_def check_write_admission_def)
  ultimately have "create_and_deploy ex_env ex_request (ex_create VNil) ex_user ?s =
    (case deploy ex_env ex_request (cd_deploy (ex_create VNil)) ex_user ?s of
       (Inl e, s') \<Rightarrow> (Inl e, s') | (Inr r, s') \<Rightarrow> (Inr (False, r), s'))"
    by (rule create_and_deploy_existing)
  with run show ?thesis by (simp add: ex_create_def)
qed

text \<open>
  C14: deploying to a missing slug creates the page and its first version as one. Exactly one page
  row is added, holding the slug, which is not reserved; the version is fresh, never deduped; the
  page is published on it exactly when the caller asked for it and the page does not require
  approval, and has no pointer otherwise. An expected version is refused.
\<close>

theorem create_and_deploy_missing:
  assumes wf: "wf_db s" and missing: "find_live n s = None"
    and n: "normalize_slug (VStr (in_slug (cd_deploy inp))) = Inr n"
    and ok: "create_and_deploy env rq inp a s = (Inr (created, r), s')"
  shows "created \<and> \<not> dr_deduped r \<and> assert_slug_not_reserved n = Inr () \<and> is_nullish (in_expected (cd_deploy inp)) \<and>
    (\<exists>q. db_pages s' = db_pages s @ [q] \<and> p_slug q = n \<and> p_deleted q = None \<and>
       (dr_published r \<longleftrightarrow> in_publish (cd_deploy inp) = VBool True \<and> \<not> p_require_approval q) \<and>
       p_published q = (if dr_published r then vs_id (dr_version r) else 0))"
proof -
  let ?s = "s\<lparr>db_now := rq_now rq\<rparr>"
  from ok obtain ap ws pr where
      pr: "prepare_deploy env (cd_deploy inp) a = Inr pr"
    and run: "create_and_deploy_prepared env (\<lambda>s. s) inp pr ws ap a None ?s = Inr ((created, r), s')"
    by (auto simp add: create_and_deploy_def with_tx_Inr create_and_deploy_with_tx_def tx_simps)
  note prI = prepare_deploy_Inr [OF pr]
  from prI(1) n have sl: "pr_slug pr = n" by simp
  have miss: "find_live n ?s = None" using missing by (simp add: find_live_def)
  from run miss sl obtain t r0 s1 where nr: "assert_slug_not_reserved n = Inr ()"
    and ws: "ws = 0 \<or> ws \<in> w_id ` set (db_workspaces ?s)"
    and ex: "is_nullish (pr_expected pr)" and cre: "created"
    and s1: "s1 = add_audit (actor_entry a ''create_page'' (db_next_page s) 0 (create_meta ws))
      (add_page (new_page n t (pg_text (cd_client inp)) ws ap ?s) ?s)"
    and dep: "deploy_locked env (scan_page (new_page n t (pg_text (cd_client inp)) ws ap ?s)) pr a 0 s1 = Inr (r0, s')"
    and r: "r = r0\<lparr>dr_schema_generated := pr_schema_generated pr\<rparr>"
    by (auto simp add: create_and_deploy_prepared_def create_missing_def tx_simps insert_page_Inr dest!: workspace_name_Inr)
  let ?p = "new_page n t (pg_text (cd_client inp)) ws ap ?s"
  have ids: "\<And>q. q \<in> set (db_pages s) \<Longrightarrow> p_id q < db_next_page s" "refs_ok s"
    using wf by (simp_all add: wf_db_def ids_ok_def)
  have m: "matches slug_re n" using n by (rule normalize_slug_matches)
  have wf1: "wf_db s1" unfolding s1 wf_add_audit
    by (rule wf_add_page) (use wf m miss ws in \<open>auto simp add: wf_clock\<close>)
  have pages: "db_pages s1 = db_pages s @ [?p]" and vers: "db_versions s1 = db_versions s"
    by (simp_all add: s1 add_page_def)
  obtain v s2 where l: "lands env ?p pr 0 s1 s2 v (dr_deduped r0)"
    and wf2: "wf_db s2"
    and c: "if pr_publish pr \<and> \<not> p_require_approval ?p
     then published_from s2 ?p a pr v (dr_published r0) s' \<and> dr_version r0 = version_columns (v\<lparr>v_status := Approved\<rparr>)
     else s' = s2 \<and> \<not> dr_published r0 \<and> dr_version r0 = version_columns v"
    by (rule deploy_locked_cases [OF wf1 _ dep [unfolded deploy_locked_scan]]) (simp_all add: pages)
  have "\<not> dr_deduped r0"
  proof
    assume "dr_deduped r0"
    with l have "v \<in> set (db_versions s)" "v_page v = db_next_page s" by (auto simp add: lands_def vers)
    with ids(2) obtain q where "q \<in> set (db_pages s)" "p_id q = db_next_page s" by (auto simp add: refs_ok_def)
    with ids(1) show False by force
  qed
  moreover have v0: "v_id v \<noteq> 0" using wf2 l by (auto simp add: lands_def wf_db_def ids_ok_def)
  then have pub: "dr_published r0 \<longleftrightarrow> pr_publish pr \<and> \<not> ap"
    using c by (auto simp add: published_from_def split: if_splits)
  let ?q = "if dr_published r0 then set_pointer (db_now s2) (v_id v) ?p else ?p"
  have others: "update_where (\<lambda>p. p_id p = db_next_page s) f (db_pages s) = db_pages s" for f
    by (rule update_where_none) (use ids(1) in force)
  have "db_pages s' = db_pages s @ [?q]"
    using c l pub by (auto simp add: lands_def published_from_def pages update_page_def others split: if_splits)
  moreover have "vs_id (dr_version r0) = v_id v" using c by (simp split: if_splits)
  ultimately show ?thesis
    using nr ex cre pub prI(2,7) r by (auto simp add: set_pointer_def intro!: exI [of _ ?q])
qed

theorem create_and_deploy_missing_witness:
  "\<exists>r s'. create_and_deploy ex_env ex_request (ex_create VNil) ex_user (ex_db (ex_page\<lparr>p_slug := ''other''\<rparr>) [ex_version]) =
     (Inr (True, r), s') \<and> length (db_pages s') = 2 \<and> \<not> dr_deduped r"
proof -
  let ?s = "ex_db (ex_page\<lparr>p_slug := ''other''\<rparr>) [ex_version]"
  have o: "matches slug_re ''other''" by code_simp
  have wf: "wf_db ?s" using o by (simp add: wf_parts ex_defs live_unique_def)
  have miss: "find_live ''acme'' ?s = None" by (simp add: find_live_None ex_defs)
  have n: "normalize_slug (VStr (in_slug (cd_deploy (ex_create VNil)))) = Inr ''acme''"
    by (simp add: ex_create_def ex_input_def)
  have nr: "assert_slug_not_reserved ''acme'' = Inr ()"
    by (simp add: not_reserved_iff reserved_slug_segments_def)
  obtain cr s' where run: "create_and_deploy ex_env ex_request (ex_create VNil) ex_user ?s = (Inr cr, s')"
    using nr by (simp add: create_simps ex_create_def prepare_simps ex_defs run_simps Let_def)
  obtain created r where cr: "cr = (created, r)" by (cases cr)
  from create_and_deploy_missing [OF wf miss n run [unfolded cr]] run show ?thesis
    by (auto simp add: cr ex_db_def)
qed

text \<open>
  Concurrent creators converge. If another transaction creates the page after this one found
  the slug free and before it inserts, the insertion does nothing, this transaction locks the page
  the other one created, applies the caller's check of an existing page to it, and deploys there:
  the outcome is that of a deploy on the page of the winner, with \<open>created\<close> false.
\<close>

lemma create_race_converges:
  assumes "find_live (pr_slug pr) s = None" "find_live (pr_slug pr) (others s) = Some p"
    and "assert_slug_not_reserved (pr_slug pr) = Inr ()" "ws = 0" "title_text (cd_title inp) = Some t"
  shows "create_and_deploy_prepared env others inp pr ws ap a chk s =
    then_tx (case chk of Some check \<Rightarrow> check (scan_page p) | None \<Rightarrow> ret ())
      (bind_tx (deploy_locked env (locked_page_of p) pr a 0) (\<lambda>r.
         ret (False, r\<lparr>dr_schema_generated := pr_schema_generated pr\<rparr>))) (others s)"
proof -
  have "create_missing others inp pr ws ap a s = Inr ((scan_page p, False), others s)"
    using assms by (simp add: create_missing_def bind_tx_def then_tx_def lift_tx_def workspace_name_def ret_def
        others_tx_def exec_tx_def insert_page_def found_or_def)
  then show ?thesis
    using assms(1) by (simp add: create_and_deploy_prepared_def bind_tx_def read_tx_def deploy_locked_scan
        cong: option.case_cong)
qed

lemma create_race_converges_witness:
  "fst (the (case create_and_deploy_prepared ex_env (\<lambda>s. ex_db ex_page [ex_version]) (ex_create VNil) ex_prepared 0 False
       ex_user None (ex_db (ex_page\<lparr>p_deleted := Some 1\<rparr>) [ex_version]) of Inr x \<Rightarrow> Some x | Inl _ \<Rightarrow> None)) =
   (False, \<lparr>dr_version = (version_columns ex_version)\<lparr>vs_id := 8, vs_sha := ''new'', vs_created := 0\<rparr>, dr_deduped = False,
     dr_published = True, dr_gated = False, dr_live = True, dr_schema_generated = False\<rparr>)"
proof -
  let ?s = "ex_db (ex_page\<lparr>p_deleted := Some 1\<rparr>) [ex_version]" and ?o = "\<lambda>s :: db. ex_db ex_page [ex_version]"
  have "create_and_deploy_prepared ex_env ?o (ex_create VNil) ex_prepared 0 False ex_user None ?s =
    then_tx (case None of Some check \<Rightarrow> check (scan_page ex_page) | None \<Rightarrow> ret ())
      (bind_tx (deploy_locked ex_env (locked_page_of ex_page) ex_prepared ex_user 0) (\<lambda>r.
         ret (False, r\<lparr>dr_schema_generated := pr_schema_generated ex_prepared\<rparr>))) (?o ?s)"
  proof (rule create_race_converges)
    show "find_live (pr_slug ex_prepared) ?s = None" by (simp add: find_live_None ex_defs ex_prepared_def)
    show "find_live (pr_slug ex_prepared) (?o ?s) = Some ex_page"
      by (simp add: ex_defs find_live_def live_page_def ex_prepared_def)
    show "assert_slug_not_reserved (pr_slug ex_prepared) = Inr ()"
      by (simp add: not_reserved_iff reserved_slug_segments_def ex_prepared_def)
    show "title_text (cd_title (ex_create VNil)) = Some []" by (simp add: ex_create_def title_text_def pg_text_def)
  qed simp
  then show ?thesis by (simp add: run_simps ex_defs ex_prepared_def)
qed

end
