(* ===== verification/Mutations.thy ===== *)
theory Mutations
  imports Page_Creation
begin

text \<open>
  \<open>internal/versions/mutations.go\<close>: publish, rollback, approve and reject, the admin settings of a
  page, passwords, titles, deletion and restoration. Each operation is the validation the code
  makes before it opens the transaction, then one transaction that locks the page, checks
  authority and state, updates one row and writes one audit row.

  scrypt hashing and the AES vault of \<open>pagecookie\<close> and \<open>passwordvault\<close> are parameters
  (\<open>secret_env\<close>). \<open>RecordRefreshCheck\<close> is in \<open>Freshness\<close>, which it reads back.
\<close>

record secret_env =
  sec_hash :: "string \<Rightarrow> go_error + string"              \<comment> \<open>\<open>pagecookie.HashPassword\<close>\<close>
  sec_seal :: "string \<Rightarrow> string \<Rightarrow> string"               \<comment> \<open>\<open>passwordvault.Seal\<close>, "" when there is no key\<close>
  sec_open :: "string \<Rightarrow> string \<Rightarrow> string option"        \<comment> \<open>\<open>passwordvault.Open\<close>\<close>

subsection \<open>Publish, rollback, approve, reject\<close>

definition version_id_required :: "int \<Rightarrow> go_error + unit" where
  "version_id_required vid = require (vid \<noteq> 0) (bad_request ''version_id is required'' ''version_id_required'' VNil)"

definition status_conflict :: "string \<Rightarrow> version_status \<Rightarrow> string \<Rightarrow> go_error" where
  \<comment> \<open>\<open>fmt.Sprintf("... (status=%s)", v.Status)\<close>\<close>
  "status_conflict msg st code = conflict (msg @ '' (status='' @ status_name st @ '')'') code VNil"

definition publish_tx :: "string \<Rightarrow> int \<Rightarrow> goval \<Rightarrow> actor \<Rightarrow> summary tx" where
  "publish_tx slug vid expected a =
     bind_tx (lock_page slug) (\<lambda>lp.
     then_tx (lift_tx (assert_agent_may_move_pointer lp a))
     (bind_tx (lock_version (lp_id lp) vid) (\<lambda>v.
      then_tx (lift_tx (require (vs_status v = Draft)
        (status_conflict ''can only publish a draft version'' (vs_status v) ''not_draft'')))
      (then_tx (exec_tx (set_status vid Approved))
      (then_tx (move_pointer lp vid expected a ''publish'' None)
       (ret (v\<lparr>vs_status := Approved\<rparr>)))))))"

definition publish :: "request \<Rightarrow> string \<Rightarrow> int \<Rightarrow> goval \<Rightarrow> actor \<Rightarrow> db \<Rightarrow> (go_error + summary) \<times> db" where
  "publish rq slug vid expected a =
     from_prepared (version_id_required vid) (\<lambda>_. with_tx rq (publish_tx slug vid expected a))"

definition rollback_target :: "int \<Rightarrow> int \<Rightarrow> db \<Rightarrow> version option" where
  \<comment> \<open>\<open>status = 'approved' AND id IS DISTINCT FROM published ORDER BY created_at DESC, id DESC LIMIT 1\<close>\<close>
  "rollback_target pid published s =
     max_by (\<lambda>v. (v_created v, v_id v))
       (filter (\<lambda>v. v_page v = pid \<and> v_status v = Approved \<and> v_id v \<noteq> published) (db_versions s))"

definition no_rollback_target :: go_error where
  "no_rollback_target = conflict ''no earlier approved version to roll back to'' ''no_rollback_target'' VNil"

definition resolve_target :: "locked_page \<Rightarrow> int \<Rightarrow> int tx" where
  "resolve_target lp vid =
     (if vid = 0 then
        bind_tx (found_or no_rollback_target (rollback_target (lp_id lp) (lp_published lp))) (\<lambda>v. ret (v_id v))
      else ret vid)"

definition rollback_tx :: "string \<Rightarrow> int \<Rightarrow> goval \<Rightarrow> string option \<Rightarrow> actor \<Rightarrow> summary tx" where
  "rollback_tx slug vid expected note a =
     bind_tx (lock_page slug) (\<lambda>lp.
     then_tx (lift_tx (assert_agent_may_move_pointer lp a))
     (bind_tx (resolve_target lp vid) (\<lambda>target.
      bind_tx (lock_version (lp_id lp) target) (\<lambda>v.
      then_tx (lift_tx (require (vs_status v = Approved)
        (status_conflict ''can only roll back to an approved version'' (vs_status v) ''not_approved'')))
      (then_tx (move_pointer lp target expected a ''rollback'' note)
       (ret v))))))"

definition rollback :: "request \<Rightarrow> string \<Rightarrow> int \<Rightarrow> goval \<Rightarrow> goval \<Rightarrow> actor \<Rightarrow> db \<Rightarrow> (go_error + summary) \<times> db" where
  "rollback rq slug vid expected note a =
     from_prepared (normalize_note note) (\<lambda>n. with_tx rq (rollback_tx slug vid expected n a))"

definition approve_tx :: "string \<Rightarrow> int \<Rightarrow> goval \<Rightarrow> actor \<Rightarrow> summary tx" where
  "approve_tx slug vid expected a =
     bind_tx (lock_page slug) (\<lambda>lp.
     bind_tx (lock_version (lp_id lp) vid) (\<lambda>v.
     then_tx (lift_tx (require (vs_status v = Pending)
       (status_conflict ''can only approve a pending version'' (vs_status v) ''not_pending'')))
     (then_tx (exec_tx (set_review vid Approved (ac_actor a)))
     (then_tx (move_pointer lp vid expected a ''approve'' None)
      (ret (v\<lparr>vs_status := Approved, vs_reviewed_by := Some (ac_actor a)\<rparr>))))))"

definition approve :: "request \<Rightarrow> string \<Rightarrow> int \<Rightarrow> goval \<Rightarrow> actor \<Rightarrow> db \<Rightarrow> (go_error + summary) \<times> db" where
  "approve rq slug vid expected a =
     from_prepared (res_bind (assert_admin_action a []) (\<lambda>_. version_id_required vid))
       (\<lambda>_. with_tx rq (approve_tx slug vid expected a))"

definition reject_meta :: "string option \<Rightarrow> goval" where
  "reject_meta note = (case note of Some n \<Rightarrow> if n \<noteq> [] then VObj [(''note'', VStr n)] else VNil | None \<Rightarrow> VNil)"

definition reject_tx :: "string \<Rightarrow> int \<Rightarrow> string option \<Rightarrow> actor \<Rightarrow> summary tx" where
  "reject_tx slug vid note a =
     bind_tx (lock_page slug) (\<lambda>lp.
     bind_tx (lock_version (lp_id lp) vid) (\<lambda>v.
     then_tx (lift_tx (require (vs_status v = Pending \<or> vs_status v = Draft)
       (status_conflict ''can only reject a draft/pending version'' (vs_status v) ''not_rejectable'')))
     (then_tx (exec_tx (set_review vid Rejected (ac_actor a)))
     (then_tx (audit_write (actor_entry a ''reject'' (lp_id lp) vid (reject_meta note)))
      (ret (v\<lparr>vs_status := Rejected, vs_reviewed_by := Some (ac_actor a)\<rparr>))))))"

definition reject :: "request \<Rightarrow> string \<Rightarrow> int \<Rightarrow> goval \<Rightarrow> actor \<Rightarrow> db \<Rightarrow> (go_error + summary) \<times> db" where
  "reject rq slug vid note a =
     from_prepared
       (res_bind (assert_admin_action a []) (\<lambda>_.
        res_bind (version_id_required vid) (\<lambda>_. normalize_note note)))
       (\<lambda>n. with_tx rq (reject_tx slug vid n a))"

subsection \<open>Page settings\<close>

text \<open>\<open>UPDATE pages SET ..., updated_at = now() WHERE id\<close>, then the audit row.\<close>

definition change_page :: "int \<Rightarrow> (page \<Rightarrow> page) \<Rightarrow> actor \<Rightarrow> string \<Rightarrow> goval \<Rightarrow> unit tx" where
  "change_page pid f a action meta =
     then_tx (exec_tx (\<lambda>s. update_page pid (\<lambda>p. (f p)\<lparr>p_updated := db_now s\<rparr>) s))
       (audit_write (actor_entry a action pid 0 meta))"

definition admin_bool :: "goval \<Rightarrow> string \<Rightarrow> actor \<Rightarrow> go_error + bool" where
  \<comment> \<open>the admin check, then \<open>v.(bool)\<close>\<close>
  "admin_bool v field a =
     res_bind (assert_admin_action a []) (\<lambda>_.
       (case v of VBool b \<Rightarrow> Inr b | _ \<Rightarrow> Inl (bad_request (field @ '' must be a boolean'') ''bad_boolean'' VNil)))"

definition set_disabled_tx :: "string \<Rightarrow> bool \<Rightarrow> actor \<Rightarrow> (string \<times> bool) tx" where
  "set_disabled_tx slug value a =
     bind_tx (lock_page slug) (\<lambda>lp.
     then_tx (change_page (lp_id lp) (\<lambda>p. p\<lparr>p_disabled := value\<rparr>) a (if value then ''disable'' else ''enable'') VNil)
     (ret (lp_slug lp, value)))"

definition set_disabled :: "request \<Rightarrow> string \<Rightarrow> goval \<Rightarrow> actor \<Rightarrow> db \<Rightarrow> (go_error + string \<times> bool) \<times> db" where
  "set_disabled rq slug disabled a =
     from_prepared (admin_bool disabled ''disabled'' a) (\<lambda>value. with_tx rq (set_disabled_tx slug value a))"

definition set_approval_tx :: "string \<Rightarrow> bool \<Rightarrow> actor \<Rightarrow> (string \<times> bool) tx" where
  "set_approval_tx slug value a =
     bind_tx (lock_page slug) (\<lambda>lp.
     then_tx (change_page (lp_id lp) (\<lambda>p. p\<lparr>p_require_approval := value\<rparr>) a ''set_approval''
       (VObj [(''require_approval'', VBool value)]))
     (ret (lp_slug lp, value)))"

definition set_approval :: "request \<Rightarrow> string \<Rightarrow> goval \<Rightarrow> actor \<Rightarrow> db \<Rightarrow> (go_error + string \<times> bool) \<times> db" where
  "set_approval rq slug require_approval a =
     from_prepared (admin_bool require_approval ''require_approval'' a)
       (\<lambda>value. with_tx rq (set_approval_tx slug value a))"

definition find_theme :: "string \<Rightarrow> db \<Rightarrow> theme option" where
  "find_theme name s = find (\<lambda>t. th_name t = name) (db_themes s)"

definition resolve_theme :: "string \<Rightarrow> int tx" where
  "resolve_theme theme =
     (if theme \<noteq> [] \<and> theme \<noteq> ''flag'' then
        bind_tx (found_or (bad_request (''unknown theme: '' @ theme) ''unknown_theme'' VNil) (find_theme theme))
          (\<lambda>t. ret (th_id t))
      else ret 0)"

definition set_theme_tx :: "string \<Rightarrow> string \<Rightarrow> actor \<Rightarrow> (string \<times> string) tx" where
  "set_theme_tx slug theme a =
     bind_tx (lock_page slug) (\<lambda>lp.
     bind_tx (resolve_theme theme) (\<lambda>tid.
     let name = (if theme = [] then ''flag'' else theme) in
     then_tx (change_page (lp_id lp) (\<lambda>p. p\<lparr>p_theme := tid\<rparr>) a ''set_theme'' (VObj [(''theme'', VStr name)]))
     (ret (lp_slug lp, name))))"

definition set_theme :: "request \<Rightarrow> string \<Rightarrow> string \<Rightarrow> actor \<Rightarrow> db \<Rightarrow> (go_error + string \<times> string) \<times> db" where
  "set_theme rq slug theme a =
     from_prepared (assert_admin_action a []) (\<lambda>_. with_tx rq (set_theme_tx slug theme a))"

subsection \<open>Passwords\<close>

definition clearing_password :: "goval \<Rightarrow> bool" where
  "clearing_password password = (is_nullish password \<or> password = VStr [])"

text \<open>The hash and the sealed copy to store; \<open>None\<close> is NULL.\<close>

definition new_password :: "secret_env \<Rightarrow> goval \<Rightarrow> actor \<Rightarrow> go_error + string option \<times> string option" where
  "new_password env password a =
     (if clearing_password password then
        res_bind (assert_admin_action a ''clearing a page password is admin-only'') (\<lambda>_. Inr (None, None))
      else
        (case password of
           VStr pw \<Rightarrow>
             if 512 < utf16_len pw
             then Inl (bad_request ''password must be 512 characters or fewer'' ''password_too_long'' VNil)
             else res_bind (sec_hash env pw) (\<lambda>h.
               Inr (Some h, if sec_seal env pw h \<noteq> [] then Some (sec_seal env pw h) else None))
         | _ \<Rightarrow> Inl (bad_request ''password must be a non-empty string'' ''bad_password'' VNil)))"

definition set_password_tx :: "string \<Rightarrow> string option \<Rightarrow> string option \<Rightarrow> actor \<Rightarrow> (string \<times> bool) tx" where
  "set_password_tx slug hash sealed a =
     bind_tx (lock_page slug) (\<lambda>lp.
     then_tx (change_page (lp_id lp) (\<lambda>p. p\<lparr>p_password_hash := hash, p_password_sealed := sealed\<rparr>) a
       (if hash \<noteq> None then ''set_password'' else ''clear_password'') VNil)
     (ret (lp_slug lp, hash \<noteq> None)))"

definition set_password :: "secret_env \<Rightarrow> request \<Rightarrow> string \<Rightarrow> goval \<Rightarrow> actor \<Rightarrow> db \<Rightarrow> (go_error + string \<times> bool) \<times> db" where
  "set_password env rq slug password a =
     from_prepared (new_password env password a) (\<lambda>(hash, sealed). with_tx rq (set_password_tx slug hash sealed a))"

record revealed =
  rv_slug :: string
  rv_has_password :: bool
  rv_available :: bool
  rv_password :: "string option"

definition deref :: "string option \<Rightarrow> string" where
  "deref x = (case x of None \<Rightarrow> [] | Some y \<Rightarrow> y)"

definition reveal_password_tx :: "secret_env \<Rightarrow> string \<Rightarrow> actor \<Rightarrow> revealed tx" where
  "reveal_password_tx env slug a =
     bind_tx (found_or (page_not_found slug) (find_live slug)) (\<lambda>p.
     if deref (p_password_hash p) = []
     then ret \<lparr>rv_slug = p_slug p, rv_has_password = False, rv_available = False, rv_password = None\<rparr>
     else
       let pw = sec_open env (deref (p_password_sealed p)) (deref (p_password_hash p)) in
       then_tx (audit_write (actor_entry a ''reveal_password'' (p_id p) 0 (VObj [(''available'', VBool (pw \<noteq> None))])))
       (ret \<lparr>rv_slug = p_slug p, rv_has_password = True, rv_available = (pw \<noteq> None), rv_password = pw\<rparr>))"

definition reveal_password :: "secret_env \<Rightarrow> request \<Rightarrow> string \<Rightarrow> actor \<Rightarrow> db \<Rightarrow> (go_error + revealed) \<times> db" where
  "reveal_password env rq slug a =
     from_prepared
       (res_bind (assert_admin_action a ''showing a page password is admin-only'') (\<lambda>_. normalize_slug (VStr slug)))
       (\<lambda>s. with_tx rq (reveal_password_tx env s a))"

subsection \<open>Titles\<close>

definition clean_title :: "goval \<Rightarrow> go_error + string" where
  "clean_title title =
     (case title of
        VStr t \<Rightarrow>
          if js_trim t = [] then Inl (bad_request ''title is required'' ''title_required'' VNil)
          else Inr (js_slice0 (js_trim t) 200)
      | _ \<Rightarrow> Inl (bad_request ''title is required'' ''title_required'' VNil))"

definition set_title_tx :: "string \<Rightarrow> string \<Rightarrow> actor \<Rightarrow> (string \<times> string) tx" where
  "set_title_tx slug clean a =
     bind_tx (lock_page slug) (\<lambda>lp.
     if lp_title lp = clean then ret (lp_slug lp, clean)
     else
       then_tx (change_page (lp_id lp) (\<lambda>p. p\<lparr>p_title := clean\<rparr>) a ''set_title'' (VObj [(''title'', VStr clean)]))
       (ret (lp_slug lp, clean)))"

definition set_title :: "request \<Rightarrow> string \<Rightarrow> goval \<Rightarrow> actor \<Rightarrow> db \<Rightarrow> (go_error + string \<times> string) \<times> db" where
  "set_title rq slug title a =
     from_prepared (clean_title title) (\<lambda>clean. with_tx rq (set_title_tx slug clean a))"

subsection \<open>Delete and restore\<close>

definition delete_page_tx :: "string \<Rightarrow> actor \<Rightarrow> (string \<times> bool) tx" where
  "delete_page_tx slug a =
     bind_tx (lock_page slug) (\<lambda>lp.
     then_tx (lift_tx (assert_agent_may_move_pointer lp a))
     (then_tx (exec_tx (\<lambda>s. update_page (lp_id lp)
        (\<lambda>p. p\<lparr>p_published := 0, p_deleted := Some (db_now s), p_updated := db_now s\<rparr>) s))
     (then_tx (audit_write (actor_entry a ''delete_page'' (lp_id lp) 0
        (VObj [(''had_published'', id_or_nil (lp_published lp))])))
      (ret (lp_slug lp, True)))))"

definition delete_page :: "request \<Rightarrow> string \<Rightarrow> actor \<Rightarrow> db \<Rightarrow> (go_error + string \<times> bool) \<times> db" where
  "delete_page rq slug a = with_tx rq (delete_page_tx slug a)"

definition slug_taken :: "string \<Rightarrow> go_error" where
  "slug_taken slug = conflict (''a live page already uses this slug: '' @ slug) ''slug_taken'' VNil"

definition deleted_page :: "string \<Rightarrow> db \<Rightarrow> page option" where
  \<comment> \<open>the most recently deleted row of the slug\<close>
  "deleted_page slug s =
     max_by (\<lambda>p. the (p_deleted p)) (filter (\<lambda>p. p_slug p = slug \<and> p_deleted p \<noteq> None) (db_pages s))"

definition undelete :: "string \<Rightarrow> int \<Rightarrow> unit tx" where
  \<comment> \<open>the UPDATE, refused by the partial unique index when a live page has the slug\<close>
  "undelete slug pid =
     bind_tx (read_tx (find_live slug)) (\<lambda>live.
     then_tx (lift_tx (require (live = None) (slug_taken slug)))
     (exec_tx (\<lambda>s. update_page pid (\<lambda>p. p\<lparr>p_deleted := None, p_updated := db_now s\<rparr>) s)))"

definition restore_page_tx :: "(db \<Rightarrow> db) \<Rightarrow> string \<Rightarrow> actor \<Rightarrow> (string \<times> bool) tx" where
  "restore_page_tx others slug a =
     bind_tx (read_tx (find_live slug)) (\<lambda>live.
     then_tx (lift_tx (require (live = None) (slug_taken slug)))
     (then_tx (others_tx others)
     (bind_tx (found_or (not_found (''no deleted page to restore: '' @ slug) ''page_not_found'' VNil) (deleted_page slug)) (\<lambda>p.
      then_tx (undelete slug (p_id p))
      (then_tx (audit_write (actor_entry a ''restore_page'' (p_id p) 0 VNil))
       (ret (slug, True)))))))"

definition restore_page :: "request \<Rightarrow> string \<Rightarrow> actor \<Rightarrow> db \<Rightarrow> (go_error + string \<times> bool) \<times> db" where
  "restore_page rq slug a =
     from_prepared
       (res_bind (assert_admin_action a []) (\<lambda>_.
        res_bind (normalize_slug (VStr slug)) (\<lambda>s.
        res_bind (assert_slug_not_reserved s) (\<lambda>_. Inr s))))
       (\<lambda>s. with_tx rq (restore_page_tx (\<lambda>s. s) s a))"

subsection \<open>Every mutation keeps invariant and history\<close>

definition keeps :: "db \<Rightarrow> db \<Rightarrow> bool" where
  \<comment> \<open>the contract of a mutation\<close>
  "keeps s s' \<longleftrightarrow> (wf_db s \<longrightarrow> wf_db s' \<and> history s s')"

lemma keepsI: "(wf_db s \<Longrightarrow> wf_db s' \<and> history s s') \<Longrightarrow> keeps s s'"
  by (simp add: keeps_def)

interpretation keep: tx_contract keeps
proof
  show "keeps s s" for s by (simp add: keeps_def history_refl)
  show "keeps s1 s2 \<Longrightarrow> keeps s2 s3 \<Longrightarrow> keeps s1 s3" for s1 s2 s3
    by (auto simp add: keeps_def intro: history_trans)
  show "keeps s (s\<lparr>db_now := t\<rparr>)" for s t
    by (simp add: keeps_def wf_clock history_same)
qed

lemma keeps_audit: "keeps s (add_audit e s)"
  by (simp add: keeps_def wf_add_audit history_add_audit)

lemma keeps_audit_trans: "keeps s s1 \<Longrightarrow> keeps s (add_audit e s1)"
  by (rule keep.trans [OF _ keeps_audit])

text \<open>An update of a setting: neither identity, slug, pointer, deletion, workspace nor theme.\<close>

lemma keeps_setting:
  assumes "\<And>p. page_refs (f p) = page_refs p" "\<And>p. p_created (f p) = p_created p"
    and "\<And>p. p_workspace (f p) = p_workspace p" "\<And>p. p_theme (f p) = p_theme p \<or> p_theme (f p) = 0 \<or>
      p_theme (f p) \<in> th_id ` set (db_themes s)"
  shows "keeps s (update_page pid f s)"
proof (rule keepsI, rule conjI)
  assume "wf_db s"
  then show "wf_db (update_page pid f s)" by (rule wf_update_settings) (use assms in auto)
  show "history s (update_page pid f s)"
    by (rule history_update_page) (use assms(1,2) in \<open>auto simp add: page_refs_def page_key_def\<close>)
qed

lemma set_review_mem:
  "v \<in> set (db_versions s) \<Longrightarrow> v\<lparr>v_status := st, v_reviewed_by := Some r, v_reviewed_at := Some (db_now s)\<rparr> \<in>
     set (db_versions (set_review (v_id v) st r s))"
  by (auto simp add: set_review_def update_version_def mem_update_where_iff)

text \<open>Approving a version of the locked page and pointing the page at it.\<close>

lemma keeps_move:
  assumes p: "p \<in> set (db_pages s)" "p_deleted p = None"
    and v: "v \<in> set (db_versions s)" "v_page v = p_id p"
    and s1: "s1 = s \<and> v_status v = Approved \<or> s1 = set_status (v_id v) Approved s \<and> v_status v \<noteq> Rejected \<or>
      s1 = set_review (v_id v) Approved r s \<and> v_status v \<noteq> Rejected"
  shows "keeps s (update_page (p_id p) (set_pointer now (v_id v)) s1)"
proof (rule keepsI)
  assume wf: "wf_db s"
  have le: "v_status v \<noteq> Rejected \<Longrightarrow> v_status v \<le> Approved"
    by (cases "v_status v") (simp_all add: less_eq_version_status_def)
  have "wf_db s1 \<and> history s s1 \<and> db_pages s1 = db_pages s \<and>
      (\<exists>w \<in> set (db_versions s1). v_id w = v_id v \<and> v_page w = v_page v \<and> v_status w = Approved)"
    using s1 wf v set_status_mem [OF v(1), where st = Approved]
      set_review_mem [OF v(1), where st = Approved and r = r]
      wf_set_status [OF wf v(1), where st = Approved] history_set_status [OF wf v(1), where st = Approved] le
    by (elim disjE) (auto simp add: history_refl intro: bexI [rotated])
  then obtain w where s1': "wf_db s1" "history s s1" "db_pages s1 = db_pages s"
    and w: "w \<in> set (db_versions s1)" "v_id w = v_id v" "v_page w = p_id p" "v_status w = Approved"
    using v(2) by auto
  have "wf_db (update_page (p_id p) (set_pointer now (v_id w)) s1)"
    by (rule wf_set_pointer [OF s1'(1) _ p(2) w(1,3,4)]) (simp add: s1'(3) p(1))
  with s1'(2) w(2) show "wf_db (update_page (p_id p) (set_pointer now (v_id v)) s1) \<and>
      history s (update_page (p_id p) (set_pointer now (v_id v)) s1)"
    by (auto intro: history_trans history_set_pointer)
qed

text \<open>The operations, by what they find and what they leave.\<close>

lemma publish_tx_Inr:
  "publish_tx slug vid expected a s = Inr (r, s') \<longleftrightarrow>
     (\<exists>p v. locked s slug p \<and> assert_agent_may_move_pointer (locked_page_of p) a = Inr () \<and>
        find_version (p_id p) vid s = Some v \<and> v_status v = Draft \<and>
        assert_expected_version (locked_page_of p) expected = Inr () \<and>
        r = (version_columns v)\<lparr>vs_status := Approved\<rparr> \<and>
        s' = add_audit (actor_entry a ''publish'' (p_id p) vid (pointer_meta (locked_page_of p) vid None))
            (update_page (p_id p) (set_pointer (db_now s) vid) (set_status vid Approved s)))"
  by (auto simp add: publish_tx_def tx_simps)

lemma rollback_tx_Inr:
  "rollback_tx slug vid expected nt a s = Inr (r, s') \<longleftrightarrow>
     (\<exists>p v t. locked s slug p \<and> assert_agent_may_move_pointer (locked_page_of p) a = Inr () \<and>
        (if vid = 0 then \<exists>w. rollback_target (p_id p) (p_published p) s = Some w \<and> t = v_id w else t = vid) \<and>
        find_version (p_id p) t s = Some v \<and>
        v_status v = Approved \<and> assert_expected_version (locked_page_of p) expected = Inr () \<and>
        r = version_columns v \<and>
        s' = add_audit (actor_entry a ''rollback'' (p_id p) t (pointer_meta (locked_page_of p) t nt))
            (update_page (p_id p) (set_pointer (db_now s) t) s))"
  by (cases "vid = 0") (auto simp add: rollback_tx_def resolve_target_def tx_simps)

lemma approve_tx_Inr:
  "approve_tx slug vid expected a s = Inr (r, s') \<longleftrightarrow>
     (\<exists>p v. locked s slug p \<and> find_version (p_id p) vid s = Some v \<and> v_status v = Pending \<and>
        assert_expected_version (locked_page_of p) expected = Inr () \<and>
        r = (version_columns v)\<lparr>vs_status := Approved, vs_reviewed_by := Some (ac_actor a)\<rparr> \<and>
        s' = add_audit (actor_entry a ''approve'' (p_id p) vid (pointer_meta (locked_page_of p) vid None))
            (update_page (p_id p) (set_pointer (db_now s) vid) (set_review vid Approved (ac_actor a) s)))"
  by (auto simp add: approve_tx_def tx_simps)

lemma reject_tx_Inr:
  "reject_tx slug vid nt a s = Inr (r, s') \<longleftrightarrow>
     (\<exists>p v. locked s slug p \<and> find_version (p_id p) vid s = Some v \<and> (v_status v = Pending \<or> v_status v = Draft) \<and>
        r = (version_columns v)\<lparr>vs_status := Rejected, vs_reviewed_by := Some (ac_actor a)\<rparr> \<and>
        s' = add_audit (actor_entry a ''reject'' (p_id p) vid (reject_meta nt)) (set_review vid Rejected (ac_actor a) s))"
  by (auto simp add: reject_tx_def tx_simps)

lemma publish_tx_keeps: "obeys keeps (publish_tx slug vid expected a)"
proof (rule obeysI)
  fix s r s'
  assume "publish_tx slug vid expected a s = Inr (r, s')"
  then obtain p v where p: "p \<in> set (db_pages s)" "p_deleted p = None" and v: "find_version (p_id p) vid s = Some v"
    "v_status v = Draft"
    and s': "s' = add_audit (actor_entry a ''publish'' (p_id p) vid (pointer_meta (locked_page_of p) vid None))
            (update_page (p_id p) (set_pointer (db_now s) vid) (set_status vid Approved s))"
    by (auto simp add: publish_tx_Inr dest: lockedD)
  from find_version_Some [OF v(1)] v(2) show "keeps s s'"
    unfolding s' by (auto intro!: keeps_audit_trans keeps_move [OF p, where r = "[]"])
qed

lemma rollback_tx_keeps: "obeys keeps (rollback_tx slug vid expected nt a)"
proof (rule obeysI)
  fix s r s'
  assume "rollback_tx slug vid expected nt a s = Inr (r, s')"
  then obtain p v t where p: "p \<in> set (db_pages s)" "p_deleted p = None" and v: "find_version (p_id p) t s = Some v"
    "v_status v = Approved"
    and s': "s' = add_audit (actor_entry a ''rollback'' (p_id p) t (pointer_meta (locked_page_of p) t nt))
            (update_page (p_id p) (set_pointer (db_now s) t) s)"
    unfolding rollback_tx_Inr by (blast dest: lockedD)
  from find_version_Some [OF v(1)] v(2) show "keeps s s'"
    unfolding s' by (auto intro!: keeps_audit_trans keeps_move [OF p, where r = "[]"])
qed

lemma approve_tx_keeps: "obeys keeps (approve_tx slug vid expected a)"
proof (rule obeysI)
  fix s r s'
  assume "approve_tx slug vid expected a s = Inr (r, s')"
  then obtain p v where p: "p \<in> set (db_pages s)" "p_deleted p = None" and v: "find_version (p_id p) vid s = Some v"
    "v_status v = Pending"
    and s': "s' = add_audit (actor_entry a ''approve'' (p_id p) vid (pointer_meta (locked_page_of p) vid None))
            (update_page (p_id p) (set_pointer (db_now s) vid) (set_review vid Approved (ac_actor a) s))"
    by (auto simp add: approve_tx_Inr dest: lockedD)
  from find_version_Some [OF v(1)] v(2) show "keeps s s'"
    unfolding s' by (auto intro!: keeps_audit_trans keeps_move [OF p, where r = "ac_actor a"])
qed

lemma reject_tx_keeps: "obeys keeps (reject_tx slug vid nt a)"
proof (rule obeysI)
  fix s r s'
  assume "reject_tx slug vid nt a s = Inr (r, s')"
  then obtain p :: page and v where v: "find_version (p_id p) vid s = Some v" "v_status v = Pending \<or> v_status v = Draft"
    and s': "s' = add_audit (actor_entry a ''reject'' (p_id p) vid (reject_meta nt)) (set_review vid Rejected (ac_actor a) s)"
    unfolding reject_tx_Inr by blast
  from find_version_Some [OF v(1)] have vv: "v \<in> set (db_versions s)" "v_id v = vid" by simp_all
  from v(2) have st: "v_status v \<le> Rejected" "v_status v \<noteq> Approved" by (auto simp add: less_eq_version_status_def)
  show "keeps s s'" unfolding s' vv(2) [symmetric]
    by (intro keeps_audit_trans keepsI conjI wf_set_status(2) history_set_status(2)) (use vv(1) st in auto)
qed

lemma change_page_Inr [tx_simps]:
  "change_page pid f a action meta s = Inr (u, s') \<longleftrightarrow>
     s' = add_audit (actor_entry a action pid 0 meta) (update_page pid (\<lambda>p. (f p)\<lparr>p_updated := db_now s\<rparr>) s)"
  by (auto simp add: change_page_def tx_simps)

lemma change_page_keeps:
  assumes "\<And>p. page_refs (f p) = page_refs p" "\<And>p. p_created (f p) = p_created p"
    and "\<And>p. p_workspace (f p) = p_workspace p" "\<And>p. p_theme (f p) = p_theme p"
  shows "obeys keeps (change_page pid f a action meta)"
  by (rule obeysI) (auto simp add: tx_simps page_refs_def intro!: keeps_audit_trans keeps_setting
      assms [unfolded page_refs_def, simplified])

lemma lock_page_keeps: "obeys keeps (lock_page slug)"
  by (rule obeysI) (simp add: tx_simps keep.refl)

lemma audit_write_keeps: "obeys keeps (audit_write e)"
  by (rule obeysI) (simp add: tx_simps keeps_audit)

lemmas keeps_rules = keep.rules lock_page_keeps audit_write_keeps change_page_keeps

lemma set_disabled_tx_keeps: "obeys keeps (set_disabled_tx slug value a)"
  unfolding set_disabled_tx_def by (intro keeps_rules) (simp_all add: page_refs_def)

lemma set_approval_tx_keeps: "obeys keeps (set_approval_tx slug value a)"
  unfolding set_approval_tx_def by (intro keeps_rules) (simp_all add: page_refs_def)

lemma set_password_tx_keeps: "obeys keeps (set_password_tx slug hash sealed a)"
  unfolding set_password_tx_def by (intro keeps_rules) (simp_all add: page_refs_def)

lemma set_title_tx_keeps: "obeys keeps (set_title_tx slug clean a)"
  unfolding set_title_tx_def by (intro keeps_rules) (simp_all add: page_refs_def)

lemma reveal_password_tx_keeps: "obeys keeps (reveal_password_tx env slug a)"
  unfolding reveal_password_tx_def Let_def by (intro keeps_rules)

definition picks_theme :: "db \<Rightarrow> string \<Rightarrow> int \<Rightarrow> bool" where
  "picks_theme s theme tid \<longleftrightarrow>
     (if theme \<noteq> [] \<and> theme \<noteq> ''flag'' then \<exists>t. find_theme theme s = Some t \<and> tid = th_id t else tid = 0)"

lemma picks_themeD: "picks_theme s theme tid \<Longrightarrow> tid = 0 \<or> tid \<in> th_id ` set (db_themes s)"
  by (auto simp add: picks_theme_def find_theme_def dest!: find_Some_mem split: if_splits)

lemma set_theme_tx_Inr:
  "set_theme_tx slug theme a s = Inr (r, s') \<Longrightarrow>
     (\<exists>p tid. locked s slug p \<and> picks_theme s theme tid \<and>
        r = (p_slug p, if theme = [] then ''flag'' else theme) \<and>
        s' = add_audit (actor_entry a ''set_theme'' (p_id p) 0 (VObj [(''theme'', VStr (snd r))]))
          (update_page (p_id p) (\<lambda>p. p\<lparr>p_theme := tid, p_updated := db_now s\<rparr>) s))"
proof -
  have "resolve_theme theme s = Inr (tid, s1) \<longleftrightarrow> s1 = s \<and> picks_theme s theme tid" for tid s1
    by (auto simp add: resolve_theme_def picks_theme_def tx_simps)
  then show "set_theme_tx slug theme a s = Inr (r, s') \<Longrightarrow> ?thesis"
    by (auto simp add: set_theme_tx_def tx_simps Let_def; blast)
qed

lemma set_theme_tx_keeps: "obeys keeps (set_theme_tx slug theme a)"
proof (rule obeysI)
  fix s r s'
  assume "set_theme_tx slug theme a s = Inr (r, s')"
  then obtain p :: page and tid where r: "picks_theme s theme tid"
    and s': "s' = add_audit (actor_entry a ''set_theme'' (p_id p) 0 (VObj [(''theme'', VStr (snd r))]))
        (update_page (p_id p) (\<lambda>p. p\<lparr>p_theme := tid, p_updated := db_now s\<rparr>) s)"
    using set_theme_tx_Inr by blast
  from picks_themeD [OF r] show "keeps s s'"
    unfolding s' by (intro keeps_audit_trans keeps_setting) (auto simp add: page_refs_def)
qed

text \<open>Deletion clears the pointer; restoration brings back the row without it.\<close>

lemma delete_page_tx_Inr:
  "delete_page_tx slug a s = Inr (r, s') \<longleftrightarrow>
     (\<exists>p. locked s slug p \<and> assert_agent_may_move_pointer (locked_page_of p) a = Inr () \<and> r = (p_slug p, True) \<and>
        s' = add_audit (actor_entry a ''delete_page'' (p_id p) 0 (VObj [(''had_published'', id_or_nil (p_published p))]))
          (update_page (p_id p) (\<lambda>p. p\<lparr>p_published := 0, p_deleted := Some (db_now s), p_updated := db_now s\<rparr>) s))"
  by (auto simp add: delete_page_tx_def tx_simps)

lemma restore_page_tx_Inr:
  "restore_page_tx (\<lambda>s. s) slug a s = Inr (r, s') \<longleftrightarrow>
     (\<exists>p. find_live slug s = None \<and> deleted_page slug s = Some p \<and> r = (slug, True) \<and>
        s' = add_audit (actor_entry a ''restore_page'' (p_id p) 0 VNil)
          (update_page (p_id p) (\<lambda>p. p\<lparr>p_deleted := None, p_updated := db_now s\<rparr>) s))"
  by (auto simp add: restore_page_tx_def undelete_def tx_simps)

lemma delete_page_tx_keeps: "obeys keeps (delete_page_tx slug a)"
proof (rule obeysI)
  fix s r s'
  assume "delete_page_tx slug a s = Inr (r, s')"
  then obtain p :: page where s': "s' = add_audit (actor_entry a ''delete_page'' (p_id p) 0 (VObj [(''had_published'', id_or_nil (p_published p))]))
      (update_page (p_id p) (\<lambda>p. p\<lparr>p_published := 0, p_deleted := Some (db_now s), p_updated := db_now s\<rparr>) s)"
    unfolding delete_page_tx_Inr by blast
  show "keeps s s'"
    unfolding s' by (intro keeps_audit_trans keepsI conjI wf_move_pointer history_update_page) (simp_all add: page_key_def)
qed

lemma deleted_page_Some:
  "deleted_page slug s = Some p \<Longrightarrow> p \<in> set (db_pages s) \<and> p_slug p = slug \<and> p_deleted p \<noteq> None"
  by (auto simp add: deleted_page_def dest!: max_by_mem)

text \<open>Un-deleting the one row of a slug that no live page has.\<close>

lemma wf_undelete:
  assumes wf: "wf_db s" and p: "p \<in> set (db_pages s)" "p_deleted p \<noteq> None" "find_live (p_slug p) s = None"
  shows "wf_db (update_page (p_id p) (\<lambda>q. q\<lparr>p_deleted := None, p_updated := now\<rparr>) s)" (is "wf_db (update_page _ ?f s)")
proof -
  have only: "q = p" if "q \<in> set (db_pages s)" "p_id q = p_id p" for q
    using wf_page_unique [OF wf that(1) p(1) that(2)] .
  have mem: "q \<in> set (db_pages (update_page (p_id p) ?f s)) \<Longrightarrow> q = ?f p \<or> q \<in> set (db_pages s) \<and> p_id q \<noteq> p_id p" for q
    using update_page_mem [of q "p_id p" ?f s] only by metis
  have no_live: "p_slug q \<noteq> p_slug p" if "q \<in> set (db_pages s)" "p_deleted q = None" for q
    using p(3) that by (auto simp add: find_live_def find_None_iff live_page_def)
  have ids: "ids_ok (update_page (p_id p) ?f s)" and refs: "refs_ok (update_page (p_id p) ?f s)"
    using wf update_page_ids [of ?f s "p_id p"] update_page_refs [of s ?f "p_id p"] by (simp_all add: wf_db_def)
  have unpub: "p_published p = 0" using wf p(1,2) by (auto simp add: wf_db_def pointers_ok_def)
  have slugs: "slugs_ok (update_page (p_id p) ?f s)"
    unfolding slugs_ok_def live_unique_def
  proof (intro conjI ballI impI)
    fix q assume "q \<in> set (db_pages (update_page (p_id p) ?f s))"
    with wf p(1) show "matches slug_re (p_slug q)" by (auto simp add: wf_db_def slugs_ok_def dest!: mem)
  next
    fix q1 q2
    assume "q1 \<in> set (db_pages (update_page (p_id p) ?f s))" "q2 \<in> set (db_pages (update_page (p_id p) ?f s))"
      "p_deleted q1 = None" "p_deleted q2 = None" "p_slug q1 = p_slug q2"
    with wf no_live show "p_id q1 = p_id q2"
      unfolding wf_db_def slugs_ok_def live_unique_def by (fastforce dest!: mem)
  qed
  have "pointers_ok (update_page (p_id p) ?f s)"
    unfolding pointers_ok_def
  proof (intro ballI impI)
    fix q assume q: "q \<in> set (db_pages (update_page (p_id p) ?f s))" "p_published q \<noteq> 0"
    with mem unpub have "q \<in> set (db_pages s)" by fastforce
    with q(2) wf show "p_deleted q = None \<and> (\<exists>v. points_to (update_page (p_id p) ?f s) q v \<and> v_status v = Approved)"
      by (simp add: wf_db_def pointers_ok_def points_to_def)
  qed
  with ids slugs refs show ?thesis by (simp add: wf_db_def)
qed

lemma restore_page_tx_keeps: "obeys keeps (restore_page_tx (\<lambda>s. s) slug a)"
proof (rule obeysI)
  fix s r s'
  assume "restore_page_tx (\<lambda>s. s) slug a s = Inr (r, s')"
  then obtain p where p: "find_live slug s = None" "deleted_page slug s = Some p"
    and s': "s' = add_audit (actor_entry a ''restore_page'' (p_id p) 0 VNil)
          (update_page (p_id p) (\<lambda>p. p\<lparr>p_deleted := None, p_updated := db_now s\<rparr>) s)"
    unfolding restore_page_tx_Inr by blast
  show "keeps s s'"
    unfolding s' using p deleted_page_Some [OF p(2)]
    by (intro keeps_audit_trans keepsI conjI wf_undelete history_update_page) (auto simp add: page_key_def)
qed

lemma from_prepared_Inr: "from_prepared c k s = (Inr r, s') \<longleftrightarrow> (\<exists>x. c = Inr x \<and> k x s = (Inr r, s'))"
  by (auto simp add: from_prepared_def split: sum.splits)

subsection \<open>Properties\<close>

lemma rollback_Inr:
  "rollback rq slug vid expected note a s = (Inr r, s') \<longleftrightarrow>
     (\<exists>nt. normalize_note note = Inr nt \<and> check_write_admission rq = Inr () \<and>
        rollback_tx slug vid expected nt a (s\<lparr>db_now := rq_now rq\<rparr>) = Inr (r, s'))"
  by (simp add: rollback_def from_prepared_Inr with_tx_Inr)

lemmas mutation_simps = rollback_tx_def publish_tx_def approve_tx_def reject_tx_def resolve_target_def
  rollback_target_def find_version_def lock_version_def normalize_note_def set_status_def set_review_def
  update_version_def update_page_def set_pointer_def

text \<open>
  Rolling back without naming a version restores the newest approved version that is not
  live: no other approved version of the page that is not live is later in (created_at, id)
  order. Only the pointer of that page moves; no version row changes; and a caller that is not a
  human gets there only when the page is neither disabled nor gated.
\<close>

lemma rollback_restores_newest:
  assumes "rollback rq slug 0 expected note a s = (Inr r, s')"
  shows "\<exists>p v. locked s slug p \<and> v \<in> set (db_versions s) \<and> v_page v = p_id p \<and> v_status v = Approved \<and>
     v_id v \<noteq> p_published p \<and>
     (\<forall>w \<in> set (db_versions s). v_page w = p_id p \<and> v_status w = Approved \<and> v_id w \<noteq> p_published p \<longrightarrow>
        (v_created w, v_id w) \<le> (v_created v, v_id v)) \<and>
     db_pages s' = update_where (\<lambda>q. p_id q = p_id p) (set_pointer (rq_now rq) (v_id v)) (db_pages s) \<and>
     db_versions s' = db_versions s \<and> vs_id r = v_id v \<and>
     (ac_type a = audit_user \<or> \<not> p_disabled p \<and> \<not> p_require_approval p)"
proof -
  from assms obtain nt p v t w where p: "locked s slug p" "assert_agent_may_move_pointer (locked_page_of p) a = Inr ()"
    and w: "rollback_target (p_id p) (p_published p) s = Some w" "t = v_id w" "find_version (p_id p) t s = Some v"
    and s': "r = version_columns v" "s' = add_audit (actor_entry a ''rollback'' (p_id p) t (pointer_meta (locked_page_of p) t nt))
            (update_page (p_id p) (set_pointer (rq_now rq) t) (s\<lparr>db_now := rq_now rq\<rparr>))"
    by (auto simp add: rollback_Inr rollback_tx_Inr rollback_target_def)
  let ?c = "filter (\<lambda>v. v_page v = p_id p \<and> v_status v = Approved \<and> v_id v \<noteq> p_published p) (db_versions s)"
  from w(1) have m: "max_by (\<lambda>v. (v_created v, v_id v)) ?c = Some w" by (simp add: rollback_target_def)
  have "w \<in> set ?c" by (rule max_by_mem [OF m])
  moreover have "\<forall>x \<in> set ?c. (v_created x, v_id x) \<le> (v_created w, v_id w)"
    using max_by_ge [OF m] by blast
  moreover have "v_id v = v_id w" using find_version_Some [OF w(3)] w(2) by simp
  ultimately show ?thesis using p s' w(2)
    by (intro exI [of _ p] exI [of _ w])
      (simp add: agent_authority update_page_def add_audit_def; force)
qed

lemma rollback_restores_newest_witness:
  "\<exists>r s' p. rollback ex_request ''acme'' 0 VNil VNil ex_user (ex_db ex_page [ex_version\<lparr>v_id := 3\<rparr>, ex_version]) = (Inr r, s') \<and>
     locked (ex_db ex_page [ex_version\<lparr>v_id := 3\<rparr>, ex_version]) ''acme'' p \<and> p_published p = 5 \<and>
     db_pages s' = [ex_page\<lparr>p_published := 3, p_updated := 100\<rparr>]"
proof -
  let ?s = "ex_db ex_page [ex_version\<lparr>v_id := 3\<rparr>, ex_version]"
  obtain r s' where run: "rollback ex_request ''acme'' 0 VNil VNil ex_user ?s = (Inr r, s')" "vs_id r = 3"
    by (simp add: rollback_def from_prepared_def mutation_simps ex_defs run_simps)
  have "locked ?s ''acme'' q \<longleftrightarrow> q = ex_page" for q by (rule ex_locked) (simp_all add: ex_page_def)
  with rollback_restores_newest [OF run(1)] run(2)
  have "db_pages s' = [set_pointer 100 3 ex_page]" "locked ?s ''acme'' ex_page" by (auto simp add: ex_request_def)
  with run(1) show ?thesis by (intro exI conjI) (assumption | simp add: set_pointer_def ex_page_def)+
qed

text \<open>
  With nothing to go back to (no approved version of the page besides the live one) such a
  rollback answers 409 \<open>no_rollback_target\<close> and leaves the database untouched.
\<close>

lemma rollback_without_target:
  assumes "check_write_admission rq = Inr ()" "normalize_note note = Inr nt" "locked s slug p"
    and "ac_type a = audit_user \<or> \<not> p_disabled p \<and> \<not> p_require_approval p"
    and "\<forall>v \<in> set (db_versions s). v_page v = p_id p \<and> v_status v = Approved \<longrightarrow> v_id v = p_published p"
  shows "rollback rq slug 0 expected note a s = (Inl no_rollback_target, s)"
proof -
  have "lock_page slug (s\<lparr>db_now := rq_now rq\<rparr>) = Inr (locked_page_of p, s\<lparr>db_now := rq_now rq\<rparr>)"
    using assms(3) by (auto simp add: lock_page_Inr)
  moreover have "rollback_target (p_id p) (p_published p) (s\<lparr>db_now := rq_now rq\<rparr>) = None"
    using assms(5) by (auto simp add: rollback_target_def filter_empty_conv)
  ultimately have "rollback_tx slug 0 expected nt a (s\<lparr>db_now := rq_now rq\<rparr>) = Inl no_rollback_target"
    using assms(4) [folded agent_authority [of "locked_page_of p", simplified]]
    by (simp add: rollback_tx_def bind_tx_def then_tx_def lift_tx_def resolve_target_def found_or_def)
  with assms(1,2) show ?thesis by (simp add: rollback_def from_prepared_def with_tx_def)
qed

text \<open>
  C16: an approval is a human's decision on a pending version and puts it live: the version becomes
  approved by that human at that time, the pointer of its page references it, every other version
  row and every other page stays, and an expected version the caller named is the one that was
  live.
\<close>

theorem approve_puts_live:
  assumes "wf_db s" "approve rq slug vid expected a s = (Inr r, s')"
  shows "ac_type a = audit_user \<and>
    (\<exists>p v. locked s slug p \<and> v \<in> set (db_versions s) \<and> v_id v = vid \<and> v_page v = p_id p \<and> v_status v = Pending \<and>
       (is_nullish expected \<or> same_db_id expected (p_published p)) \<and>
       db_versions s' = map (\<lambda>w. if w = v then v\<lparr>v_status := Approved, v_reviewed_by := Some (ac_actor a),
           v_reviewed_at := Some (rq_now rq)\<rparr> else w) (db_versions s) \<and>
       db_pages s' = map (\<lambda>q. if q = p then p\<lparr>p_published := vid, p_updated := rq_now rq\<rparr> else q) (db_pages s))"
proof -
  let ?s = "s\<lparr>db_now := rq_now rq\<rparr>"
  from assms(2) obtain p v where u: "ac_type a = audit_user" and p: "locked s slug p" and v: "find_version (p_id p) vid s = Some v"
    "v_status v = Pending" "assert_expected_version (locked_page_of p) expected = Inr ()"
    and s': "s' = add_audit (actor_entry a ''approve'' (p_id p) vid (pointer_meta (locked_page_of p) vid None))
       (update_page (p_id p) (set_pointer (rq_now rq) vid) (set_review vid Approved (ac_actor a) ?s))"
    by (auto simp add: approve_def from_prepared_Inr with_tx_Inr approve_tx_Inr res_bind_Inr_iff admin_authority)
  from find_version_Some [OF v(1)] have vm: "v \<in> set (db_versions s)" "v_id v = vid" "v_page v = p_id p" by simp_all
  have "w = v \<longleftrightarrow> v_id w = vid" if "w \<in> set (db_versions s)" for w
    using wf_version_unique [OF assms(1) that vm(1)] vm(2) by auto
  moreover have "q = p \<longleftrightarrow> p_id q = p_id p" if "q \<in> set (db_pages s)" for q
    using wf_page_unique [OF assms(1) that] lockedD [OF p] by auto
  ultimately show ?thesis using u p v vm
    by (intro conjI exI [of _ p] exI [of _ v])
      (auto simp add: s' add_audit_def update_page_def set_review_def update_version_def update_where_def set_pointer_def
        expected_version_iff)
qed

theorem approve_puts_live_witness:
  "\<exists>r s'. approve ex_request ''acme'' 6 (VID 5) ex_user
       (ex_db (ex_page\<lparr>p_require_approval := True\<rparr>) [ex_version, ex_version\<lparr>v_id := 6, v_status := Pending\<rparr>]) = (Inr r, s') \<and>
     map p_published (db_pages s') = [6] \<and> map v_status (db_versions s') = [Approved, Approved]"
proof -
  let ?s = "ex_db (ex_page\<lparr>p_require_approval := True\<rparr>) [ex_version, ex_version\<lparr>v_id := 6, v_status := Pending\<rparr>]"
  have wf: "wf_db ?s" by (rule wf_ex_db) (auto simp add: ex_page_def ex_version_def)
  obtain r s' where run: "approve ex_request ''acme'' 6 (VID 5) ex_user ?s = (Inr r, s')"
    by (simp add: approve_def from_prepared_def mutation_simps ex_defs run_simps assert_admin_action_def version_id_required_def)
  have "locked ?s ''acme'' q \<longleftrightarrow> q = ex_page\<lparr>p_require_approval := True\<rparr>" for q
    by (rule ex_locked) (simp_all add: ex_page_def)
  with approve_puts_live [OF wf run] have "map p_published (db_pages s') = [6]" "map v_status (db_versions s') = [Approved, Approved]"
    by (auto simp add: ex_version_def)
  with run show ?thesis by (intro exI conjI)
qed

text \<open>
  C17: what a delete leaves, a restore brings back, except the pointer. When no older tombstone of
  the slug is as recent, an admin's restore of a deleted page succeeds and the tables are those
  before the delete, with the page unpublished: every version row and every setting of the page
  is as it was, and \<open>published_version_id\<close> is NULL until someone publishes again.
\<close>

theorem delete_restore_roundtrip:
  assumes wf: "wf_db s" and del: "delete_page rq slug a s = (Inr r, s1)" and p: "locked s slug p"
    and older: "\<forall>q \<in> set (db_pages s). p_slug q = p_slug p \<longrightarrow> p_deleted q \<noteq> None \<longrightarrow> the (p_deleted q) < rq_now rq"
    and admin: "ac_type b = audit_user" "check_write_admission rq2 = Inr ()" "assert_slug_not_reserved (p_slug p) = Inr ()"
  shows "\<exists>s2. restore_page rq2 slug b s1 = (Inr (p_slug p, True), s2) \<and> db_versions s2 = db_versions s \<and>
    db_pages s2 = map (\<lambda>q. if q = p then p\<lparr>p_published := 0, p_updated := rq_now rq2\<rparr> else q) (db_pages s)"
proof -
  let ?d = "\<lambda>q. q\<lparr>p_published := 0, p_deleted := Some (rq_now rq), p_updated := rq_now rq\<rparr>"
  have pm: "p \<in> set (db_pages s)" "p_deleted p = None" using lockedD [OF p] by simp_all
  have only: "q = p \<longleftrightarrow> p_id q = p_id p" if "q \<in> set (db_pages s)" for q
    using wf_page_unique [OF wf that pm(1)] by auto
  have slug: "normalize_slug (VStr slug) = Inr (p_slug p)" using p by (simp add: locked_def)
  obtain e where s1: "s1 = add_audit e (update_page (p_id p) ?d (s\<lparr>db_now := rq_now rq\<rparr>))"
    using del by (auto simp add: delete_page_def with_tx_Inr delete_page_tx_Inr dest: locked_unique [OF p])
  have pages1: "db_pages s1 = map (\<lambda>q. if q = p then ?d p else q) (db_pages s)"
    using only by (auto simp add: s1 add_audit_def update_page_def update_where_def)
  have "\<not> live_page (p_slug p) q" if "q \<in> set (db_pages s)" "q \<noteq> p" for q
    using wf that pm only unfolding wf_db_def slugs_ok_def live_unique_def live_page_def by metis
  then have none: "find_live (p_slug p) s1 = None"
    by (auto simp add: find_live_def find_None_iff pages1 live_page_def split: if_splits)
  have dp: "?d p \<in> set (filter (\<lambda>q. p_slug q = p_slug p \<and> p_deleted q \<noteq> None) (db_pages s1))"
    using pm by (simp add: pages1)
  then have "filter (\<lambda>q. p_slug q = p_slug p \<and> p_deleted q \<noteq> None) (db_pages s1) \<noteq> []"
    by (metis empty_iff empty_set)
  then obtain m where m: "deleted_page (p_slug p) s1 = Some m" unfolding deleted_page_def by (metis max_by_None not_None_eq)
  have "the (p_deleted (?d p)) \<le> the (p_deleted m)"
    using max_by_ge [OF m [unfolded deleted_page_def], OF dp] by simp
  then have mp: "m = ?d p" using deleted_page_Some [OF m] older by (auto simp add: pages1 split: if_splits)
  let ?t = "s1\<lparr>db_now := rq_now rq2\<rparr>"
  have "find_live (p_slug p) ?t = None" "deleted_page (p_slug p) ?t = Some (?d p)"
    using none m mp by (simp_all add: find_live_def deleted_page_def)
  then obtain e2 where "restore_page rq2 slug b s1 = (Inr (p_slug p, True), add_audit e2
      (update_page (p_id p) (\<lambda>q. q\<lparr>p_deleted := None, p_updated := rq_now rq2\<rparr>) ?t))"
    using admin slug by (auto simp add: restore_page_def from_prepared_Inr with_tx_Inr restore_page_tx_Inr
        res_bind_Inr_iff admin_authority)
  moreover have "db_pages (update_page (p_id p) (\<lambda>q. q\<lparr>p_deleted := None, p_updated := rq_now rq2\<rparr>) ?t) =
      map (\<lambda>q. if q = p then p\<lparr>p_published := 0, p_updated := rq_now rq2\<rparr> else q) (db_pages s)"
    using only pm by (auto simp add: update_page_def update_where_def pages1)
  ultimately show ?thesis by (auto simp add: s1 add_audit_def update_page_def)
qed

theorem delete_restore_roundtrip_witness:
  "\<exists>r s1 s2. delete_page ex_request ''acme'' ex_agent (ex_db ex_page [ex_version]) = (Inr r, s1) \<and>
     restore_page ex_request ''acme'' ex_user s1 = (Inr (''acme'', True), s2) \<and>
     db_versions s2 = [ex_version] \<and> db_pages s2 = [ex_page\<lparr>p_published := 0, p_updated := 100\<rparr>]"
proof -
  let ?s = "ex_db ex_page [ex_version]"
  have wf: "wf_db ?s" by (rule wf_ex_db) (simp_all add: ex_page_def ex_version_def)
  obtain r s1 where del: "delete_page ex_request ''acme'' ex_agent ?s = (Inr r, s1)"
    by (simp add: delete_page_def delete_page_tx_def mutation_simps ex_defs run_simps)
  have lk: "locked ?s ''acme'' ex_page" by (simp add: ex_locked ex_page_def)
  have "assert_slug_not_reserved ''acme'' = Inr ()" by code_simp
  then have "\<exists>s2. restore_page ex_request ''acme'' ex_user s1 = (Inr (''acme'', True), s2) \<and>
     db_versions s2 = [ex_version] \<and> db_pages s2 = [ex_page\<lparr>p_published := 0, p_updated := 100\<rparr>]"
    using delete_restore_roundtrip [OF wf del lk, of ex_user ex_request]
    by (simp add: ex_page_def ex_user_def ex_request_def audit_user_def check_write_admission_def)
  with del show ?thesis by blast
qed

text \<open>
  Setting a page password is for anyone who may write, clearing it is for humans. Nothing
  (absent, null or "") clears both columns; a text of at most 512 UTF-16 units stores its hash and
  the sealed copy; every other value is an error. Nothing but the two columns and updated_at of
  that page changes.
\<close>

lemma set_password_stores:
  assumes "wf_db s" "set_password env rq slug password a s = (Inr r, s')"
  shows "\<exists>p hash sealed. locked s slug p \<and>
    db_pages s' = map (\<lambda>q. if q = p then p\<lparr>p_password_hash := hash, p_password_sealed := sealed, p_updated := rq_now rq\<rparr> else q)
      (db_pages s) \<and> db_versions s' = db_versions s \<and> r = (p_slug p, hash \<noteq> None) \<and>
    (if clearing_password password then ac_type a = audit_user \<and> hash = None \<and> sealed = None
     else \<exists>text h. password = VStr text \<and> utf16_len text \<le> 512 \<and> sec_hash env text = Inr h \<and> hash = Some h \<and>
       sealed = (if sec_seal env text h = [] then None else Some (sec_seal env text h)))"
proof -
  let ?s = "s\<lparr>db_now := rq_now rq\<rparr>"
  from assms(2) obtain hash sealed where n: "new_password env password a = Inr (hash, sealed)"
    and tx: "set_password_tx slug hash sealed a ?s = Inr (r, s')"
    by (auto simp add: set_password_def from_prepared_Inr with_tx_Inr)
  from tx obtain p where p: "locked s slug p" and r: "r = (p_slug p, hash \<noteq> None)"
    and s': "db_versions s' = db_versions s" "db_pages s' = update_where (\<lambda>q. p_id q = p_id p)
      (\<lambda>q. q\<lparr>p_password_hash := hash, p_password_sealed := sealed, p_updated := rq_now rq\<rparr>) (db_pages s)"
    by (auto simp add: set_password_tx_def tx_simps add_audit_def update_page_def)
  have "q = p \<longleftrightarrow> p_id q = p_id p" if "q \<in> set (db_pages s)" for q
    using wf_page_unique [OF assms(1) that] lockedD [OF p] by auto
  then have pages: "db_pages s' = map (\<lambda>q. if q = p
      then p\<lparr>p_password_hash := hash, p_password_sealed := sealed, p_updated := rq_now rq\<rparr> else q) (db_pages s)"
    by (auto simp add: s' update_where_def)
  have "if clearing_password password then ac_type a = audit_user \<and> hash = None \<and> sealed = None
     else \<exists>text h. password = VStr text \<and> utf16_len text \<le> 512 \<and> sec_hash env text = Inr h \<and> hash = Some h \<and>
       sealed = (if sec_seal env text h = [] then None else Some (sec_seal env text h))"
    using n by (auto simp add: new_password_def admin_authority res_bind_Inr_iff split: goval.splits if_splits)
  with p pages s'(1) r show ?thesis by blast
qed

text \<open>The hash and the vault of the examples.\<close>

definition ex_secret :: secret_env where
  "ex_secret = \<lparr>sec_hash = (\<lambda>pw. Inr (''h:'' @ pw)), sec_seal = (\<lambda>pw h. ''s:'' @ pw),
     sec_open = (\<lambda>sealed h. if take 2 sealed = ''s:'' then Some (drop 2 sealed) else None)\<rparr>"

lemma set_password_stores_witness:
  "\<exists>r s' p. set_password ex_secret ex_request ''acme'' (VStr []) ex_user
       (ex_db (ex_page\<lparr>p_password_hash := Some ''h''\<rparr>) [ex_version]) = (Inr r, s') \<and>
     db_pages s' = [p] \<and> p_password_hash p = None \<and> p_password_sealed p = None"
proof -
  let ?p = "ex_page\<lparr>p_password_hash := Some ''h''\<rparr>"
  let ?s = "ex_db ?p [ex_version]"
  have wf: "wf_db ?s" by (rule wf_ex_db) (simp_all add: ex_page_def ex_version_def)
  obtain r s' where run: "set_password ex_secret ex_request ''acme'' (VStr []) ex_user ?s = (Inr r, s')"
    by (simp add: set_password_def from_prepared_def new_password_def clearing_password_def is_nullish_def
        assert_admin_action_def set_password_tx_def change_page_def mutation_simps ex_defs run_simps)
  have "locked ?s ''acme'' q \<longleftrightarrow> q = ?p" for q by (rule ex_locked) (simp_all add: ex_page_def)
  with set_password_stores [OF wf run] have "db_pages s' = [?p\<lparr>p_password_hash := None, p_password_sealed := None, p_updated := 100\<rparr>]"
    by (auto simp add: clearing_password_def ex_request_def)
  with run show ?thesis by (intro exI conjI) (assumption | simp)+
qed



end
