(* ===== verification/Calendar.thy ===== *)
theory Calendar
  imports Prelude
begin

text \<open>
  The part of package \<open>time\<close> the schedule code uses. An instant is an integer: nanoseconds since
  1970-01-01T00:00:00Z. The zero time, which the code uses for "absent", is \<^const>\<open>None\<close> where a
  time may be absent. Every time is UTC, so a calendar day is \<open>t div day_ns\<close>.
\<close>

abbreviation second_ns :: int where "second_ns \<equiv> 1000000000"
abbreviation minute_ns :: int where "minute_ns \<equiv> 60000000000"
abbreviation hour_ns :: int where "hour_ns \<equiv> 3600000000000"
abbreviation day_ns :: int where "day_ns \<equiv> 86400000000000"

definition day_of :: "int \<Rightarrow> int" where
  "day_of t = t div day_ns"

definition minute_of_day :: "int \<Rightarrow> nat" where
  \<comment> \<open>\<open>t.Hour()*60 + t.Minute()\<close>\<close>
  "minute_of_day t = nat (t mod day_ns div minute_ns)"

definition truncate_minute :: "int \<Rightarrow> int" where
  \<comment> \<open>\<open>t.Truncate(time.Minute)\<close>\<close>
  "truncate_minute t = t - t mod minute_ns"

definition at_minute :: "int \<Rightarrow> nat \<Rightarrow> int" where
  \<comment> \<open>minute \<open>k\<close> of a day\<close>
  "at_minute day k = day * day_ns + int k * minute_ns"

definition weekday :: "int \<Rightarrow> nat" where
  \<comment> \<open>Sunday is 0; the first day of the epoch was a Thursday\<close>
  "weekday day = nat ((day + 4) mod 7)"

text \<open>The proleptic Gregorian date of a day: year, month and day of month.\<close>

definition civil :: "int \<Rightarrow> int \<times> nat \<times> nat" where
  "civil day =
     (let z = day + 719468;
          era = z div 146097;
          doe = z mod 146097;
          yoe = (doe - doe div 1460 + doe div 36524 - doe div 146096) div 365;
          doy = doe - (365 * yoe + yoe div 4 - yoe div 100);
          mp = (5 * doy + 2) div 153;
          m = (if mp < 10 then mp + 3 else mp - 9);
          y = yoe + era * 400 + (if m \<le> 2 then 1 else 0) in
      (y, nat m, nat (doy - (153 * mp + 2) div 5 + 1)))"

definition month_of :: "int \<Rightarrow> nat" where
  "month_of day = fst (snd (civil day))"

definition dom_of :: "int \<Rightarrow> nat" where
  "dom_of day = snd (snd (civil day))"

text \<open>\<open>time.Date\<close> on a date, with the day of month counted on from the first.\<close>

definition days_from_civil :: "int \<Rightarrow> int \<Rightarrow> int \<Rightarrow> int" where
  "days_from_civil y m d =
     (let y' = (if m \<le> 2 then y - 1 else y);
          era = y' div 400;
          yoe = y' mod 400;
          mp = (if 2 < m then m - 3 else m + 9);
          doy = (153 * mp + 2) div 5 + d - 1;
          doe = yoe * 365 + yoe div 4 - yoe div 100 + doy in
      era * 146097 + doe - 719468)"

lemma civil_examples:
  "civil 0 = (1970, 1, 1)" "civil 11016 = (2000, 2, 29)" "civil (-1) = (1969, 12, 31)" "weekday 11016 = 2"
  by code_simp+

subsection \<open>Minutes and days\<close>

lemma day_minutes: "day_ns = minute_ns * 1440"
  by simp

lemma day_of_minutes: "day_of t = t div minute_ns div 1440"
  unfolding day_of_def day_minutes by (rule zdiv_zmult2_eq) simp

lemma minute_of_day_minutes: "minute_of_day t = nat (t div minute_ns mod 1440)"
proof -
  have "t mod (minute_ns * 1440) = minute_ns * (t div minute_ns mod 1440) + t mod minute_ns"
    by (rule zmod_zmult2_eq) simp
  moreover have "(minute_ns * x + t mod minute_ns) div minute_ns = x" for x
    by (simp add: div_mult_self4 mod_div_trivial)
  ultimately show ?thesis unfolding minute_of_day_def day_minutes by simp
qed

lemma at_minute_minutes: "at_minute day k = (day * 1440 + int k) * minute_ns"
  by (simp add: at_minute_def algebra_simps)

lemma minute_of_day_less: "minute_of_day t < 1440"
  by (simp add: minute_of_day_minutes nat_less_iff)

lemma day_of_at_minute [simp]: "k < 1440 \<Longrightarrow> day_of (at_minute day k) = day"
  by (simp add: day_of_minutes at_minute_minutes)

lemma minute_of_day_at_minute [simp]: "k < 1440 \<Longrightarrow> minute_of_day (at_minute day k) = k"
  by (simp add: minute_of_day_minutes at_minute_minutes)

lemma at_minute_mod [simp]: "at_minute day k mod minute_ns = 0"
  unfolding at_minute_minutes by (rule mod_mult_self2_is_0)

lemma at_minute_day_of: "t mod minute_ns = 0 \<Longrightarrow> at_minute (day_of t) (minute_of_day t) = t"
  unfolding at_minute_minutes day_of_minutes minute_of_day_minutes
  using div_mult_mod_eq [of "t div minute_ns" 1440] div_mult_mod_eq [of t minute_ns] by simp

lemma truncate_minute_div: "truncate_minute t = t div minute_ns * minute_ns"
  unfolding truncate_minute_def using minus_mod_eq_div_mult by blast

lemma truncate_minute_le: "truncate_minute t \<le> t"
  by (simp add: truncate_minute_def)

lemma truncate_minute_mod [simp]: "truncate_minute t mod minute_ns = 0"
  unfolding truncate_minute_div by (rule mod_mult_self2_is_0)

lemma aligned_le_truncate: "q mod minute_ns = 0 \<Longrightarrow> q \<le> t \<Longrightarrow> q \<le> truncate_minute t"
proof -
  assume q: "q mod minute_ns = 0" "q \<le> t"
  have "q div minute_ns \<le> t div minute_ns" by (rule zdiv_mono1 [OF q(2)]) simp
  moreover have "q = q div minute_ns * minute_ns" using div_mult_mod_eq [of q minute_ns] q(1) by simp
  ultimately show ?thesis unfolding truncate_minute_div by (metis mult_right_mono zero_le_numeral)
qed

lemma after_truncate:
  assumes "q mod minute_ns = 0"
  shows "t < q \<longleftrightarrow> truncate_minute t + minute_ns \<le> q"
proof -
  have q: "q = q div minute_ns * minute_ns" using div_mult_mod_eq [of q minute_ns] assms by simp
  have t: "t = t div minute_ns * minute_ns + t mod minute_ns" by simp
  have r: "0 \<le> t mod minute_ns" "t mod minute_ns < minute_ns" by simp_all
  show ?thesis
  proof (cases "t div minute_ns < q div minute_ns")
    case True
    then have "t div minute_ns + 1 \<le> q div minute_ns" by simp
    with q t r show ?thesis unfolding truncate_minute_div by linarith
  next
    case False
    with q t r show ?thesis unfolding truncate_minute_div by linarith
  qed
qed

lemma at_minute_less_iff:
  "j < 1440 \<Longrightarrow> k < 1440 \<Longrightarrow> at_minute d j < at_minute e k \<longleftrightarrow> d < e \<or> d = e \<and> j < k"
  unfolding at_minute_minutes by (cases d e rule: linorder_cases) auto

lemma at_minute_le_iff:
  "j < 1440 \<Longrightarrow> k < 1440 \<Longrightarrow> at_minute d j \<le> at_minute e k \<longleftrightarrow> d < e \<or> d = e \<and> j \<le> k"
  unfolding at_minute_minutes by (cases d e rule: linorder_cases) auto

subsection \<open>The calendar and its inverse\<close>

definition year_start :: "int \<Rightarrow> int" where
  \<comment> \<open>days of a 400-year era before its year \<open>y\<close>\<close>
  "year_start y = 365 * y + y div 4 - y div 100"

definition year_slope :: "int \<Rightarrow> int" where
  "year_slope d = d - d div 1460 + d div 36524 - d div 146096"

lemma year_slope_mono:
  assumes "x \<le> z"
  shows "year_slope x \<le> year_slope z"
proof -
  have "x - x div 1460 \<le> z - z div 1460" using assms by linarith
  moreover have "u - u div 4 \<le> v - v div 4" if "u \<le> v" for u v :: int using that by linarith
  then have "x div 36524 - x div 36524 div 4 \<le> z div 36524 - z div 36524 div 4"
    using zdiv_mono1 [OF assms, of 36524] by simp
  moreover have "d div 146096 = d div 36524 div 4" for d :: int
    using zdiv_zmult2_eq [of 4 d 36524] by simp
  ultimately show ?thesis by (simp add: year_slope_def)
qed

definition year_end :: "int \<Rightarrow> int" where
  "year_end y = (if y = 399 then 146097 else year_start (y + 1))"

lemma year_table:
  "list_all (\<lambda>y. year_slope (year_start y) div 365 = y \<and> year_slope (year_end y - 1) div 365 = y \<and>
     year_end y \<le> year_start y + 366) [0..399]"
  by code_simp

lemma year_of_era_day:
  assumes "0 \<le> d" "d < 146097"
  defines "y \<equiv> year_slope d div 365"
  shows "0 \<le> y \<and> y < 400 \<and> year_start y \<le> d \<and> d < year_start y + 366"
proof -
  have ex: "d < year_start (int n) \<Longrightarrow> n \<le> 399 \<Longrightarrow> \<exists>z. 0 \<le> z \<and> z < 399 \<and> year_start z \<le> d \<and> d < year_start (z + 1)" for n
  proof (induction n)
    case 0
    with assms(1) show ?case by (simp add: year_start_def)
  next
    case (Suc n)
    show ?case
    proof (cases "d < year_start (int n)")
      case True
      with Suc show ?thesis by simp
    next
      case False
      with Suc.prems show ?thesis by (intro exI [of _ "int n"]) (simp add: add.commute)
    qed
  qed
  have "\<exists>z. 0 \<le> z \<and> z \<le> 399 \<and> year_start z \<le> d \<and> d < year_end z"
  proof (cases "d < year_start 399")
    case True
    with ex [of 399] obtain z where "0 \<le> z" "z < 399" "year_start z \<le> d" "d < year_start (z + 1)" by auto
    then show ?thesis by (intro exI [of _ z]) (simp add: year_end_def)
  next
    case False
    with assms(2) show ?thesis by (intro exI [of _ 399]) (simp add: year_end_def)
  qed
  then obtain z where z: "0 \<le> z" "z \<le> 399" "year_start z \<le> d" "d < year_end z" by blast
  have "z \<in> set [0..399]" using z by simp
  with year_table have t: "year_slope (year_start z) div 365 = z" "year_slope (year_end z - 1) div 365 = z"
    "year_end z \<le> year_start z + 366"
    unfolding list_all_iff by blast+
  have "year_slope (year_start z) div 365 \<le> y" "y \<le> year_slope (year_end z - 1) div 365"
    using z(3,4) by (auto simp add: y_def intro!: zdiv_mono1 year_slope_mono)
  with t have "y = z" by simp
  with z t(3) show ?thesis by simp
qed

lemma month_table:
  "list_all (\<lambda>doy. let mp = (5 * doy + 2) div 153; d = doy - (153 * mp + 2) div 5 + 1 in
     0 \<le> mp \<and> mp \<le> 11 \<and> 1 \<le> d \<and> d \<le> 31) [0..365]"
  by code_simp

lemma month_arith:
  assumes "0 \<le> doy" "doy \<le> (365::int)"
  defines "mp \<equiv> (5 * doy + 2) div 153"
  shows "0 \<le> mp" "mp \<le> 11" "1 \<le> doy - (153 * mp + 2) div 5 + 1" "doy - (153 * mp + 2) div 5 + 1 \<le> 31"
proof -
  have "doy \<in> set [0..365]" using assms(1,2) by simp
  with month_table show "0 \<le> mp" "mp \<le> 11" "1 \<le> doy - (153 * mp + 2) div 5 + 1" "doy - (153 * mp + 2) div 5 + 1 \<le> 31"
    unfolding list_all_iff mp_def Let_def by blast+
qed

definition civil_era :: "int \<Rightarrow> int" where
  "civil_era day = (day + 719468) div 146097"

definition civil_year :: "int \<Rightarrow> int" where
  \<comment> \<open>the year of the era, which begins in March\<close>
  "civil_year day = year_slope ((day + 719468) mod 146097) div 365"

definition civil_doy :: "int \<Rightarrow> int" where
  "civil_doy day = (day + 719468) mod 146097 - year_start (civil_year day)"

definition civil_mp :: "int \<Rightarrow> int" where
  \<comment> \<open>months since March\<close>
  "civil_mp day = (5 * civil_doy day + 2) div 153"

definition civil_month :: "int \<Rightarrow> int" where
  "civil_month day = (if civil_mp day < 10 then civil_mp day + 3 else civil_mp day - 9)"

definition civil_dom :: "int \<Rightarrow> int" where
  "civil_dom day = civil_doy day - (153 * civil_mp day + 2) div 5 + 1"

lemma civil_eq:
  "civil day = (civil_year day + civil_era day * 400 + (if civil_month day \<le> 2 then 1 else 0), nat (civil_month day), nat (civil_dom day))"
  unfolding civil_def Let_def civil_era_def civil_year_def civil_doy_def civil_mp_def civil_month_def civil_dom_def
    year_slope_def year_start_def diff_diff_eq [symmetric] diff_add_eq by (rule refl)

lemma civil_parts:
  "0 \<le> civil_year day" "civil_year day < 400" "0 \<le> civil_mp day" "civil_mp day \<le> 11" "1 \<le> civil_dom day" "civil_dom day \<le> 31"
proof -
  have "0 \<le> (day + 719468) mod 146097" "(day + 719468) mod 146097 < 146097" by simp_all
  from year_of_era_day [OF this, folded civil_year_def]
  have y: "0 \<le> civil_year day" "civil_year day < 400" and doy: "0 \<le> civil_doy day" "civil_doy day \<le> 365"
    by (simp_all add: civil_doy_def)
  from y show "0 \<le> civil_year day" "civil_year day < 400" by blast+
  from month_arith [OF doy] show "0 \<le> civil_mp day" "civil_mp day \<le> 11" "1 \<le> civil_dom day" "civil_dom day \<le> 31"
    unfolding civil_mp_def civil_dom_def by blast+
qed

lemma days_of_parts:
  "days_from_civil (civil_year day + civil_era day * 400 + (if civil_month day \<le> 2 then 1 else 0)) (civil_month day) (civil_dom day) = day"
proof -
  have m: "(if 2 < civil_month day then civil_month day - 3 else civil_month day + 9) = civil_mp day"
    using civil_parts(3,4) [of day] by (simp add: civil_month_def)
  have y: "(civil_year day + civil_era day * 400) div 400 = civil_era day" "(civil_year day + civil_era day * 400) mod 400 = civil_year day"
    using civil_parts(1,2) [of day] by simp_all
  have "(if b then (u + (if b then 1 else 0)) - 1 else u + (if b then 1 else 0)) = u" for b and u :: int by simp
  then have "days_from_civil (civil_year day + civil_era day * 400 + (if civil_month day \<le> 2 then 1 else 0)) (civil_month day) (civil_dom day) =
     civil_era day * 146097 + (year_start (civil_year day) + civil_doy day) - 719468"
    unfolding days_from_civil_def Let_def m by (simp only: y) (simp add: year_start_def civil_dom_def)
  also have "\<dots> = civil_era day * 146097 + (day + 719468) mod 146097 - 719468" by (simp add: civil_doy_def)
  also have "\<dots> = day" unfolding civil_era_def by simp
  finally show ?thesis .
qed

lemma civil_inverse:
  assumes "civil day = (y, m, d)"
  shows "days_from_civil y (int m) (int d) = day" "1 \<le> m" "m \<le> 12" "1 \<le> d" "d \<le> 31"
proof -
  from assms have c: "y = civil_year day + civil_era day * 400 + (if civil_month day \<le> 2 then 1 else 0)"
    "m = nat (civil_month day)" "d = nat (civil_dom day)" by (simp_all add: civil_eq)
  have mo: "1 \<le> civil_month day" "civil_month day \<le> 12" using civil_parts(3,4) [of day] by (simp_all add: civil_month_def)
  show "1 \<le> m" "m \<le> 12" "1 \<le> d" "d \<le> 31" using mo civil_parts(5,6) [of day] by (simp_all add: c nat_le_iff le_nat_iff)
  show "days_from_civil y (int m) (int d) = day"
    using days_of_parts [of day] mo civil_parts(5) [of day] by (simp add: c)
qed

end
