(* ===== verification/Freshness.thy ===== *)
theory Freshness
  imports Mutations Calendar
begin

text \<open>
  \<open>internal/versions/freshness.go\<close>, the timestamps of \<open>internal/jsx/jsx.go\<close> and
  \<open>RecordRefreshCheck\<close> of \<open>internal/versions/mutations.go\<close>: the facts about how old the data of
  a page is. A \<open>time.Time\<close> that may be zero is an option; \<open>nonzero\<close> maps Go's zero time (the
  first instant of year 1) to \<^const>\<open>None\<close>, wherever a computation could produce it.
\<close>

subsection \<open>Instants\<close>

abbreviation ms_ns :: int where "ms_ns \<equiv> 1000000"

definition zero_time :: int where
  "zero_time = days_from_civil 1 1 1 * day_ns"

definition nonzero :: "int \<Rightarrow> int option" where
  "nonzero t = (if t = zero_time then None else Some t)"

definition unix_milli :: "int \<Rightarrow> int" where
  "unix_milli t = t div ms_ns"

definition ms_time :: "int option \<Rightarrow> int option" where
  "ms_time t = (case t of None \<Rightarrow> None | Some t \<Rightarrow> nonzero (unix_milli t * ms_ns))"

definition no_source_yet :: "int option \<Rightarrow> bool" where
  "no_source_yet t = (case t of None \<Rightarrow> False | Some t \<Rightarrow> t div second_ns \<le> 0)"

definition source_stamp :: "int option \<Rightarrow> int option" where
  "source_stamp t = (if no_source_yet t then None else t)"

definition str_ptr :: "string \<Rightarrow> string option" where
  "str_ptr s = (if s = [] then None else Some s)"

abbreviation day_ms :: int where "day_ms \<equiv> 86400000"

text \<open>
  \<open>daysSince\<close> divides in float64; a difference of milliseconds below \<open>2 ^ 50\<close> (35,000 years)
  converts exactly and its quotient is further from the next integer than the rounding error, so
  the floor is the integer quotient.
\<close>

definition days_since :: "int option \<Rightarrow> int \<Rightarrow> int option" where
  "days_since t now =
     (case t of None \<Rightarrow> None
      | Some t \<Rightarrow> Some (let d = (unix_milli now - unix_milli t) div day_ms in if d < 0 then 0 else d))"

subsection \<open>The freshness block\<close>

record freshness_input =
  fi_source_as_of :: "int option"
  fi_refreshed_at :: "int option"
  fi_check_at :: "int option"
  fi_check_outcome :: string
  fi_check_detail :: string
  fi_check_source :: "int option"

record freshness =
  fr_last_check_at :: "int option"
  fr_latest_outcome :: "string option"
  fr_latest_detail :: "string option"
  fr_latest_source :: "int option"
  fr_source_as_of :: "int option"
  fr_refreshed_at :: "int option"
  fr_checked_at :: "int option"
  fr_check_outcome :: "string option"
  fr_check_detail :: "string option"
  fr_check_source :: "int option"
  fr_days_source :: "int option"
  fr_days_refresh :: "int option"
  fr_days_check :: "int option"

definition after :: "int option \<Rightarrow> int option \<Rightarrow> bool" where
  \<comment> \<open>\<open>t.After(u)\<close>: the zero time is before every other\<close>
  "after t u = (case (t, u) of (Some t, Some u) \<Rightarrow> u < t | (Some _, None) \<Rightarrow> True | _ \<Rightarrow> False)"

definition freshness_of :: "freshness_input \<Rightarrow> int \<Rightarrow> freshness option" where
  "freshness_of inp now =
     (let source = ms_time (source_stamp (fi_source_as_of inp));
          refreshed = ms_time (fi_refreshed_at inp);
          last_check = ms_time (fi_check_at inp) in
      if source = None \<and> refreshed = None \<and> last_check = None then None
      else
        let checked =
              (if last_check \<noteq> None \<and> refreshed \<noteq> None
               then (if \<not> after last_check refreshed then refreshed else last_check)
               else if last_check = None then refreshed
               else last_check);
            refresh_is_latest = (refreshed \<noteq> None \<and> (last_check = None \<or> after refreshed last_check));
            check_source = ms_time (source_stamp (fi_check_source inp)) in
        Some
          \<lparr>fr_last_check_at = last_check,
           fr_latest_outcome = (if refresh_is_latest then Some ''updated'' else str_ptr (fi_check_outcome inp)),
           fr_latest_detail = (if refresh_is_latest then None else str_ptr (fi_check_detail inp)),
           fr_latest_source = (if refresh_is_latest then source else check_source),
           fr_source_as_of = source, fr_refreshed_at = refreshed, fr_checked_at = checked,
           fr_check_outcome = str_ptr (fi_check_outcome inp), fr_check_detail = str_ptr (fi_check_detail inp),
           fr_check_source = check_source,
           fr_days_source = days_since source now, fr_days_refresh = days_since refreshed now,
           fr_days_check = days_since checked now\<rparr>)"

subsection \<open>JavaScript's \<open>Date.parse\<close>\<close>

text \<open>
  The groups of \<open>isoDateRE\<close>, as texts, "" when a group did not take part. At every point the next
  byte decides which alternative can match, so the matcher never backtracks.
\<close>

record iso =
  iso_year :: string
  iso_month :: string
  iso_day :: string
  iso_hour :: string
  iso_minute :: string
  iso_second :: string
  iso_frac :: string
  iso_zone :: string

definition digits_exactly :: "nat \<Rightarrow> string \<Rightarrow> (string \<times> string) option" where
  "digits_exactly n s = (if n \<le> length s \<and> list_all is_digit (take n s) then Some (take n s, drop n s) else None)"

definition after_byte :: "char \<Rightarrow> nat \<Rightarrow> string \<Rightarrow> (string \<times> string) option" where
  \<comment> \<open>the byte, then \<open>n\<close> digits\<close>
  "after_byte c n s = (case s of [] \<Rightarrow> None | x # t \<Rightarrow> if x = c then digits_exactly n t else None)"

definition opt_group :: "(string \<Rightarrow> (string \<times> string) option) \<Rightarrow> string \<Rightarrow> string \<times> string" where
  \<comment> \<open>\<open>(?: ... )?\<close>\<close>
  "opt_group p s = (case p s of None \<Rightarrow> ([], s) | Some r \<Rightarrow> r)"

definition iso_year_part :: "string \<Rightarrow> (string \<times> string) option" where
  "iso_year_part s =
     (case s of
        [] \<Rightarrow> None
      | c # t \<Rightarrow>
          if c = CHR ''+'' \<or> c = CHR ''-''
          then map_option (\<lambda>(ds, r). (c # ds, r)) (digits_exactly 6 t)
          else digits_exactly 4 s)"

definition iso_frac_part :: "string \<Rightarrow> (string \<times> string) option" where
  "iso_frac_part s =
     (case s of
        [] \<Rightarrow> None
      | c # t \<Rightarrow> if c = CHR ''.'' \<and> takeWhile is_digit t \<noteq> [] then Some (takeWhile is_digit t, dropWhile is_digit t) else None)"

definition iso_zone_part :: "string \<Rightarrow> (string \<times> string) option" where
  "iso_zone_part s =
     (case s of
        [] \<Rightarrow> None
      | c # t \<Rightarrow>
          if c = CHR ''Z'' then Some (''Z'', t)
          else if c = CHR ''+'' \<or> c = CHR ''-'' then
            Option.bind (digits_exactly 2 t) (\<lambda>(h, r).
            map_option (\<lambda>(m, r). (c # h @ CHR '':'' # m, r)) (after_byte (CHR '':'') 2 r))
          else None)"

definition iso_time_part :: "string \<Rightarrow> ((string \<times> string \<times> string \<times> string \<times> string) \<times> string) option" where
  \<comment> \<open>\<open>T(\d{2}):(\d{2})(?::(\d{2})(?:\.(\d+))?)?(Z|[+-]\d{2}:\d{2})?\<close>\<close>
  "iso_time_part s =
     Option.bind (after_byte (CHR ''T'') 2 s) (\<lambda>(h, r).
     map_option (\<lambda>(m, r).
       let (sec, r) = opt_group (after_byte (CHR '':'') 2) r;
           (frac, r) = (if sec = [] then ([], r) else opt_group iso_frac_part r);
           (zone, r) = opt_group iso_zone_part r in
       ((h, m, sec, frac, zone), r)) (after_byte (CHR '':'') 2 r))"

definition match_iso :: "string \<Rightarrow> iso option" where
  "match_iso s =
     Option.bind (iso_year_part s) (\<lambda>(y, r).
       let (mon, r) = opt_group (after_byte (CHR ''-'') 2) r;
           (d, r) = (if mon = [] then ([], r) else opt_group (after_byte (CHR ''-'') 2) r);
           ((h, m, sec, frac, zone), r) =
             (case iso_time_part r of None \<Rightarrow> (([], [], [], [], []), r) | Some x \<Rightarrow> x) in
       if r \<noteq> [] then None
       else Some \<lparr>iso_year = y, iso_month = mon, iso_day = d, iso_hour = h, iso_minute = m, iso_second = sec,
                  iso_frac = frac, iso_zone = zone\<rparr>)"

definition atoi_or :: "string \<Rightarrow> int \<Rightarrow> int" where
  \<comment> \<open>the closure \<open>atoi\<close>, on an optional sign and digits\<close>
  "atoi_or v d =
     (case v of
        [] \<Rightarrow> d
      | c # t \<Rightarrow>
          if c = CHR ''-'' then - int (dec_value t)
          else if c = CHR ''+'' then int (dec_value t)
          else int (dec_value v))"

definition frac_ms :: "string \<Rightarrow> int" where
  \<comment> \<open>padded to three digits, cut to three\<close>
  "frac_ms frac = (if frac = [] then 0 else int (dec_value (take 3 (frac @ zeros (3 - length frac)))))"

definition zone_offset :: "string \<Rightarrow> int option" where
  \<comment> \<open>minutes east\<close>
  "zone_offset tz =
     (if tz = [] \<or> tz = ''Z'' then Some 0
      else
        let th = int (dec_value (take 2 (drop 1 tz)));
            tm = int (dec_value (take 2 (drop 4 tz))) in
        if 23 < th \<or> 59 < tm then None
        else Some (if hd tz = CHR ''-'' then - (th * 60 + tm) else th * 60 + tm))"

definition iso_fields_ok :: "int \<Rightarrow> int \<Rightarrow> int \<Rightarrow> int \<Rightarrow> int \<Rightarrow> int \<Rightarrow> bool" where
  "iso_fields_ok mon d h m sec ms =
     (\<not> (mon < 1 \<or> 12 < mon \<or> d < 1 \<or> 31 < d \<or> 24 < h \<or> 59 < m \<or> 59 < sec) \<and>
      \<not> (h = 24 \<and> (m \<noteq> 0 \<or> sec \<noteq> 0 \<or> ms \<noteq> 0)))"

definition max_date_ms :: int where "max_date_ms = 8640000000000000"

definition parse_time :: "string \<Rightarrow> int option" where
  "parse_time s =
     (case match_iso s of
        None \<Rightarrow> None
      | Some i \<Rightarrow>
          if iso_year i = ''-000000'' then None
          else
            let mon = atoi_or (iso_month i) 1; d = atoi_or (iso_day i) 1;
                h = atoi_or (iso_hour i) 0; m = atoi_or (iso_minute i) 0; sec = atoi_or (iso_second i) 0;
                ms = frac_ms (iso_frac i) in
            if \<not> iso_fields_ok mon d h m sec ms then None
            else
              (case zone_offset (iso_zone i) of
                 None \<Rightarrow> None
               | Some off \<Rightarrow>
                   let t = days_from_civil (atoi_or (iso_year i) 0) mon d * day_ns +
                           h * hour_ns + m * minute_ns + sec * second_ns + ms * ms_ns - off * minute_ns in
                   if max_date_ms < \<bar>unix_milli t\<bar> then None else nonzero t))"

text \<open>\<open>jsx.FormatTime\<close>: \<open>2006-01-02T15:04:05.000Z\<close>.\<close>

definition pad :: "nat \<Rightarrow> int \<Rightarrow> string" where
  "pad w n =
     (if n < 0 then CHR ''-'' # zeros (w - length (nat_digits (nat (- n)))) @ nat_digits (nat (- n))
      else zeros (w - length (nat_digits (nat n))) @ nat_digits (nat n))"

definition format_time :: "int \<Rightarrow> string" where
  "format_time t =
     (let (y, m, d) = civil (day_of t);
          r = t mod day_ns in
      pad 4 y @ ''-'' @ pad 2 (int m) @ ''-'' @ pad 2 (int d) @ ''T'' @
      pad 2 (r div hour_ns) @ '':'' @ pad 2 (r div minute_ns mod 60) @ '':'' @ pad 2 (r div second_ns mod 60) @ ''.'' @
      pad 3 (r div ms_ns mod 1000) @ ''Z'')"

definition iso_string :: "int option \<Rightarrow> string" where
  "iso_string t = (case t of None \<Rightarrow> [] | Some t \<Rightarrow> format_time (unix_milli t * ms_ns))"

subsection \<open>Stamps round-trip\<close>

lemma nat_digits_length: "n < 10 ^ w \<Longrightarrow> 0 < w \<Longrightarrow> length (nat_digits n) \<le> w"
proof (induction w arbitrary: n)
  case (Suc w)
  show ?case
  proof (cases "n < 10")
    case True
    then show ?thesis by (simp add: nat_digits.simps [of n])
  next
    case False
    with Suc.prems have w: "0 < w" by (cases w) simp_all
    have "n div 10 < 10 ^ w" using Suc.prems(1) by (simp add: div_less_iff_less_mult mult.commute)
    from Suc.IH [OF this w] False show ?thesis by (simp add: nat_digits.simps [of n])
  qed
qed simp

lemma dec_value_pad: "dec_value (zeros k @ ds) = dec_value ds"
proof (induction ds rule: rev_induct)
  case Nil
  show ?case by (induction k) (simp_all add: zeros_def dec_value_def)
next
  case (snoc c ds)
  then show ?case unfolding append_assoc [symmetric] dec_value_snoc by simp
qed

lemma pad_digits:
  assumes "0 \<le> n" "n < 10 ^ w" "0 < w"
  shows "length (pad w n) = w" "list_all is_digit (pad w n)" "dec_value (pad w n) = nat n"
proof -
  have "nat n < 10 ^ w" using assms(1,2) by (simp add: nat_less_iff)
  from nat_digits_length [OF this assms(3)] assms(1) show "length (pad w n) = w" by (simp add: pad_def zeros_def)
  show "list_all is_digit (pad w n)"
    using assms(1) by (auto simp add: pad_def zeros_def list_all_iff nat_digits_all_digits set_replicate_conv_if is_digit_def [of "CHR ''0''"])
  show "dec_value (pad w n) = nat n" using assms(1) by (simp add: pad_def dec_value_pad)
qed

lemma digits_exactly_pad:
  assumes "0 \<le> n" "n < 10 ^ w" "0 < w"
  shows "digits_exactly w (pad w n @ r) = Some (pad w n, r)"
  using pad_digits [OF assms] by (simp add: digits_exactly_def)

lemma atoi_pad:
  assumes "0 \<le> n" "n < 10 ^ w" "0 < w"
  shows "atoi_or (pad w n) d = n"
proof -
  from pad_digits(1) [OF assms] assms(3) obtain c t where ct: "pad w n = c # t" by (cases "pad w n") auto
  with pad_digits(2) [OF assms] have "is_digit c" by simp
  then have "c \<noteq> CHR ''-''" "c \<noteq> CHR ''+''" by (auto simp add: is_digit_def)
  with ct have "atoi_or (pad w n) d = int (dec_value (pad w n))" by (simp add: atoi_or_def)
  with pad_digits(3) [OF assms] assms(1) show ?thesis by simp
qed

lemma pad_not_Nil: "pad w n \<noteq> []"
  by (simp add: pad_def)

lemma match_iso_pads:
  assumes "0 \<le> y" "y < 10 ^ 4" "0 \<le> mo" "mo < 10 ^ 2" "0 \<le> d" "d < 10 ^ 2" "0 \<le> h" "h < 10 ^ 2" "0 \<le> mi" "mi < 10 ^ 2"
    "0 \<le> sec" "sec < 10 ^ 2" "0 \<le> ms" "ms < 10 ^ 3"
  shows "match_iso (pad 4 y @ ''-'' @ pad 2 mo @ ''-'' @ pad 2 d @ ''T'' @ pad 2 h @ '':'' @ pad 2 mi @ '':'' @ pad 2 sec @
      ''.'' @ pad 3 ms @ ''Z'') =
    Some \<lparr>iso_year = pad 4 y, iso_month = pad 2 mo, iso_day = pad 2 d, iso_hour = pad 2 h, iso_minute = pad 2 mi,
      iso_second = pad 2 sec, iso_frac = pad 3 ms, iso_zone = ''Z''\<rparr>"
proof -
  have year: "iso_year_part (pad 4 y @ r) = Some (pad 4 y, r)" for r
  proof -
    have "length (pad 4 y) = 4" "list_all is_digit (pad 4 y)" using assms(1,2) by (auto intro!: pad_digits)
    then obtain c t where ct: "pad 4 y = c # t" "is_digit c" by (cases "pad 4 y") auto
    then have "c \<noteq> CHR ''-''" "c \<noteq> CHR ''+''" by (auto simp add: is_digit_def)
    with ct(1) digits_exactly_pad [OF assms(1,2), of r] show ?thesis by (simp add: iso_year_part_def)
  qed
  have two: "after_byte c 2 (c # pad 2 n @ r) = Some (pad 2 n, r)" if "0 \<le> n" "n < 10 ^ 2" for c n r
    using digits_exactly_pad [OF that] by (simp add: after_byte_def)
  have "takeWhile is_digit (pad 3 ms @ ''Z'') = pad 3 ms" "dropWhile is_digit (pad 3 ms @ ''Z'') = ''Z''"
    using pad_digits(2) [OF assms(13,14)] by (auto simp add: list_all_iff takeWhile_append2 dropWhile_append2 is_digit_def)
  then have frac: "iso_frac_part (CHR ''.'' # pad 3 ms @ ''Z'') = Some (pad 3 ms, ''Z'')"
    by (simp add: iso_frac_part_def pad_not_Nil)
  have zone: "iso_zone_part ''Z'' = Some (''Z'', [])" by (simp add: iso_zone_part_def)
  have tm: "iso_time_part (CHR ''T'' # pad 2 h @ CHR '':'' # pad 2 mi @ CHR '':'' # pad 2 sec @ CHR ''.'' # pad 3 ms @ ''Z'') =
      Some ((pad 2 h, pad 2 mi, pad 2 sec, pad 3 ms, ''Z''), [])"
    using assms by (simp add: iso_time_part_def two opt_group_def pad_not_Nil frac zone)
  show ?thesis using assms by (simp add: match_iso_def year two opt_group_def pad_not_Nil tm)
qed

lemma parse_time_pads:
  assumes "0 \<le> y" "y \<le> 9999" "1 \<le> mo" "mo \<le> 12" "1 \<le> d" "d \<le> 31" "0 \<le> h" "h < 24" "0 \<le> mi" "mi < 60"
    "0 \<le> sec" "sec < 60" "0 \<le> ms" "ms < 1000"
    and t: "days_from_civil y mo d * day_ns + h * hour_ns + mi * minute_ns + sec * second_ns + ms * ms_ns = t"
  shows "parse_time (pad 4 y @ ''-'' @ pad 2 mo @ ''-'' @ pad 2 d @ ''T'' @ pad 2 h @ '':'' @ pad 2 mi @ '':'' @ pad 2 sec @
      ''.'' @ pad 3 ms @ ''Z'') = (if max_date_ms < \<bar>unix_milli t\<bar> then None else nonzero t)"
proof -
  have b: "y < 10 ^ 4" "0 \<le> mo" "mo < 10 ^ 2" "0 \<le> d" "d < 10 ^ 2" "h < 10 ^ 2" "mi < 10 ^ 2" "sec < 10 ^ 2" "ms < 10 ^ 3"
    using assms(1-14) by simp_all
  have four: "length (pad 4 y) = 4" by (rule pad_digits(1)) (use assms(1) b(1) in simp_all)
  then have "pad 4 y \<noteq> ''-000000''" by (auto dest: arg_cong [of _ _ length])
  moreover have "atoi_or (pad 4 y) 0 = y" "atoi_or (pad 2 mo) 1 = mo" "atoi_or (pad 2 d) 1 = d" "atoi_or (pad 2 h) 0 = h"
    "atoi_or (pad 2 mi) 0 = mi" "atoi_or (pad 2 sec) 0 = sec"
    using assms(1-14) b by (simp_all add: atoi_pad)
  moreover have "frac_ms (pad 3 ms) = ms"
    using pad_digits [OF assms(13) b(9)] assms(13) by (simp add: frac_ms_def pad_not_Nil zeros_def)
  moreover have "iso_fields_ok mo d h mi sec ms"
    using assms(1-14) by (simp add: iso_fields_ok_def)
  moreover have "zone_offset ''Z'' = Some 0" by (simp add: zone_offset_def)
  ultimately show ?thesis
    using match_iso_pads [OF assms(1) b(1,2,3,4,5) assms(7) b(6) assms(9) b(7) assms(11) b(8) assms(13) b(9)]
    by (simp only: parse_time_def option.case iso.simps if_False Let_def not_True_eq_False mult_zero_left diff_zero t)
qed

text \<open>The clock fields of a whole number of milliseconds.\<close>

lemma clock_fields:
  fixes t :: int
  assumes "t mod ms_ns = 0"
  defines "r \<equiv> t mod day_ns"
  shows "day_of t * day_ns + r div hour_ns * hour_ns + r div minute_ns mod 60 * minute_ns + r div second_ns mod 60 * second_ns +
      r div ms_ns mod 1000 * ms_ns = t"
    and "0 \<le> r div hour_ns" "r div hour_ns < 24" "0 \<le> r div minute_ns mod 60" "r div minute_ns mod 60 < 60"
    "0 \<le> r div second_ns mod 60" "r div second_ns mod 60 < 60" "0 \<le> r div ms_ns mod 1000" "r div ms_ns mod 1000 < 1000"
proof -
  define q where "q = r div ms_ns"
  have r: "0 \<le> r" "r < day_ns" by (simp_all add: r_def)
  have "r mod ms_ns = t mod ms_ns" unfolding r_def by (rule mod_mod_cancel) (simp add: dvd_def)
  with assms(1) have rq: "r = q * ms_ns" unfolding q_def using div_mult_mod_eq [of r ms_ns] by simp
  have s: "r div second_ns = q div 1000" unfolding q_def using zdiv_zmult2_eq [of 1000 r ms_ns] by simp
  have m: "r div minute_ns = q div 1000 div 60" unfolding s [symmetric] using zdiv_zmult2_eq [of 60 r second_ns] by simp
  have h: "r div hour_ns = q div 1000 div 60 div 60" unfolding m [symmetric] using zdiv_zmult2_eq [of 60 r minute_ns] by simp
  have q: "0 \<le> q" "q < 86400000" using r unfolding rq by linarith+
  have "q = q div 1000 * 1000 + q mod 1000" "q div 1000 = q div 1000 div 60 * 60 + q div 1000 mod 60"
    "q div 1000 div 60 = q div 1000 div 60 div 60 * 60 + q div 1000 div 60 mod 60"
    by simp_all
  moreover have "t = day_of t * day_ns + r" by (simp add: day_of_def r_def)
  ultimately show "day_of t * day_ns + r div hour_ns * hour_ns + r div minute_ns mod 60 * minute_ns +
      r div second_ns mod 60 * second_ns + r div ms_ns mod 1000 * ms_ns = t"
    unfolding h m s q_def [symmetric] using rq by linarith
  have "0 \<le> q div 1000 div 60 div 60" "q div 1000 div 60 div 60 < 24" using q by (simp_all add: div_less_iff_less_mult pos_imp_zdiv_nonneg_iff)
  then show "0 \<le> r div hour_ns" "r div hour_ns < 24" unfolding h by blast+
  show "0 \<le> r div minute_ns mod 60" "r div minute_ns mod 60 < 60" "0 \<le> r div second_ns mod 60" "r div second_ns mod 60 < 60"
    "0 \<le> r div ms_ns mod 1000" "r div ms_ns mod 1000 < 1000"
    by (rule pos_mod_sign pos_mod_bound; simp)+
qed

subsection \<open>Coverage of a version\<close>

definition legacy_html :: "version \<Rightarrow> string option" where
  \<comment> \<open>\<open>CASE WHEN data_sha256 IS NULL AND position('pages-data' IN html) > 0 THEN html END\<close>\<close>
  "legacy_html v = (if v_data_sha v = None \<and> contains_str ''pages-data'' (v_html v) then Some (v_html v) else None)"

definition legacy_managed :: "deploy_env \<Rightarrow> string option \<Rightarrow> go_error + managed option" where
  "legacy_managed env html =
     (case html of
        None \<Rightarrow> Inr None
      | Some h \<Rightarrow>
          if h = [] then Inr None
          else
            (case env_parse env h of
               Inr m \<Rightarrow> Inr (Some m)
             | Inl (Api e) \<Rightarrow> Inr None
             | Inl (Other e) \<Rightarrow> Inl (Other e)))"

definition indexed_or_legacy ::
  "deploy_env \<Rightarrow> int option \<Rightarrow> int option \<Rightarrow> string option \<Rightarrow> go_error + int option \<times> int option" where
  "indexed_or_legacy env source refreshed html =
     (if source = None \<or> refreshed = None then
        res_bind (legacy_managed env html) (\<lambda>mm.
          (case mm of
             None \<Rightarrow> Inr (source, refreshed)
           | Some m \<Rightarrow>
               Inr (if source = None then parse_time (m_source_as_of m) else source,
                    if refreshed = None then parse_time (m_refreshed_at m) else refreshed)))
      else Inr (source, refreshed))"

definition published_version :: "db \<Rightarrow> page \<Rightarrow> version option" where
  \<comment> \<open>\<open>LEFT JOIN page_versions pv ON pv.id = p.published_version_id\<close>\<close>
  "published_version s p = find (\<lambda>v. v_id v = p_published p) (db_versions s)"

definition scan_time :: "int option \<Rightarrow> int option" where
  \<comment> \<open>a \<open>timestamptz\<close> column read into a \<open>jsx.Time\<close>\<close>
  "scan_time t = Option.bind t nonzero"

definition published_coverage :: "deploy_env \<Rightarrow> db \<Rightarrow> page \<Rightarrow> go_error + int option \<times> int option" where
  "published_coverage env s p =
     (case published_version s p of
        None \<Rightarrow> indexed_or_legacy env None None None
      | Some v \<Rightarrow> indexed_or_legacy env (scan_time (v_source_as_of v)) (scan_time (v_refreshed_at v)) (legacy_html v))"

text \<open>\<open>SourceCoverageFloor\<close>: the rows of the two halves of the UNION, then the running maximum.\<close>

definition max_source :: "version list \<Rightarrow> int option" where
  "max_source vs = fold (\<lambda>v m. case v_source_as_of v of None \<Rightarrow> m | Some t \<Rightarrow> if after (Some t) m then Some t else m) vs None"

definition floor_rows :: "int \<Rightarrow> db \<Rightarrow> (int option \<times> string option) list" where
  "floor_rows pid s =
     (let vs = filter (\<lambda>v. v_page v = pid \<and> v_status v \<noteq> Rejected) (db_versions s) in
      (max_source vs, None) #
      map (\<lambda>v. (None, Some (v_html v)))
        (filter (\<lambda>v. v_source_as_of v = None \<and> v_data_sha v = None \<and> contains_str ''pages-data'' (v_html v)) vs))"

fun floor_loop :: "deploy_env \<Rightarrow> (int option \<times> string option) list \<Rightarrow> int option \<Rightarrow> go_error + int option" where
  "floor_loop env [] fl = Inr fl"
| "floor_loop env ((source, html) # rows) fl =
     res_bind (indexed_or_legacy env (scan_time source) None html) (\<lambda>(source, _).
       let v = ms_time source in
       floor_loop env rows (if v \<noteq> None \<and> (fl = None \<or> after v fl) then v else fl))"

definition source_coverage_floor :: "deploy_env \<Rightarrow> int \<Rightarrow> string \<Rightarrow> db \<Rightarrow> go_error + string" where
  "source_coverage_floor env pid current s =
     res_bind (floor_loop env (floor_rows pid s) (if current \<noteq> [] then parse_time current else None)) (\<lambda>fl.
       Inr (iso_string fl))"

subsection \<open>RecordRefreshCheck\<close>

definition check_outcomes :: "string list" where
  "check_outcomes = [''updated'', ''source_not_updated'', ''source_unreachable'', ''blocked'', ''failed'']"

definition max_check_detail :: nat where "max_check_detail = 500"

record check_input =
  ck_slug :: string
  ck_outcome :: string
  ck_detail :: goval
  ck_source :: goval
  ck_now :: "int option"

definition check_detail :: "goval \<Rightarrow> go_error + string option" where
  "check_detail v =
     (if is_nullish v then Inr None
      else
        (case v of
           VStr s \<Rightarrow>
             if js_trim s = [] then Inr None
             else if max_check_detail < utf16_len (js_trim s)
             then Inl (bad_request (''detail must be at most '' @ itoa (int max_check_detail) @ '' characters'')
               ''refresh_check_detail_invalid'' VNil)
             else Inr (Some (js_trim s))
         | _ \<Rightarrow> Inl (bad_request ''detail must be a string'' ''refresh_check_detail_invalid'' VNil)))"

definition check_source :: "goval \<Rightarrow> go_error + int option" where
  \<comment> \<open>the callers pass a text; the \<open>time.Time\<close> case of the switch has no caller\<close>
  "check_source v =
     (if is_nullish v then Inr None
      else
        (case (case v of VStr s \<Rightarrow> parse_time s | _ \<Rightarrow> None) of
           None \<Rightarrow> Inl (bad_request ''source_as_of_seen must be an RFC3339 timestamp'' ''refresh_check_source_invalid'' VNil)
         | Some t \<Rightarrow> Inr (Some t)))"

definition prepare_check :: "check_input \<Rightarrow> go_error + string \<times> string option \<times> int option" where
  "prepare_check inp =
     res_bind (normalize_slug (VStr (ck_slug inp))) (\<lambda>slug.
     res_bind (require (ck_outcome inp \<in> set check_outcomes)
       (bad_request (''outcome must be one of: '' @ join '', '' check_outcomes) ''refresh_check_outcome_invalid'' VNil)) (\<lambda>_.
     res_bind (check_detail (ck_detail inp)) (\<lambda>detail.
     res_bind (check_source (ck_source inp)) (\<lambda>seen.
     Inr (slug, detail, seen)))))"

definition set_check :: "int option \<Rightarrow> string \<Rightarrow> string option \<Rightarrow> int option \<Rightarrow> page \<Rightarrow> page" where
  "set_check at outcome detail seen p =
     p\<lparr>p_check_at := at, p_check_outcome := Some outcome, p_check_detail := detail, p_check_source := seen\<rparr>"

definition check_meta :: "string \<Rightarrow> string option \<Rightarrow> int option \<Rightarrow> goval" where
  "check_meta outcome detail seen =
     VObj [(''outcome'', VStr outcome),
           (''detail'', case detail of None \<Rightarrow> VNil | Some d \<Rightarrow> VStr d),
           (''source_as_of_seen'', case seen of None \<Rightarrow> VNil | Some t \<Rightarrow> VStr (iso_string (Some t)))]"

definition find_page :: "int \<Rightarrow> db \<Rightarrow> page option" where
  "find_page pid s = find (\<lambda>p. p_id p = pid) (db_pages s)"

definition record_check_tx ::
  "deploy_env \<Rightarrow> string \<Rightarrow> string \<Rightarrow> string option \<Rightarrow> int option \<Rightarrow> int \<Rightarrow> actor \<Rightarrow> (string \<times> freshness option) tx" where
  "record_check_tx env slug outcome detail seen now a =
     bind_tx (lock_page slug) (\<lambda>lp.
     then_tx (exec_tx (update_page (lp_id lp) (set_check (ms_time (Some now)) outcome detail seen)))
     (then_tx (audit_write (actor_entry a ''record_refresh_check'' (lp_id lp) 0 (check_meta outcome detail seen)))
     (bind_tx (read_tx (find_page (lp_id lp))) (\<lambda>p.
      bind_tx (read_tx (\<lambda>s. case p of None \<Rightarrow> indexed_or_legacy env None None None | Some p \<Rightarrow> published_coverage env s p)) (\<lambda>c.
      bind_tx (lift_tx c) (\<lambda>(source, refreshed).
      ret (lp_slug lp, freshness_of
        \<lparr>fi_source_as_of = source, fi_refreshed_at = refreshed, fi_check_at = ms_time (Some now),
         fi_check_outcome = outcome, fi_check_detail = deref detail, fi_check_source = seen\<rparr> now)))))))"

definition check_now :: "int \<Rightarrow> check_input \<Rightarrow> int" where
  "check_now clock inp = (case ck_now inp of None \<Rightarrow> clock | Some now \<Rightarrow> now)"

definition record_refresh_check ::
  "deploy_env \<Rightarrow> int \<Rightarrow> request \<Rightarrow> check_input \<Rightarrow> actor \<Rightarrow> db \<Rightarrow> (go_error + string \<times> freshness option) \<times> db" where
  \<comment> \<open>\<open>clock\<close> is \<open>time.Now()\<close>\<close>
  "record_refresh_check env clock rq inp a =
     from_prepared (prepare_check inp) (\<lambda>(slug, detail, seen).
       with_tx rq (record_check_tx env slug (ck_outcome inp) detail seen (check_now clock inp) a))"

lemma record_check_tx_Inr:
  "record_check_tx env slug outcome detail seen now a s = Inr (r, s') \<Longrightarrow>
     (\<exists>p source refreshed. locked s slug p \<and>
        s' = add_audit (actor_entry a ''record_refresh_check'' (p_id p) 0 (check_meta outcome detail seen))
          (update_page (p_id p) (set_check (ms_time (Some now)) outcome detail seen) s) \<and>
        (case find_page (p_id p) s' of None \<Rightarrow> indexed_or_legacy env None None None | Some p \<Rightarrow> published_coverage env s' p) =
          Inr (source, refreshed) \<and>
        r = (p_slug p, freshness_of
          \<lparr>fi_source_as_of = source, fi_refreshed_at = refreshed, fi_check_at = ms_time (Some now),
           fi_check_outcome = outcome, fi_check_detail = deref detail, fi_check_source = seen\<rparr> now))"
  by (auto simp add: record_check_tx_def tx_simps split: prod.splits)

lemma record_check_tx_keeps: "obeys keeps (record_check_tx env slug outcome detail seen now a)"
proof (rule obeysI)
  fix s r s'
  assume "record_check_tx env slug outcome detail seen now a s = Inr (r, s')"
  from record_check_tx_Inr [OF this] obtain p :: page where
    s': "s' = add_audit (actor_entry a ''record_refresh_check'' (p_id p) 0 (check_meta outcome detail seen))
          (update_page (p_id p) (set_check (ms_time (Some now)) outcome detail seen) s)"
    by blast
  show "keeps s s'" unfolding s' by (intro keeps_audit_trans keeps_setting) (simp_all add: set_check_def page_refs_def)
qed

subsection \<open>Properties\<close>

text \<open>
  The freshness block dates the page by the later of its two events. \<open>checked_at\<close> is one of
  the last check and the last refresh and neither is after it; the latest outcome is \<open>updated\<close>
  exactly when the refresh is strictly later than the check (a tie goes to the check, and the
  failure of an older check is never attached to a later refresh); ages are never negative and
  exist exactly for the stamps that exist. Without any stamp there is no block.
\<close>

lemma freshness_latest_event:
  "case freshness_of inp now of
     None \<Rightarrow> ms_time (source_stamp (fi_source_as_of inp)) = None \<and> ms_time (fi_refreshed_at inp) = None \<and>
       ms_time (fi_check_at inp) = None
   | Some f \<Rightarrow>
       fr_checked_at f \<in> {fr_last_check_at f, fr_refreshed_at f} \<and>
       \<not> after (fr_last_check_at f) (fr_checked_at f) \<and> \<not> after (fr_refreshed_at f) (fr_checked_at f) \<and>
       (if after (fr_refreshed_at f) (fr_last_check_at f)
        then fr_latest_outcome f = Some ''updated'' \<and> fr_latest_detail f = None \<and> fr_latest_source f = fr_source_as_of f
        else fr_latest_outcome f = fr_check_outcome f \<and> fr_latest_detail f = fr_check_detail f \<and>
          fr_latest_source f = fr_check_source f) \<and>
       (fr_days_source f = None \<longleftrightarrow> fr_source_as_of f = None) \<and> (fr_days_refresh f = None \<longleftrightarrow> fr_refreshed_at f = None) \<and>
       (fr_days_check f = None \<longleftrightarrow> fr_checked_at f = None) \<and>
       pred_option ((\<le>) 0) (fr_days_source f) \<and> pred_option ((\<le>) 0) (fr_days_refresh f) \<and> pred_option ((\<le>) 0) (fr_days_check f)"
proof -
  have days: "days_since t now = None \<longleftrightarrow> t = None" "pred_option ((\<le>) 0) (days_since t now)" for t
    by (auto simp add: days_since_def Let_def split: option.splits if_splits)
  show ?thesis
    by (auto simp add: freshness_of_def Let_def after_def days split: option.splits if_splits)
qed

lemma parse_format_time:
  assumes "t mod ms_ns = 0" "0 \<le> fst (civil (day_of t))" "fst (civil (day_of t)) \<le> 9999"
  shows "parse_time (format_time t) = nonzero t"
proof -
  obtain y m d where c: "civil (day_of t) = (y, m, d)" by (cases "civil (day_of t)") auto
  note inv = civil_inverse [OF c] and f = clock_fields [OF assms(1)]
  have y: "0 \<le> y" "y \<le> 9999" using assms(2,3) unfolding c by simp_all
  have md: "1 \<le> int m" "int m \<le> 12" "1 \<le> int d" "int d \<le> 31" using inv(2-5) by simp_all
  have "y = civil_year (day_of t) + civil_era (day_of t) * 400 + (if civil_month (day_of t) \<le> 2 then 1 else 0)"
    using c by (simp add: civil_eq)
  with y civil_parts(1,2) [of "day_of t"] have "-1 \<le> civil_era (day_of t)" "civil_era (day_of t) \<le> 25" by (auto split: if_splits)
  then have "-1000000 \<le> day_of t" "day_of t \<le> 4000000" unfolding civil_era_def by linarith+
  moreover have "unix_milli t div 86400000 = day_of t"
    unfolding unix_milli_def day_of_def using zdiv_zmult2_eq [of 86400000 t ms_ns] by simp
  ultimately have "\<not> max_date_ms < \<bar>unix_milli t\<bar>" unfolding max_date_ms_def by linarith
  with parse_time_pads [OF y md f(2-9) f(1) [folded inv(1)]] show ?thesis
    unfolding format_time_def c Let_def prod.case by (simp only: if_False)
qed

text \<open>
  C23: what \<open>FormatTime\<close> writes, \<open>ParseTime\<close> reads: an instant with whole milliseconds in the years 0 to 9999
  round-trips through its text (Go's zero time comes back as absent). The day, month and year of the
  text are those of the proleptic Gregorian calendar.
\<close>

theorem time_roundtrip:
  assumes "t mod ms_ns = 0" "0 \<le> fst (civil (day_of t))" "fst (civil (day_of t)) \<le> 9999"
  shows "parse_time (format_time t) = nonzero t"
  by (rule parse_format_time) (rule assms)+

theorem time_roundtrip_witness:
  "parse_time (format_time 951782400123000000) = Some 951782400123000000"
proof -
  have "day_of 951782400123000000 = 11016" by (simp add: day_of_def)
  then have "fst (civil (day_of 951782400123000000)) = 2000" by (simp add: civil_examples)
  then have "parse_time (format_time 951782400123000000) = nonzero 951782400123000000" by (intro time_roundtrip) simp_all
  moreover have "zero_time \<noteq> 951782400123000000" by code_simp
  ultimately show ?thesis by (simp add: nonzero_def)
qed

text \<open>
  C24: a refresh check says that someone looked and changes nothing else. One of the five outcomes is
  stamped on the four check columns of the page; the pointer, updated_at, every other page and every
  version stay; exactly one audit row is added; and the freshness it answers is that of the
  published coverage, which the check did not move, with this check as the last one.
\<close>

theorem refresh_check_only_stamps:
  assumes wf: "wf_db s" and run: "record_refresh_check env clock rq inp a s = (Inr (slug, fr), s')"
  shows "ck_outcome inp \<in> set check_outcomes \<and>
    (\<exists>p detail seen e source refreshed. p \<in> set (db_pages s) \<and> p_deleted p = None \<and> slug = p_slug p \<and>
       normalize_slug (VStr (ck_slug inp)) = Inr slug \<and>
       db_pages s' = map (\<lambda>q. if q = p then set_check (ms_time (Some (check_now clock inp)))
           (ck_outcome inp) detail seen p else q) (db_pages s) \<and>
       db_versions s' = db_versions s \<and> db_audit s' = db_audit s @ [e] \<and> a_action e = ''record_refresh_check'' \<and>
       published_coverage env s p = Inr (source, refreshed) \<and>
       fr = freshness_of
         \<lparr>fi_source_as_of = source, fi_refreshed_at = refreshed,
          fi_check_at = ms_time (Some (check_now clock inp)),
          fi_check_outcome = ck_outcome inp, fi_check_detail = deref detail, fi_check_source = seen\<rparr>
         (check_now clock inp))"
proof -
  let ?now = "check_now clock inp"
  let ?s = "s\<lparr>db_now := rq_now rq\<rparr>"
  from run obtain n detail seen where n: "prepare_check inp = Inr (n, detail, seen)"
    and tx: "record_check_tx env n (ck_outcome inp) detail seen ?now a ?s = Inr ((slug, fr), s')"
    by (auto simp add: record_refresh_check_def from_prepared_Inr with_tx_Inr)
  from n have slug: "normalize_slug (VStr (ck_slug inp)) = Inr n" and oc: "ck_outcome inp \<in> set check_outcomes"
    by (auto simp add: prepare_check_def res_bind_Inr_iff)
  let ?set = "set_check (ms_time (Some ?now)) (ck_outcome inp) detail seen"
  from record_check_tx_Inr [OF tx] obtain p :: page and source refreshed where p: "locked s n p"
    and s': "s' = add_audit (actor_entry a ''record_refresh_check'' (p_id p) 0 (check_meta (ck_outcome inp) detail seen))
        (update_page (p_id p) ?set ?s)"
    and c: "(case find_page (p_id p) s' of None \<Rightarrow> indexed_or_legacy env None None None | Some p \<Rightarrow> published_coverage env s' p) =
        Inr (source, refreshed)"
    and r: "slug = p_slug p" "fr = freshness_of \<lparr>fi_source_as_of = source, fi_refreshed_at = refreshed, fi_check_at = ms_time (Some ?now),
        fi_check_outcome = ck_outcome inp, fi_check_detail = deref detail, fi_check_source = seen\<rparr> ?now"
    by auto
  have pm: "p \<in> set (db_pages s)" "p_deleted p = None" using lockedD [OF p] by simp_all
  have only: "q = p \<longleftrightarrow> p_id q = p_id p" if "q \<in> set (db_pages s)" for q
    using wf_page_unique [OF wf that pm(1)] by auto
  have pages: "db_pages s' = map (\<lambda>q. if q = p then ?set p else q) (db_pages s)"
    using only by (auto simp add: s' add_audit_def update_page_def update_where_def)
  have "find (\<lambda>q. p_id q = p_id p) (db_pages s) = Some p"
    using wf pm(1) by (intro find_key_eq) (simp_all add: wf_db_def ids_ok_def)
  then have "find_page (p_id p) s' = Some (?set p)"
    unfolding find_page_def s' add_audit_def update_page_def
    using find_update_where [of "\<lambda>q. p_id q = p_id p" "db_pages s" p ?set "\<lambda>q. p_id q = p_id p"] by (simp add: set_check_def)
  with c have "published_coverage env s' (?set p) = Inr (source, refreshed)" by simp
  then have "published_coverage env s p = Inr (source, refreshed)"
    by (simp add: published_coverage_def published_version_def s' add_audit_def update_page_def set_check_def)
  moreover have "slug = n" using p slug.idempotent [OF slug] r(1) by (simp add: locked_def)
  ultimately show ?thesis using oc pm pages r slug
    by (intro conjI exI [of _ p] exI [of _ detail] exI [of _ seen] exI [of _ "audit_row_of (update_page (p_id p) ?set ?s)
          (actor_entry a ''record_refresh_check'' (p_id p) 0 (check_meta (ck_outcome inp) detail seen))"] exI [of _ source] exI [of _ refreshed])
      (simp_all add: s' add_audit_def update_page_def audit_row_of_def actor_entry_def)
qed

definition ex_check :: "string \<Rightarrow> check_input" where
  "ex_check outcome = \<lparr>ck_slug = ''acme'', ck_outcome = outcome, ck_detail = VNil, ck_source = VNil, ck_now = None\<rparr>"

theorem refresh_check_only_stamps_witness:
  "\<exists>slug fr s' p. record_refresh_check ex_env 200 ex_request (ex_check ''blocked'') ex_agent (ex_db ex_page [ex_version]) = (Inr (slug, fr), s') \<and>
     db_pages s' = [p] \<and> p_check_outcome p = Some ''blocked'' \<and> p_published p = 5 \<and> db_versions s' = [ex_version]"
proof -
  let ?s = "ex_db ex_page [ex_version]"
  have wf: "wf_db ?s" by (rule wf_ex_db) (simp_all add: ex_page_def ex_version_def)
  have "prepare_check (ex_check ''blocked'') = Inr (''acme'', None, None)"
    by (simp add: prepare_check_def ex_check_def check_outcomes_def check_detail_def check_source_def is_nullish_def)
  moreover have "contains_str ''pages-data'' ''old'' = False" by code_simp
  ultimately have "\<exists>r s'. record_refresh_check ex_env 200 ex_request (ex_check ''blocked'') ex_agent ?s = (Inr r, s')"
    by (simp add: record_refresh_check_def from_prepared_def record_check_tx_def mutation_simps ex_defs run_simps ex_check_def
        find_page_def set_check_def published_coverage_def published_version_def indexed_or_legacy_def legacy_html_def
        legacy_managed_def scan_time_def)
  then obtain slug fr s' where run: "record_refresh_check ex_env 200 ex_request (ex_check ''blocked'') ex_agent ?s = (Inr (slug, fr), s')"
    by auto
  from refresh_check_only_stamps [OF wf run] obtain p detail seen where
    "p \<in> set (db_pages ?s)" "db_pages s' = map (\<lambda>q. if q = p then set_check (ms_time (Some (check_now 200 (ex_check ''blocked'')))) ''blocked'' detail seen p else q) (db_pages ?s)"
    "db_versions s' = db_versions ?s" by (auto simp add: ex_check_def)
  with run show ?thesis by (auto simp add: set_check_def ex_page_def)
qed

end
