(* ===== verification/Cron.thy ===== *)
theory Cron
  imports Calendar Args "HOL-Library.Word"
begin

text \<open>
  \<open>internal/cron\<close>: five-field cron expressions. A field is a bit set in a \<open>uint64\<close>; a schedule
  answers which minutes it fires in, its latest fire at or before an instant, its first fire
  after one, and the longest gap between fires. The searches walk at most \<open>searchDays\<close> days, so
  the walk is a recursion on that bound.
\<close>

subsection \<open>The schedule\<close>

record schedule =
  sc_source :: string
  sc_minute :: "64 word"
  sc_hour :: "64 word"
  sc_dom :: "64 word"
  sc_month :: "64 word"
  sc_dow :: "64 word"
  sc_dom_star :: bool
  sc_dow_star :: bool
  sc_has_minute :: "bool list"
  sc_has_hour :: "bool list"
  sc_minutes_asc :: "nat list"
  sc_minutes_desc :: "nat list"

definition day_matches :: "schedule \<Rightarrow> int \<Rightarrow> bool" where
  "day_matches s day =
     (if \<not> bit (sc_month s) (month_of day) then False
      else
        let dom = bit (sc_dom s) (dom_of day);
            dow = bit (sc_dow s) (weekday day) in
        if \<not> sc_dom_star s \<and> \<not> sc_dow_star s then dom \<or> dow else dom \<and> dow)"

definition in_day :: "schedule \<Rightarrow> nat \<Rightarrow> bool" where
  \<comment> \<open>\<open>hasHour[t.Hour()] && hasMinute[t.Minute()]\<close> for minute \<open>k\<close> of the day\<close>
  "in_day s k = (sc_has_hour s ! (k div 60) \<and> sc_has_minute s ! (k mod 60))"

definition cron_matches :: "schedule \<Rightarrow> int \<Rightarrow> bool" where
  "cron_matches s t = (day_matches s (day_of t) \<and> in_day s (minute_of_day t))"

definition search_days :: nat where
  "search_days = 8 * 366 + 1"

definition last_in_hour :: "schedule \<Rightarrow> nat \<Rightarrow> nat \<Rightarrow> nat option" where
  \<comment> \<open>the first of hour \<open>h\<close>'s minutes, from 59 down, that is not after \<open>limit\<close>\<close>
  "last_in_hour s limit h =
     (if sc_has_hour s ! h
      then map_option (\<lambda>m. h * 60 + m) (find (\<lambda>m. h * 60 + m \<le> limit) (sc_minutes_desc s)) else None)"

fun prev_hour :: "schedule \<Rightarrow> nat \<Rightarrow> nat \<Rightarrow> nat option" where
  \<comment> \<open>the hours from \<open>h\<close> down\<close>
  "prev_hour s limit h =
     (case last_in_hour s limit h of
        Some k \<Rightarrow> Some k
      | None \<Rightarrow> (case h of 0 \<Rightarrow> None | Suc h' \<Rightarrow> prev_hour s limit h'))"

declare prev_hour.simps [simp del]

fun prev_days :: "schedule \<Rightarrow> nat \<Rightarrow> int \<Rightarrow> nat \<Rightarrow> int option" where
  "prev_days s 0 day limit = None"
| "prev_days s (Suc n) day limit =
     (case (if day_matches s day then prev_hour s limit (limit div 60) else None) of
        Some k \<Rightarrow> Some (at_minute day k)
      | None \<Rightarrow> prev_days s n (day - 1) (23 * 60 + 59))"

definition prev :: "schedule \<Rightarrow> int \<Rightarrow> int option" where
  "prev s t =
     (let t' = truncate_minute t in prev_days s search_days (day_of t') (minute_of_day t'))"

definition first_in_hour :: "schedule \<Rightarrow> nat \<Rightarrow> nat \<Rightarrow> nat option" where
  "first_in_hour s floor h =
     (if sc_has_hour s ! h
      then map_option (\<lambda>m. h * 60 + m) (find (\<lambda>m. floor \<le> h * 60 + m) (sc_minutes_asc s)) else None)"

function next_hour :: "schedule \<Rightarrow> nat \<Rightarrow> nat \<Rightarrow> nat option" where
  "next_hour s floor h =
     (if 24 \<le> h then None
      else case first_in_hour s floor h of
        Some k \<Rightarrow> Some k
      | None \<Rightarrow> next_hour s floor (h + 1))"
  by pat_completeness auto
termination
  by (relation "measure (\<lambda>(s, floor, h). 24 - h)") auto

declare next_hour.simps [simp del]

fun next_days :: "schedule \<Rightarrow> nat \<Rightarrow> int \<Rightarrow> nat \<Rightarrow> int option" where
  "next_days s 0 day floor = None"
| "next_days s (Suc n) day floor =
     (case (if day_matches s day then next_hour s floor (floor div 60) else None) of
        Some k \<Rightarrow> Some (at_minute day k)
      | None \<Rightarrow> next_days s n (day + 1) 0)"

definition next_fire :: "schedule \<Rightarrow> int \<Rightarrow> int option" where
  \<comment> \<open>\<open>Next\<close>\<close>
  "next_fire s t =
     (let t' = truncate_minute t + minute_ns in next_days s search_days (day_of t') (minute_of_day t'))"

abbreviation week_ns :: int where "week_ns \<equiv> 604800000000000"

fun gap_loop :: "schedule \<Rightarrow> int \<Rightarrow> nat \<Rightarrow> int option \<Rightarrow> int \<Rightarrow> int" where
  "gap_loop s from 0 later widest = widest"
| "gap_loop s from (Suc n) None widest = widest"
| "gap_loop s from (Suc n) (Some later) widest =
     (case prev s (later - minute_ns) of
        None \<Rightarrow> widest
      | Some earlier \<Rightarrow>
          let widest' = (if widest < later - earlier then later - earlier else widest) in
          if earlier \<le> from then widest' else gap_loop s from n (Some earlier) widest')"

definition max_gap :: "schedule \<Rightarrow> int \<Rightarrow> int" where
  "max_gap s t = gap_loop s (t - week_ns) (7 * 24 * 60 + 1) (prev s t) 0"

subsection \<open>Parsing\<close>

text \<open>The failures of \<open>Parse\<close>, one per message, with what the message quotes.\<close>

datatype cron_error =
    Too_Long
  | Field_Count nat
  | Empty_Item string string
  | Bad_Step string string nat
  | Single_Step string string string nat nat
  | Not_A_Number string string
  | Outside string string nat nat
  | Never_Fires string

record cron_field =
  cf_name :: string
  cf_min :: nat
  cf_max :: nat

definition cron_fields :: "cron_field list" where
  "cron_fields =
     [\<lparr>cf_name = ''minute'', cf_min = 0, cf_max = 59\<rparr>,
      \<lparr>cf_name = ''hour'', cf_min = 0, cf_max = 23\<rparr>,
      \<lparr>cf_name = ''day-of-month'', cf_min = 1, cf_max = 31\<rparr>,
      \<lparr>cf_name = ''month'', cf_min = 1, cf_max = 12\<rparr>,
      \<lparr>cf_name = ''day-of-week'', cf_min = 0, cf_max = 7\<rparr>]"

definition number :: "string \<Rightarrow> nat option" where
  "number s = (if s = [] \<or> 2 < length s \<or> \<not> list_all is_digit s then None else Some (dec_value s))"

definition cut_byte :: "char \<Rightarrow> string \<Rightarrow> string \<times> string option" where
  \<comment> \<open>\<open>strings.Cut\<close>: what is before the first \<open>c\<close>, and what is after it when there is one\<close>
  "cut_byte c s =
     (takeWhile (\<lambda>x. x \<noteq> c) s,
      case dropWhile (\<lambda>x. x \<noteq> c) s of [] \<Rightarrow> None | _ # after \<Rightarrow> Some after)"

function set_steps :: "nat \<Rightarrow> nat \<Rightarrow> nat \<Rightarrow> 64 word \<Rightarrow> 64 word" where
  \<comment> \<open>\<open>for v := lo; v <= hi; v += step\<close>, with \<open>bits |= 1 << v\<close>\<close>
  "set_steps v hi step bits =
     (if v \<le> hi \<and> 0 < step then set_steps (v + step) hi step (set_bit v bits) else bits)"
  by pat_completeness auto
termination
  by (relation "measure (\<lambda>(v, hi, step, bits). Suc hi - v)") auto

declare set_steps.simps [simp del]

definition item_step :: "cron_field \<Rightarrow> string \<Rightarrow> cron_error + string \<times> nat" where
  \<comment> \<open>the range part and the step\<close>
  "item_step f item =
     (case cut_byte (CHR ''/'') item of
        (_, None) \<Rightarrow> Inr (item, 1)
      | (rng, Some step) \<Rightarrow>
          (case number step of
             None \<Rightarrow> Inl (Bad_Step (cf_name f) item (cf_max f))
           | Some n \<Rightarrow>
               if n < 1 \<or> cf_max f < n then Inl (Bad_Step (cf_name f) item (cf_max f))
               else if rng \<noteq> ''*'' \<and> CHR ''-'' \<notin> set rng then Inl (Single_Step (cf_name f) item rng (cf_max f) n)
               else Inr (rng, n)))"

definition item_range :: "cron_field \<Rightarrow> string \<Rightarrow> string \<Rightarrow> cron_error + nat \<times> nat" where
  "item_range f item rng =
     (if rng = ''*'' then Inr (cf_min f, cf_max f)
      else
        let (a, b) = cut_byte (CHR ''-'') rng;
            hi = (case b of None \<Rightarrow> number a | Some b \<Rightarrow> number b) in
        (case (number a, hi) of
           (Some lo, Some hi) \<Rightarrow>
             if lo < cf_min f \<or> cf_max f < hi \<or> hi < lo
             then Inl (Outside (cf_name f) item (cf_min f) (cf_max f))
             else Inr (lo, hi)
         | _ \<Rightarrow> Inl (Not_A_Number (cf_name f) item)))"

fun parse_items :: "cron_field \<Rightarrow> string \<Rightarrow> string list \<Rightarrow> 64 word \<Rightarrow> cron_error + 64 word" where
  "parse_items f text [] bits = Inr bits"
| "parse_items f text (item # items) bits =
     (if item = [] then Inl (Empty_Item (cf_name f) text)
      else
        (case item_step f item of
           Inl e \<Rightarrow> Inl e
         | Inr (rng, step) \<Rightarrow>
             (case item_range f item rng of
                Inl e \<Rightarrow> Inl e
              | Inr (lo, hi) \<Rightarrow> parse_items f text items (set_steps lo hi step bits))))"

definition parse_field :: "string \<Rightarrow> cron_field \<Rightarrow> cron_error + 64 word" where
  "parse_field text f = parse_items f text (split_on (CHR '','') text) 0"

fun parse_fields :: "string list \<Rightarrow> cron_field list \<Rightarrow> cron_error + 64 word list" where
  "parse_fields (part # parts) (f # fs) =
     (case parse_field part f of
        Inl e \<Rightarrow> Inl e
      | Inr bits \<Rightarrow>
          (case parse_fields parts fs of Inl e \<Rightarrow> Inl e | Inr sets \<Rightarrow> Inr (bits # sets)))"
| "parse_fields _ _ = Inr []"

definition sunday_too :: "64 word \<Rightarrow> 64 word" where
  \<comment> \<open>7 is Sunday too\<close>
  "sunday_too dow = (if bit dow 7 then unset_bit 7 (set_bit 0 dow) else dow)"

definition schedule_of :: "string list \<Rightarrow> 64 word list \<Rightarrow> schedule" where
  "schedule_of parts sets =
     \<lparr>sc_source = join '' '' parts,
      sc_minute = sets ! 0, sc_hour = sets ! 1, sc_dom = sets ! 2, sc_month = sets ! 3,
      sc_dow = sunday_too (sets ! 4),
      sc_dom_star = has_prefix ''*'' (parts ! 2), sc_dow_star = has_prefix ''*'' (parts ! 4),
      sc_has_minute = map (bit (sets ! 0)) [0..<60],
      sc_has_hour = map (bit (sets ! 1)) [0..<24],
      sc_minutes_asc = filter (bit (sets ! 0)) [0..<60],
      sc_minutes_desc = rev (filter (bit (sets ! 0)) [0..<60])\<rparr>"

definition max_length :: nat where "max_length = 100"

definition year_2000 :: int where
  \<comment> \<open>\<open>time.Date(2000, 1, 1, ...)\<close>\<close>
  "year_2000 = days_from_civil 2000 1 1 * day_ns"

definition parse_schedule :: "string \<Rightarrow> cron_error + schedule" where
  \<comment> \<open>\<open>Parse\<close>\<close>
  "parse_schedule expr =
     (if max_length < length expr then Inl Too_Long
      else
        let parts = go_fields expr in
        if length parts \<noteq> 5 then Inl (Field_Count (length parts))
        else
          (case parse_fields parts cron_fields of
             Inl e \<Rightarrow> Inl e
           | Inr sets \<Rightarrow>
               let s = schedule_of parts sets in
               if next_fire s year_2000 = None then Inl (Never_Fires (sc_source s)) else Inr s))"

text \<open>The wording of \<open>Error\<close>; \<open>%q\<close>, \<open>strconv.Quote\<close>, is an argument.\<close>

definition cron_error_text :: "(string \<Rightarrow> string) \<Rightarrow> cron_error \<Rightarrow> string" where
  "cron_error_text q e =
     (case e of
        Too_Long \<Rightarrow> ''a cron expression is at most '' @ itoa (int max_length) @ '' characters''
      | Field_Count n \<Rightarrow>
          ''a cron expression has exactly five fields (minute hour day-of-month month day-of-week), e.g. '' @
          [CHR 0x22] @ ''30 14 * * *'' @ [CHR 0x22] @ ''; got '' @ itoa (int n)
      | Empty_Item name text \<Rightarrow> ''the '' @ name @ '' field '' @ q text @ '' has an empty list item''
      | Bad_Step name item hi \<Rightarrow>
          ''the '' @ name @ '' field '' @ q item @ '' has an invalid step (use a number from 1 to '' @ itoa (int hi) @ '')''
      | Single_Step name item rng hi n \<Rightarrow>
          ''the '' @ name @ '' field '' @ q item @ '' steps from a single number; write a range ('' @ rng @ ''-'' @
          itoa (int hi) @ ''/'' @ itoa (int n) @ '') or */'' @ itoa (int n)
      | Not_A_Number name item \<Rightarrow>
          ''the '' @ name @ '' field '' @ q item @
          '' is not a number, range, list or step (names such as MON or JAN are not accepted)''
      | Outside name item lo hi \<Rightarrow>
          ''the '' @ name @ '' field '' @ q item @ '' is outside '' @ itoa (int lo) @ ''-'' @ itoa (int hi)
      | Never_Fires src \<Rightarrow> q src @ '' never fires: no month it names has that day'')"

subsection \<open>The latest and the first of a set\<close>

definition is_latest :: "('a::linorder \<Rightarrow> bool) \<Rightarrow> 'a option \<Rightarrow> bool" where
  "is_latest P x = (case x of None \<Rightarrow> \<forall>y. \<not> P y | Some m \<Rightarrow> P m \<and> (\<forall>y. P y \<longrightarrow> y \<le> m))"

definition is_first :: "('a::linorder \<Rightarrow> bool) \<Rightarrow> 'a option \<Rightarrow> bool" where
  "is_first P x = (case x of None \<Rightarrow> \<forall>y. \<not> P y | Some m \<Rightarrow> P m \<and> (\<forall>y. P y \<longrightarrow> m \<le> y))"

lemma is_latest_cong: "(\<And>y. P y \<longleftrightarrow> Q y) \<Longrightarrow> is_latest P x \<longleftrightarrow> is_latest Q x"
  by (simp add: is_latest_def split: option.splits)

lemma is_first_cong: "(\<And>y. P y \<longleftrightarrow> Q y) \<Longrightarrow> is_first P x \<longleftrightarrow> is_first Q x"
  by (simp add: is_first_def split: option.splits)

lemma is_latest_or:
  assumes "is_latest P x" "is_latest Q y" "\<And>p q. P p \<Longrightarrow> Q q \<Longrightarrow> q \<le> p"
  shows "is_latest (\<lambda>z. P z \<or> Q z) (case x of Some m \<Rightarrow> Some m | None \<Rightarrow> y)"
  using assms by (auto simp add: is_latest_def split: option.splits)

lemma is_first_or:
  assumes "is_first P x" "is_first Q y" "\<And>p q. P p \<Longrightarrow> Q q \<Longrightarrow> p \<le> q"
  shows "is_first (\<lambda>z. P z \<or> Q z) (case x of Some m \<Rightarrow> Some m | None \<Rightarrow> y)"
  using assms by (auto simp add: is_first_def split: option.splits)

lemma is_latest_none: "is_latest (\<lambda>y. False) None"
  by (simp add: is_latest_def)

lemma is_first_none: "is_first (\<lambda>y. False) None"
  by (simp add: is_first_def)

lemma is_latest_image:
  assumes "is_latest P x" "\<And>a b. f a \<le> f b \<longleftrightarrow> a \<le> b"
  shows "is_latest (\<lambda>y. \<exists>a. y = f a \<and> P a) (map_option f x)"
  using assms by (auto simp add: is_latest_def split: option.splits)

lemma is_first_image:
  assumes "is_first P x" "\<And>a b. f a \<le> f b \<longleftrightarrow> a \<le> b"
  shows "is_first (\<lambda>y. \<exists>a. y = f a \<and> P a) (map_option f x)"
  using assms by (auto simp add: is_first_def split: option.splits)

lemma find_first: "sorted xs \<Longrightarrow> is_first (\<lambda>x. x \<in> set xs \<and> P x) (find P xs)"
  by (induction xs) (auto simp add: is_first_def split: option.splits)

lemma find_latest: "sorted (rev xs) \<Longrightarrow> is_latest (\<lambda>x. x \<in> set xs \<and> P x) (find P xs)"
  by (induction xs) (auto simp add: is_latest_def sorted_append split: option.splits)

subsection \<open>The searches\<close>

definition wf_schedule :: "schedule \<Rightarrow> bool" where
  "wf_schedule s \<longleftrightarrow>
     sc_has_minute s = map (bit (sc_minute s)) [0..<60] \<and> sc_has_hour s = map (bit (sc_hour s)) [0..<24] \<and>
     sc_minutes_asc s = filter (bit (sc_minute s)) [0..<60] \<and>
     sc_minutes_desc s = rev (filter (bit (sc_minute s)) [0..<60])"

lemma in_day_eq:
  "wf_schedule s \<Longrightarrow> k < 1440 \<Longrightarrow> in_day s k \<longleftrightarrow> bit (sc_hour s) (k div 60) \<and> bit (sc_minute s) (k mod 60)"
  by (simp add: in_day_def wf_schedule_def nth_map div_less_iff_less_mult)

definition in_hour :: "schedule \<Rightarrow> nat \<Rightarrow> nat \<Rightarrow> bool" where
  \<comment> \<open>minute \<open>k\<close> of the day fires and lies in hour \<open>h\<close>\<close>
  "in_hour s h k \<longleftrightarrow> k div 60 = h \<and> in_day s k"

lemma minutes_in_day:
  assumes "wf_schedule s" "h < 24" "bit (sc_hour s) h"
  shows "m \<in> set (sc_minutes_desc s) \<longleftrightarrow> m < 60 \<and> in_day s (h * 60 + m)"
    "m \<in> set (sc_minutes_asc s) \<longleftrightarrow> m < 60 \<and> in_day s (h * 60 + m)"
  using assms in_day_eq [OF assms(1), of "h * 60 + m"] by (auto simp add: wf_schedule_def)

lemma minutes_sorted: "wf_schedule s \<Longrightarrow> sorted (sc_minutes_asc s)" "wf_schedule s \<Longrightarrow> sorted (rev (sc_minutes_desc s))"
  using sorted_filter [of "\<lambda>x. x" "[0..<60]" "bit (sc_minute s)"] by (simp_all add: wf_schedule_def)

lemma minute_in_hour: "(\<exists>m. k = h * 60 + m \<and> m < 60 \<and> P (h * 60 + m)) \<longleftrightarrow> k div 60 = h \<and> P k" for k :: nat
proof
  assume "k div 60 = h \<and> P k"
  then show "\<exists>m. k = h * 60 + m \<and> m < 60 \<and> P (h * 60 + m)"
    by (intro exI [of _ "k mod 60"]) auto
qed auto

lemma silent_hour:
  assumes "wf_schedule s" "h < 24" "\<not> bit (sc_hour s) h"
  shows "\<not> in_hour s h k"
  using in_day_eq [OF assms(1), of k] assms(2,3) by (auto simp add: in_hour_def div_less_iff_less_mult)

lemma last_in_hour_latest:
  assumes wf: "wf_schedule s" and h: "h < 24"
  shows "is_latest (\<lambda>k. in_hour s h k \<and> k \<le> limit) (last_in_hour s limit h)"
proof (cases "bit (sc_hour s) h")
  case True
  have "is_latest (\<lambda>m. m < 60 \<and> in_day s (h * 60 + m) \<and> h * 60 + m \<le> limit) (find (\<lambda>m. h * 60 + m \<le> limit) (sc_minutes_desc s))"
    using find_latest [OF minutes_sorted(2) [OF wf], of "\<lambda>m. h * 60 + m \<le> limit"]
    by (simp add: minutes_in_day [OF wf h True] conj_assoc)
  then have "is_latest (\<lambda>k. \<exists>m. k = h * 60 + m \<and> m < 60 \<and> in_day s (h * 60 + m) \<and> h * 60 + m \<le> limit)
    (map_option (\<lambda>m. h * 60 + m) (find (\<lambda>m. h * 60 + m \<le> limit) (sc_minutes_desc s)))"
    by (rule is_latest_image) simp
  with True wf h show ?thesis
    unfolding minute_in_hour [where P = "\<lambda>k. in_day s k \<and> k \<le> limit"]
    by (simp add: last_in_hour_def in_hour_def wf_schedule_def conj_assoc)
next
  case False
  with wf h silent_hour [OF wf h False] show ?thesis by (simp add: last_in_hour_def wf_schedule_def is_latest_def)
qed

lemma first_in_hour_first:
  assumes wf: "wf_schedule s" and h: "h < 24"
  shows "is_first (\<lambda>k. in_hour s h k \<and> floor \<le> k) (first_in_hour s floor h)"
proof (cases "bit (sc_hour s) h")
  case True
  have "is_first (\<lambda>m. m < 60 \<and> in_day s (h * 60 + m) \<and> floor \<le> h * 60 + m) (find (\<lambda>m. floor \<le> h * 60 + m) (sc_minutes_asc s))"
    using find_first [OF minutes_sorted(1) [OF wf], of "\<lambda>m. floor \<le> h * 60 + m"]
    by (simp add: minutes_in_day [OF wf h True] conj_assoc)
  then have "is_first (\<lambda>k. \<exists>m. k = h * 60 + m \<and> m < 60 \<and> in_day s (h * 60 + m) \<and> floor \<le> h * 60 + m)
    (map_option (\<lambda>m. h * 60 + m) (find (\<lambda>m. floor \<le> h * 60 + m) (sc_minutes_asc s)))"
    by (rule is_first_image) simp
  with True wf h show ?thesis
    unfolding minute_in_hour [where P = "\<lambda>k. in_day s k \<and> floor \<le> k"]
    by (simp add: first_in_hour_def in_hour_def wf_schedule_def conj_assoc)
next
  case False
  with wf h silent_hour [OF wf h False] show ?thesis by (simp add: first_in_hour_def wf_schedule_def is_first_def)
qed

lemma prev_hour_latest:
  "wf_schedule s \<Longrightarrow> h < 24 \<Longrightarrow> is_latest (\<lambda>k. k div 60 \<le> h \<and> in_day s k \<and> k \<le> limit) (prev_hour s limit h)"
proof (induction h)
  case 0
  from last_in_hour_latest [OF 0, of limit] show ?case
    by (subst prev_hour.simps) (simp add: in_hour_def is_latest_def conj_assoc split: option.splits)
next
  case (Suc h)
  have low: "is_latest (\<lambda>k. k div 60 \<le> h \<and> in_day s k \<and> k \<le> limit) (prev_hour s limit h)"
    using Suc by simp
  have "is_latest (\<lambda>k. in_hour s (Suc h) k \<and> k \<le> limit \<or> k div 60 \<le> h \<and> in_day s k \<and> k \<le> limit)
    (case last_in_hour s limit (Suc h) of Some m \<Rightarrow> Some m | None \<Rightarrow> prev_hour s limit h)"
  proof (rule is_latest_or [OF last_in_hour_latest [OF Suc.prems] low])
    fix p q assume "in_hour s (Suc h) p \<and> p \<le> limit" "q div 60 \<le> h \<and> in_day s q \<and> q \<le> limit"
    then have "q div 60 < p div 60" by (simp add: in_hour_def)
    then show "q \<le> p" by (meson div_le_mono leD linorder_le_cases)
  qed
  then show ?case
    unfolding prev_hour.simps [of s limit "Suc h"] nat.case
    by (rule is_latest_cong [THEN iffD1, rotated]) (auto simp add: in_hour_def le_Suc_eq)
qed

lemma prev_hour_in_day:
  assumes "wf_schedule s" "limit < 1440"
  shows "is_latest (\<lambda>k. in_day s k \<and> k \<le> limit) (prev_hour s limit (limit div 60))"
proof -
  have "limit div 60 < 24" using assms(2) by (simp add: div_less_iff_less_mult)
  from prev_hour_latest [OF assms(1) this, of limit] show ?thesis
    by (rule is_latest_cong [THEN iffD1, rotated]) (auto intro: div_le_mono)
qed

lemma next_hour_first:
  "wf_schedule s \<Longrightarrow> is_first (\<lambda>k. h \<le> k div 60 \<and> k < 1440 \<and> in_day s k \<and> floor \<le> k) (next_hour s floor h)"
proof (induction s floor h rule: next_hour.induct)
  case (1 s floor h)
  show ?case
  proof (cases "24 \<le> h")
    case True
    then show ?thesis
      by (subst next_hour.simps) (auto simp add: is_first_def div_less_iff_less_mult dest: div_le_mono [of _ 1439 60])
  next
    case False
    have low: "first_in_hour s floor h = None \<Longrightarrow>
        is_first (\<lambda>k. Suc h \<le> k div 60 \<and> k < 1440 \<and> in_day s k \<and> floor \<le> k) (next_hour s floor (h + 1))"
      using 1 False by simp
    have hour: "is_first (\<lambda>k. in_hour s h k \<and> floor \<le> k) (first_in_hour s floor h)"
      using first_in_hour_first [OF "1.prems"] False by simp
    have split: "h \<le> k div 60 \<and> k < 1440 \<and> in_day s k \<and> floor \<le> k \<longleftrightarrow>
        in_hour s h k \<and> floor \<le> k \<or> Suc h \<le> k div 60 \<and> k < 1440 \<and> in_day s k \<and> floor \<le> k" for k
      using False by (auto simp add: in_hour_def Suc_le_eq div_less_iff_less_mult)
    show ?thesis
    proof (cases "first_in_hour s floor h")
      case None
      with hour low have "is_first (\<lambda>k. in_hour s h k \<and> floor \<le> k \<or> Suc h \<le> k div 60 \<and> k < 1440 \<and> in_day s k \<and> floor \<le> k)
          (next_hour s floor (h + 1))"
        by (auto simp add: is_first_def split: option.splits)
      with None False show ?thesis unfolding split by (subst next_hour.simps) simp
    next
      case (Some m)
      have "m \<le> k" if "Suc h \<le> k div 60" for k
        using hour Some that by (auto simp add: is_first_def in_hour_def)
      with hour Some False show ?thesis unfolding split by (subst next_hour.simps) (auto simp add: is_first_def)
    qed
  qed
qed

lemma next_hour_in_day:
  assumes "wf_schedule s"
  shows "is_first (\<lambda>k. k < 1440 \<and> in_day s k \<and> floor \<le> k) (next_hour s floor (floor div 60))"
  using next_hour_first [OF assms, of "floor div 60" floor]
  by (rule is_first_cong [THEN iffD1, rotated]) (auto intro: div_le_mono)

text \<open>The minutes a schedule fires in, and the fires of one day.\<close>

definition fires :: "schedule \<Rightarrow> int \<Rightarrow> bool" where
  "fires s q \<longleftrightarrow> q mod minute_ns = 0 \<and> cron_matches s q"

lemma fires_at_minute: "k < 1440 \<Longrightarrow> fires s (at_minute d k) \<longleftrightarrow> day_matches s d \<and> in_day s k"
  by (simp add: fires_def cron_matches_def)

lemma fires_ex: "fires s q \<longleftrightarrow> (\<exists>k. q = at_minute (day_of q) k \<and> k < 1440 \<and> day_matches s (day_of q) \<and> in_day s k)"
proof
  assume f: "fires s q"
  then have q: "at_minute (day_of q) (minute_of_day q) = q" by (simp add: fires_def at_minute_day_of)
  with f show "\<exists>k. q = at_minute (day_of q) k \<and> k < 1440 \<and> day_matches s (day_of q) \<and> in_day s k"
    by (intro exI [of _ "minute_of_day q"]) (simp add: fires_def cron_matches_def minute_of_day_less)
next
  assume "\<exists>k. q = at_minute (day_of q) k \<and> k < 1440 \<and> day_matches s (day_of q) \<and> in_day s k"
  then show "fires s q" by (metis fires_at_minute)
qed

definition fires_on :: "schedule \<Rightarrow> int \<Rightarrow> int \<Rightarrow> bool" where
  "fires_on s d q \<longleftrightarrow> day_of q = d \<and> fires s q"

lemma fires_on_ex: "fires_on s d q \<longleftrightarrow> (\<exists>k. q = at_minute d k \<and> k < 1440 \<and> day_matches s d \<and> in_day s k)"
  unfolding fires_on_def using fires_ex [of s q] by auto

lemma day_mono: "day_of p < day_of q \<Longrightarrow> p \<le> q"
  unfolding day_of_def by (meson linorder_le_cases not_le zdiv_mono1 zero_less_numeral)

lemma prev_on_day:
  assumes "wf_schedule s" "limit < 1440"
  shows "is_latest (\<lambda>q. fires_on s d q \<and> q \<le> at_minute d limit)
    (map_option (at_minute d) (if day_matches s d then prev_hour s limit (limit div 60) else None))"
proof (cases "day_matches s d")
  case True
  have "is_latest (\<lambda>q. \<exists>k. q = at_minute d k \<and> in_day s k \<and> k \<le> limit)
    (map_option (at_minute d) (prev_hour s limit (limit div 60)))"
    by (rule is_latest_image [OF prev_hour_in_day [OF assms]]) (simp add: at_minute_minutes)
  moreover have "(\<exists>k. q = at_minute d k \<and> in_day s k \<and> k \<le> limit) \<longleftrightarrow> fires_on s d q \<and> q \<le> at_minute d limit" for q
    using True assms(2) by (auto simp add: fires_on_ex at_minute_le_iff)
  ultimately show ?thesis using True by simp
next
  case False
  then show ?thesis by (simp add: is_latest_def fires_on_ex)
qed

lemma next_on_day:
  assumes "wf_schedule s" "floor < 1440"
  shows "is_first (\<lambda>q. fires_on s d q \<and> at_minute d floor \<le> q)
    (map_option (at_minute d) (if day_matches s d then next_hour s floor (floor div 60) else None))"
proof (cases "day_matches s d")
  case True
  have "is_first (\<lambda>q. \<exists>k. q = at_minute d k \<and> k < 1440 \<and> in_day s k \<and> floor \<le> k)
    (map_option (at_minute d) (next_hour s floor (floor div 60)))"
    by (rule is_first_image [OF next_hour_in_day [OF assms(1)]]) (simp add: at_minute_minutes)
  moreover have "(\<exists>k. q = at_minute d k \<and> k < 1440 \<and> in_day s k \<and> floor \<le> k) \<longleftrightarrow> fires_on s d q \<and> at_minute d floor \<le> q" for q
    using True assms(2) by (auto simp add: fires_on_ex at_minute_le_iff)
  ultimately show ?thesis using True by simp
next
  case False
  then show ?thesis by (simp add: is_first_def fires_on_ex)
qed

lemma prev_days_Suc:
  "prev_days s (Suc n) day limit =
     (case map_option (at_minute day) (if day_matches s day then prev_hour s limit (limit div 60) else None) of
        Some p \<Rightarrow> Some p | None \<Rightarrow> prev_days s n (day - 1) 1439)"
  by (simp split: option.split)

lemma next_days_Suc:
  "next_days s (Suc n) day floor =
     (case map_option (at_minute day) (if day_matches s day then next_hour s floor (floor div 60) else None) of
        Some p \<Rightarrow> Some p | None \<Rightarrow> next_days s n (day + 1) 0)"
  by (simp split: option.split)

lemma end_of_day: "day_of q = d \<Longrightarrow> q mod minute_ns = 0 \<Longrightarrow> at_minute d 0 \<le> q \<and> q \<le> at_minute d 1439"
  using at_minute_day_of [of q] minute_of_day_less [of q] at_minute_le_iff [of "minute_of_day q" 1439 d d]
    at_minute_le_iff [of 0 "minute_of_day q" d d] by auto

lemma prev_days_latest:
  "wf_schedule s \<Longrightarrow> limit < 1440 \<Longrightarrow>
   is_latest (\<lambda>q. fires s q \<and> day - int n < day_of q \<and> (day_of q < day \<or> day_of q = day \<and> q \<le> at_minute day limit))
     (prev_days s n day limit)"
proof (induction n arbitrary: day limit)
  case 0
  then show ?case by (auto simp add: is_latest_def)
next
  case (Suc n)
  have "is_latest (\<lambda>q. fires s q \<and> day - 1 - int n < day_of q \<and>
      (day_of q < day - 1 \<or> day_of q = day - 1 \<and> q \<le> at_minute (day - 1) 1439)) (prev_days s n (day - 1) 1439)"
    by (rule Suc.IH) (use Suc.prems in auto)
  then have "is_latest (\<lambda>q. (fires_on s day q \<and> q \<le> at_minute day limit) \<or> (fires s q \<and> day - 1 - int n < day_of q \<and>
      (day_of q < day - 1 \<or> day_of q = day - 1 \<and> q \<le> at_minute (day - 1) 1439))) (prev_days s (Suc n) day limit)"
    unfolding prev_days_Suc
    by (rule is_latest_or [OF prev_on_day [OF Suc.prems, of day]]) (auto simp add: fires_on_def intro: day_mono)
  then show ?case
    by (rule is_latest_cong [THEN iffD1, rotated]) (auto simp add: fires_on_def fires_def end_of_day)
qed

lemma next_days_first:
  "wf_schedule s \<Longrightarrow> floor < 1440 \<Longrightarrow>
   is_first (\<lambda>q. fires s q \<and> day_of q < day + int n \<and> (day < day_of q \<or> day_of q = day \<and> at_minute day floor \<le> q))
     (next_days s n day floor)"
proof (induction n arbitrary: day floor)
  case 0
  then show ?case by (auto simp add: is_first_def)
next
  case (Suc n)
  have "is_first (\<lambda>q. fires s q \<and> day_of q < day + 1 + int n \<and>
      (day + 1 < day_of q \<or> day_of q = day + 1 \<and> at_minute (day + 1) 0 \<le> q)) (next_days s n (day + 1) 0)"
    by (rule Suc.IH) (use Suc.prems in auto)
  then have "is_first (\<lambda>q. (fires_on s day q \<and> at_minute day floor \<le> q) \<or> fires s q \<and> day_of q < day + 1 + int n \<and>
      (day + 1 < day_of q \<or> day_of q = day + 1 \<and> at_minute (day + 1) 0 \<le> q)) (next_days s (Suc n) day floor)"
    unfolding next_days_Suc
    by (rule is_first_or [OF next_on_day [OF Suc.prems, of day]]) (auto simp add: fires_on_def intro: day_mono)
  then show ?case
    by (rule is_first_cong [THEN iffD1, rotated]) (auto simp add: fires_on_def fires_def end_of_day)
qed

lemma day_of_truncate [simp]: "day_of (truncate_minute t) = day_of t"
  unfolding day_of_minutes truncate_minute_div by simp

lemma aligned_split:
  "t' mod minute_ns = 0 \<Longrightarrow> q mod minute_ns = 0 \<Longrightarrow>
   q \<le> t' \<longleftrightarrow> day_of q < day_of t' \<or> day_of q = day_of t' \<and> q \<le> t'"
  using at_minute_day_of [of q] at_minute_day_of [of t']
    at_minute_le_iff [of "minute_of_day q" "minute_of_day t'" "day_of q" "day_of t'"] minute_of_day_less by metis

lemma prev_latest:
  assumes "wf_schedule s"
  shows "is_latest (\<lambda>q. fires s q \<and> q \<le> t \<and> day_of t - int search_days < day_of q) (prev s t)"
proof -
  let ?t = "truncate_minute t"
  have at: "at_minute (day_of t) (minute_of_day ?t) = ?t" using at_minute_day_of [of ?t] by simp
  have le: "q \<le> t \<longleftrightarrow> q \<le> ?t" if "fires s q" for q
    using that aligned_le_truncate [of q t] truncate_minute_le [of t] by (auto simp add: fires_def)
  from prev_days_latest [OF assms minute_of_day_less, of "day_of t" search_days ?t] show ?thesis
    unfolding prev_def Let_def day_of_truncate at
    by (rule is_latest_cong [THEN iffD1, rotated])
      (metis aligned_split day_of_truncate fires_def le truncate_minute_mod)
qed

lemma next_fire_first:
  assumes "wf_schedule s"
  shows "is_first (\<lambda>q. fires s q \<and> t < q \<and> day_of q < day_of (truncate_minute t + minute_ns) + int search_days) (next_fire s t)"
proof -
  let ?t = "truncate_minute t + minute_ns"
  have mod: "?t mod minute_ns = 0" unfolding truncate_minute_div by simp
  have at: "at_minute (day_of ?t) (minute_of_day ?t) = ?t" using at_minute_day_of [OF mod] by simp
  have less: "t < q \<longleftrightarrow> ?t \<le> q" if "fires s q" for q
    using that after_truncate [of q t] by (simp add: fires_def)
  from next_days_first [OF assms minute_of_day_less, of "day_of ?t" search_days ?t] show ?thesis
    unfolding next_fire_def Let_def at
    by (rule is_first_cong [THEN iffD1, rotated]) (metis aligned_split fires_def less mod)
qed

subsection \<open>The interface of a timetable\<close>

text \<open>
  What the health rules need of a schedule: \<open>prev\<close> is the latest fire at or before an instant,
  \<open>next\<close> the first one after it, fires are at least a minute apart, and a search looks back at
  least a week.
\<close>

locale timetable =
  fixes valid :: "'s \<Rightarrow> bool"
    and fires :: "'s \<Rightarrow> int \<Rightarrow> bool"
    and prev :: "'s \<Rightarrow> int \<Rightarrow> int option"
    and succ :: "'s \<Rightarrow> int \<Rightarrow> int option"
  assumes prev_fire: "valid s \<Longrightarrow> prev s t = Some p \<Longrightarrow> fires s p \<and> p \<le> t"
    and prev_greatest: "valid s \<Longrightarrow> prev s t = Some p \<Longrightarrow> fires s q \<Longrightarrow> q \<le> t \<Longrightarrow> q \<le> p"
    and prev_reach: "valid s \<Longrightarrow> fires s q \<Longrightarrow> q \<le> t \<Longrightarrow> t - q \<le> week_ns \<Longrightarrow> prev s t \<noteq> None"
    and succ_fire: "valid s \<Longrightarrow> succ s t = Some n \<Longrightarrow> fires s n \<and> t < n"
    and succ_least: "valid s \<Longrightarrow> succ s t = Some n \<Longrightarrow> fires s q \<Longrightarrow> t < q \<Longrightarrow> n \<le> q"
    and tick: "valid s \<Longrightarrow> fires s p \<Longrightarrow> fires s q \<Longrightarrow> p < q \<Longrightarrow> p \<le> q - minute_ns"
begin

text \<open>The fire before a fire, as the code looks for it.\<close>

lemma before:
  assumes "valid s" "prev s (f - minute_ns) = Some p"
  shows "fires s p" "p \<le> f - minute_ns" "fires s f \<Longrightarrow> fires s q \<Longrightarrow> q < f \<Longrightarrow> q \<le> p"
  using prev_fire [OF assms] prev_greatest [OF assms, of q] tick [OF assms(1), of q f] by auto

lemma before_near:
  assumes "valid s" "prev s (f - minute_ns) = None" "fires s f" "fires s q" "q < f" "f - q \<le> week_ns"
  shows False
  using prev_reach [OF assms(1,4), of "f - minute_ns"] tick [OF assms(1,4,3,5)] assms(2,6) by simp

lemma prev_mono:
  assumes "valid s" "prev s t = Some p" "prev s u = Some q" "t \<le> u"
  shows "p \<le> q"
  using prev_greatest [OF assms(1,3), of p] prev_fire [OF assms(1,2)] assms(4) by simp

lemma prev_self:
  assumes "valid s" "fires s f"
  shows "prev s f = Some f"
proof -
  obtain p where p: "prev s f = Some p" using prev_reach [OF assms, of f] by auto
  from prev_greatest [OF assms(1) p assms(2)] prev_fire [OF assms(1) p] have "p = f" by simp
  with p show ?thesis by simp
qed

text \<open>The fire after an instant has no fire between it and the fire before.\<close>

lemma prev_succ:
  assumes "valid s" "succ s t = Some n" "prev s (n - minute_ns) = Some p"
  shows "p \<le> t"
  using succ_least [OF assms(1,2), of p] before(1,2) [OF assms(1,3)] by force

end

lemma fires_tick: "fires s p \<Longrightarrow> fires s q \<Longrightarrow> p < q \<Longrightarrow> p \<le> q - minute_ns"
  using after_truncate [of q p] by (simp add: fires_def truncate_minute_def)

lemma near_days: "t - q \<le> week_ns \<Longrightarrow> day_of t - int search_days < day_of q"
proof -
  assume "t - q \<le> week_ns"
  then have "t \<le> q + 7 * day_ns" by simp
  then have "t div day_ns \<le> (q + 7 * day_ns) div day_ns" by (rule zdiv_mono1) simp
  also have "\<dots> = 7 + q div day_ns" by (rule div_mult_self1) simp
  finally show ?thesis by (simp add: day_of_def search_days_def)
qed

interpretation cron: timetable wf_schedule fires prev next_fire
proof
  fix s t p q
  assume wf: "wf_schedule s"
  show "prev s t = Some p \<Longrightarrow> fires s p \<and> p \<le> t"
    using prev_latest [OF wf, of t] by (auto simp add: is_latest_def)
  show "prev s t = Some p \<Longrightarrow> fires s q \<Longrightarrow> q \<le> t \<Longrightarrow> q \<le> p"
    using prev_latest [OF wf, of t] day_mono [of q p] by (auto simp add: is_latest_def) (metis order.strict_trans1 not_le)
  show "fires s q \<Longrightarrow> q \<le> t \<Longrightarrow> t - q \<le> week_ns \<Longrightarrow> prev s t \<noteq> None"
    using prev_latest [OF wf, of t] near_days [of t q] by (auto simp add: is_latest_def split: option.splits)
  show "next_fire s t = Some p \<Longrightarrow> fires s p \<and> t < p"
    using next_fire_first [OF wf, of t] by (auto simp add: is_first_def)
  show "next_fire s t = Some p \<Longrightarrow> fires s q \<Longrightarrow> t < q \<Longrightarrow> p \<le> q"
    using next_fire_first [OF wf, of t] day_mono [of p q] by (auto simp add: is_first_def) (metis order.strict_trans2 not_le)
  show "fires s p \<Longrightarrow> fires s q \<Longrightarrow> p < q \<Longrightarrow> p \<le> q - minute_ns" by (rule fires_tick)
qed

subsection \<open>The longest gap\<close>

text \<open>A gap of the week before \<open>later\<close>: it ends inside the week, or at the latest fire.\<close>

definition gap_of :: "schedule \<Rightarrow> int \<Rightarrow> int \<Rightarrow> int \<Rightarrow> int \<Rightarrow> bool" where
  "gap_of s from later e l \<longleftrightarrow>
     fires s l \<and> l \<le> later \<and> (l = later \<or> from < l) \<and> prev s (l - minute_ns) = Some e"

lemma gap_loop_spec:
  assumes wf: "wf_schedule s"
  shows "fires s later \<Longrightarrow> later - from < int n * minute_ns \<Longrightarrow> 0 < n \<Longrightarrow> later - from \<le> week_ns \<Longrightarrow>
    widest \<le> gap_loop s from n (Some later) widest \<and>
    (\<forall>e l. gap_of s from later e l \<longrightarrow> l - e \<le> gap_loop s from n (Some later) widest) \<and>
    (gap_loop s from n (Some later) widest = widest \<or>
     (\<exists>e l. gap_of s from later e l \<and> gap_loop s from n (Some later) widest = l - e))"
proof (induction n arbitrary: later widest)
  case 0
  then show ?case by simp
next
  case (Suc n)
  show ?case
  proof (cases "prev s (later - minute_ns)")
    case None
    have "\<not> gap_of s from later e l" for e l
    proof
      assume g: "gap_of s from later e l"
      then have "l \<noteq> later" using None by (auto simp add: gap_of_def)
      with g Suc.prems show False
        by (intro cron.before_near [OF wf None Suc.prems(1), of l]) (auto simp add: gap_of_def)
    qed
    with None show ?thesis by simp
  next
    case (Some earlier)
    define w where "w = (if widest < later - earlier then later - earlier else widest)"
    have e: "fires s earlier" "earlier \<le> later - minute_ns"
      and between: "\<And>q. fires s q \<Longrightarrow> q < later \<Longrightarrow> q \<le> earlier"
      using cron.before [OF wf Some] Suc.prems(1) by auto
    have last: "gap_of s from later earlier later" using Some Suc.prems(1) by (simp add: gap_of_def)
    have split: "gap_of s from later e l \<longleftrightarrow> l = later \<and> e = earlier \<or> from < l \<and> gap_of s from earlier e l" for e l
      using Some Suc.prems(1) between [of l] e by (cases "l = later") (auto simp add: gap_of_def)
    show ?thesis
    proof (cases "earlier \<le> from")
      case True
      then have "gap_of s from later e' l \<longleftrightarrow> l = later \<and> e' = earlier" for e' l
        using split [of e' l] by (auto simp add: gap_of_def)
      with True Some last show ?thesis by (auto simp add: w_def Let_def)
    next
      case False
      then have inner: "gap_of s from earlier e' l \<Longrightarrow> from < l" for e' l by (auto simp add: gap_of_def)
      have n: "earlier - from < int n * minute_ns" using e(2) Suc.prems(2) by (simp add: algebra_simps)
      with False have "0 < n" by (cases n) auto
      have IH: "w \<le> gap_loop s from n (Some earlier) w \<and>
        (\<forall>e' l. gap_of s from earlier e' l \<longrightarrow> l - e' \<le> gap_loop s from n (Some earlier) w) \<and>
        (gap_loop s from n (Some earlier) w = w \<or>
         (\<exists>e' l. gap_of s from earlier e' l \<and> gap_loop s from n (Some earlier) w = l - e'))"
        by (rule Suc.IH [OF e(1) n \<open>0 < n\<close>]) (use e(2) Suc.prems(4) in auto)
      have unfold: "gap_loop s from (Suc n) (Some later) widest = gap_loop s from n (Some earlier) w"
        using False Some by (simp add: w_def Let_def)
      have w: "widest \<le> w" "later - earlier \<le> w" "w = widest \<or> w = later - earlier" by (auto simp add: w_def)
      show ?thesis
        unfolding unfold
      proof (intro conjI allI impI)
        show "widest \<le> gap_loop s from n (Some earlier) w" using IH w(1) by simp
        show "l - e' \<le> gap_loop s from n (Some earlier) w" if "gap_of s from later e' l" for e' l
          using that split [of e' l] IH w(2) by auto
        show "gap_loop s from n (Some earlier) w = widest \<or>
            (\<exists>e' l. gap_of s from later e' l \<and> gap_loop s from n (Some earlier) w = l - e')"
          using IH w(3) last split inner by metis
      qed
    qed
  qed
qed

lemma max_gap_spec:
  assumes wf: "wf_schedule s" and p: "prev s t = Some p"
  shows "(\<forall>e l. gap_of s (t - week_ns) p e l \<longrightarrow> l - e \<le> max_gap s t) \<and>
    (max_gap s t = 0 \<or> (\<exists>e l. gap_of s (t - week_ns) p e l \<and> max_gap s t = l - e))"
proof -
  have "fires s p" "p \<le> t" using cron.prev_fire [OF wf p] by auto
  then show ?thesis
    unfolding max_gap_def p using gap_loop_spec [OF wf, of p "t - week_ns" "7 * 24 * 60 + 1" 0] by simp
qed

lemma max_gap_silent: "prev s t = None \<Longrightarrow> max_gap s t = 0"
proof -
  have "gap_loop s since n None w = w" for s since n w by (cases n) simp_all
  then show "prev s t = None \<Longrightarrow> max_gap s t = 0" by (simp add: max_gap_def)
qed

lemma gap_of_positive: "wf_schedule s \<Longrightarrow> gap_of s from later e l \<Longrightarrow> 0 < l - e"
  using cron.before(2) [of s l e] by (auto simp add: gap_of_def)

subsection \<open>What a field denotes\<close>

lemma bit_set_steps:
  "0 < step \<Longrightarrow> hi < 64 \<Longrightarrow>
   bit (set_steps v hi step bits) n \<longleftrightarrow> bit bits n \<or> (v \<le> n \<and> n \<le> hi \<and> (n - v) mod step = 0)"
proof (induction v hi step bits rule: set_steps.induct)
  case (1 v hi step bits)
  show ?case
  proof (cases "v \<le> hi")
    case True
    have IH: "bit (set_steps (v + step) hi step (set_bit v bits)) n \<longleftrightarrow>
        bit (set_bit v bits) n \<or> (v + step \<le> n \<and> n \<le> hi \<and> (n - (v + step)) mod step = 0)"
      using 1 True by simp
    have "v \<le> n \<and> n \<le> hi \<and> (n - v) mod step = 0 \<longleftrightarrow>
        n = v \<or> v + step \<le> n \<and> n \<le> hi \<and> (n - (v + step)) mod step = 0"
    proof (cases "v + step \<le> n")
      case True
      then have "n - v = n - (v + step) + step" by simp
      then have "(n - v) mod step = (n - (v + step)) mod step" by (metis mod_add_self2)
      with True \<open>v \<le> hi\<close> show ?thesis using "1.prems" by auto
    next
      case False
      then have "v \<le> n \<Longrightarrow> (n - v) mod step = n - v" by (intro mod_less) linarith
      with False \<open>v \<le> hi\<close> nat_dvd_not_less [of "n - v" step] show ?thesis by (cases "n = v") auto
    qed
    with IH True "1.prems" show ?thesis
      by (subst set_steps.simps) (auto simp add: bit_set_bit_iff)
  next
    case False
    then show ?thesis by (subst set_steps.simps) auto
  qed
qed

text \<open>\<open>covered f item n\<close>: the item reads as a range that steps through \<open>n\<close>.\<close>

definition covered :: "cron_field \<Rightarrow> string \<Rightarrow> nat \<Rightarrow> bool" where
  "covered f item n \<longleftrightarrow>
     (\<exists>rng step lo hi. item_step f item = Inr (rng, step) \<and> item_range f item rng = Inr (lo, hi) \<and>
        lo \<le> n \<and> n \<le> hi \<and> (n - lo) mod step = 0)"

lemma item_step_Inr: "item_step f item = Inr (rng, step) \<Longrightarrow> 0 < step"
  by (auto simp add: item_step_def split: prod.splits option.splits if_splits)

lemma item_range_Inr:
  "item_range f item rng = Inr (lo, hi) \<Longrightarrow> cf_min f \<le> cf_max f \<Longrightarrow> cf_min f \<le> lo \<and> lo \<le> hi \<and> hi \<le> cf_max f"
  by (auto simp add: item_range_def Let_def split: prod.splits option.splits if_splits)

lemma parse_items_bits:
  "parse_items f whole items bits = Inr bits' \<Longrightarrow> cf_min f \<le> cf_max f \<Longrightarrow> cf_max f < 64 \<Longrightarrow>
   (bit bits' n \<longleftrightarrow> bit bits n \<or> (\<exists>item \<in> set items. covered f item n)) \<and>
   (\<forall>item \<in> set items. item \<noteq> [] \<and> (\<exists>n. covered f item n))"
proof (induction f whole items bits arbitrary: bits' rule: parse_items.induct)
  case 1
  then show ?case by simp
next
  case (2 f whole item items bits)
  from "2.prems"(1) obtain rng step lo hi where i: "item_step f item = Inr (rng, step)" "item_range f item rng = Inr (lo, hi)"
    and ne: "item \<noteq> []" and rest: "parse_items f whole items (set_steps lo hi step bits) = Inr bits'"
    by (auto split: if_splits sum.splits)
  have lohi: "lo \<le> hi" "hi < 64" using item_range_Inr [OF i(2) "2.prems"(2)] "2.prems"(3) by auto
  have cov: "covered f item n \<longleftrightarrow> lo \<le> n \<and> n \<le> hi \<and> (n - lo) mod step = 0" for n
    using i by (auto simp add: covered_def)
  from "2.IH" [OF ne i(1) refl i(2) refl rest "2.prems"(2,3)] bit_set_steps [OF item_step_Inr [OF i(1)] lohi(2), of lo bits n] cov
  have "bit bits' n \<longleftrightarrow> bit bits n \<or> covered f item n \<or> (\<exists>item \<in> set items. covered f item n)"
    and "\<forall>item \<in> set items. item \<noteq> [] \<and> (\<exists>n. covered f item n)" by auto
  moreover have "covered f item lo" using cov lohi by simp
  ultimately show ?case using ne by auto
qed

lemma parse_field_bits:
  assumes "parse_field part f = Inr bits" "f \<in> set cron_fields"
  shows "bit bits n \<longleftrightarrow> (\<exists>item \<in> set (split_on (CHR '','') part). covered f item n)"
proof -
  have "cf_min f \<le> cf_max f" "cf_max f < 64" using assms(2) by (auto simp add: cron_fields_def)
  with parse_items_bits [OF assms(1) [unfolded parse_field_def]] show ?thesis by simp
qed

lemma covered_range: "covered f item n \<Longrightarrow> f \<in> set cron_fields \<Longrightarrow> cf_min f \<le> n \<and> n \<le> cf_max f"
  using item_range_Inr [of f item] by (fastforce simp add: covered_def cron_fields_def)

subsection \<open>The source of a schedule parses as itself\<close>

text \<open>A field that parses is made of digits and of the four signs.\<close>

definition field_byte :: "char \<Rightarrow> bool" where
  "field_byte c \<longleftrightarrow> byte c = 42 \<or> byte c = 44 \<or> byte c = 45 \<or> 47 \<le> byte c \<and> byte c \<le> 57"

lemma cut_byte_parts: "s = fst (cut_byte c s) @ (case snd (cut_byte c s) of None \<Rightarrow> [] | Some t \<Rightarrow> c # t)"
  by (induction s) (simp_all add: cut_byte_def)

lemma cut_byte_eq: "cut_byte c s = (a, b) \<Longrightarrow> s = a @ (case b of None \<Rightarrow> [] | Some t \<Rightarrow> c # t)"
  using cut_byte_parts [of s c] by simp

lemma number_digits: "number s = Some n \<Longrightarrow> list_all is_digit s"
  by (simp add: number_def split: if_splits)

lemma digits_field: "list_all is_digit s \<Longrightarrow> list_all field_byte s"
  by (auto simp add: list_all_iff field_byte_def is_digit_def)

lemma item_range_chars: "item_range f item rng = Inr r \<Longrightarrow> list_all field_byte rng"
proof (cases "rng = ''*''")
  case False
  obtain a b where ab: "cut_byte (CHR ''-'') rng = (a, b)" by (cases "cut_byte (CHR ''-'') rng")
  assume "item_range f item rng = Inr r"
  with False ab have "list_all is_digit a" "case b of None \<Rightarrow> True | Some t \<Rightarrow> list_all is_digit t"
    by (auto simp add: item_range_def dest: number_digits split: option.splits)
  with cut_byte_eq [OF ab] show ?thesis by (auto simp add: field_byte_def digits_field split: option.splits)
qed (simp add: field_byte_def)

lemma item_step_chars: "item_step f item = Inr (rng, step) \<Longrightarrow> list_all field_byte rng \<Longrightarrow> list_all field_byte item"
  using cut_byte_eq [of "CHR ''/''" item]
  by (auto simp add: item_step_def field_byte_def digits_field dest!: number_digits split: prod.splits option.splits if_splits)

lemma chars_join: "list_all P (join [c] ws) \<longleftrightarrow> (\<forall>w \<in> set ws. list_all P w) \<and> (1 < length ws \<longrightarrow> P c)"
  by (induction "[c]" ws rule: join.induct) auto

lemma parse_field_chars:
  assumes "parse_field part f = Inr bits" "f \<in> set cron_fields"
  shows "part \<noteq> [] \<and> list_all field_byte part"
proof -
  have "cf_min f \<le> cf_max f" "cf_max f < 64" using assms(2) by (auto simp add: cron_fields_def)
  then have items: "item \<noteq> [] \<and> (\<exists>n. covered f item n)" if "item \<in> set (split_on (CHR '','') part)" for item
    using parse_items_bits [OF assms(1) [unfolded parse_field_def]] that by blast
  then have "list_all field_byte item" if "item \<in> set (split_on (CHR '','') part)" for item
    using that by (fastforce simp add: covered_def dest: item_range_chars intro: item_step_chars)
  then have "list_all field_byte (join '','' (split_on (CHR '','') part))"
    by (auto simp add: chars_join field_byte_def)
  moreover have "part \<noteq> []" using items by (cases part) auto
  ultimately show ?thesis by (simp add: join_split_on)
qed

lemma parse_fields_all:
  "parse_fields parts fs = Inr sets \<Longrightarrow> length parts = length fs \<Longrightarrow>
   length sets = length fs \<and> (\<forall>i < length fs. parse_field (parts ! i) (fs ! i) = Inr (sets ! i))"
  by (induction parts fs arbitrary: sets rule: parse_fields.induct)
    (auto simp add: less_Suc_eq_0_disj split: sum.splits)

text \<open>\<open>strings.Fields\<close> on fields joined by single spaces.\<close>

definition space_encs :: "string list" where
  "space_encs = map utf8_encode go_space_runes"

lemma space_encs_heads: "list_all (\<lambda>e. e \<noteq> [] \<and> \<not> field_byte (hd e)) space_encs"
  by (simp add: space_encs_def go_space_runes_def upt_conv_Cons utf8_encode_def field_byte_def)

lemma lead_field: "field_byte c \<Longrightarrow> lead_enc space_encs (c # s) = 0"
  by (rule lead_enc_0) (use space_encs_heads in \<open>auto simp add: list_all_iff\<close>)

lemma lead_space: "lead_enc space_encs (CHR '' '' # s) = 1"
  by (simp add: lead_enc_def space_encs_def go_space_runes_def upt_conv_Cons utf8_encode_def char_of_eq_iff)

lemma fields_loop_field: "list_all field_byte p \<Longrightarrow> fields_loop space_encs acc (p @ s) = fields_loop space_encs (acc @ p) s"
proof (induction p arbitrary: acc)
  case (Cons c p)
  then show ?case by (subst fields_loop.simps) (simp add: lead_field)
qed simp

lemma go_fields_join:
  "\<forall>p \<in> set ps. p \<noteq> [] \<and> list_all field_byte p \<Longrightarrow> go_fields (join '' '' ps) = ps"
  unfolding go_fields_def space_encs_def [symmetric]
proof (induction "'' ''" ps rule: join.induct)
  case 1
  show ?case by (subst fields_loop.simps) simp
next
  case (2 w)
  then show ?case using fields_loop_field [of w "[]" "[]"] by (simp add: fields_loop.simps [of _ _ "[]"])
next
  case (3 w v vs)
  have "fields_loop space_encs w (CHR '' '' # s) = w # fields_loop space_encs [] s" for s
    using 3 by (subst fields_loop.simps) (simp add: lead_space)
  with 3 show ?case by (simp add: fields_loop_field)
qed

lemma fields_loop_length: "sum_list (map (\<lambda>p. Suc (length p)) (fields_loop encs acc s)) \<le> length acc + length s + 1"
proof (induction encs acc s rule: fields_loop.induct)
  case (1 encs acc s)
  show ?case
  proof (cases "s = []")
    case True
    then show ?thesis by (subst fields_loop.simps) simp
  next
    case False
    then obtain c s' where s: "s = c # s'" by (cases s) auto
    show ?thesis
    proof (cases "lead_enc encs s = 0")
      case True
      have "fields_loop encs acc s = fields_loop encs (acc @ [hd s]) (tl s)"
        using True s by (subst fields_loop.simps) simp
      with 1(1) [OF False True] s show ?thesis by simp
    next
      case step: False
      have "fields_loop encs acc s = (if acc = [] then [] else [acc]) @ fields_loop encs [] (drop (lead_enc encs s) s)"
        using step s by (subst fields_loop.simps) simp
      with 1(2) [OF False step] step s show ?thesis by (cases "lead_enc encs s") auto
    qed
  qed
qed

lemma join_length: "ps \<noteq> [] \<Longrightarrow> Suc (length (join [c] ps)) = sum_list (map (\<lambda>p. Suc (length p)) ps)"
  by (induction "[c]" ps rule: join.induct) auto

lemma parse_schedule_Inr:
  "parse_schedule expr = Inr s \<longleftrightarrow>
     (\<exists>sets. length expr \<le> max_length \<and> length (go_fields expr) = 5 \<and> parse_fields (go_fields expr) cron_fields = Inr sets \<and>
        s = schedule_of (go_fields expr) sets \<and> next_fire s year_2000 \<noteq> None)"
  by (auto simp add: parse_schedule_def Let_def split: sum.splits)

lemma parse_schedule_wf: "parse_schedule expr = Inr s \<Longrightarrow> wf_schedule s"
  by (auto simp add: parse_schedule_Inr wf_schedule_def schedule_of_def)

lemma parse_schedule_source: "parse_schedule expr = Inr s \<Longrightarrow> parse_schedule (sc_source s) = Inr s"
proof -
  assume "parse_schedule expr = Inr s"
  then obtain sets where p: "length expr \<le> max_length" "length (go_fields expr) = 5" "parse_fields (go_fields expr) cron_fields = Inr sets"
    "s = schedule_of (go_fields expr) sets" "next_fire s year_2000 \<noteq> None" by (auto simp only: parse_schedule_Inr)
  have len: "length cron_fields = 5" by (simp add: cron_fields_def)
  have "part \<noteq> [] \<and> list_all field_byte part" if "part \<in> set (go_fields expr)" for part
    using that parse_fields_all [OF p(3)] p(2) len parse_field_chars by (metis in_set_conv_nth nth_mem)
  then have fields: "go_fields (join '' '' (go_fields expr)) = go_fields expr" by (simp add: go_fields_join)
  have "go_fields expr \<noteq> []" using p(2) by auto
  from join_length [OF this, of "CHR '' ''"] fields_loop_length [of space_encs "[]" expr]
  have "length (join '' '' (go_fields expr)) \<le> length expr" by (simp add: go_fields_def space_encs_def)
  with p fields show ?thesis by (simp add: parse_schedule_Inr schedule_of_def)
qed

interpretation cron_form: canonical_form parse_schedule "\<lambda>s. \<exists>expr. parse_schedule expr = Inr s" sc_source
  by unfold_locales (auto intro: parse_schedule_source)

subsection \<open>Examples\<close>

text \<open>A schedule for Mondays at nine, and one for the 29th of February on Sundays.\<close>

definition ex_weekly :: "string list" where
  "ex_weekly = [''0'', ''9'', ''*'', ''*'', ''1'']"

definition ex_leap :: "string list" where
  "ex_leap = [''0'', ''0'', ''29'', ''2'', ''*/7'']"

lemma parse_scheduleI:
  assumes "length parts = 5" "parse_fields parts cron_fields = Inr sets" "length (join '' '' parts) \<le> max_length"
    and "next_fire (schedule_of parts sets) year_2000 \<noteq> None"
  shows "parse_schedule (join '' '' parts) = Inr (schedule_of parts sets)"
proof -
  have len: "length cron_fields = 5" by (simp add: cron_fields_def)
  have "part \<noteq> [] \<and> list_all field_byte part" if "part \<in> set parts" for part
    using that parse_fields_all [OF assms(2)] assms(1) len parse_field_chars by (metis in_set_conv_nth nth_mem)
  then have "go_fields (join '' '' parts) = parts" by (simp add: go_fields_join)
  with assms show ?thesis by (simp add: parse_schedule_Inr)
qed

lemma ex_weekly_fields: "parse_fields ex_weekly cron_fields = Inr [1, 512, 0xFFFFFFFE, 0x1FFE, 2]"
  by code_simp

lemma ex_leap_fields: "parse_fields ex_leap cron_fields = Inr [1, 1, 0x20000000, 4, 129]"
  by code_simp

definition ex_weekly_schedule :: schedule where
  "ex_weekly_schedule = schedule_of ex_weekly [1, 512, 0xFFFFFFFE, 0x1FFE, 2]"

definition ex_leap_schedule :: schedule where
  "ex_leap_schedule = schedule_of ex_leap [1, 1, 0x20000000, 4, 129]"

lemma ex_weekly_next: "next_fire ex_weekly_schedule year_2000 = Some (at_minute 10959 540)"
  by code_simp

lemma ex_weekly_parse: "parse_schedule ''0 9 * * 1'' = Inr ex_weekly_schedule"
proof -
  have "parse_schedule (join '' '' ex_weekly) = Inr ex_weekly_schedule"
    unfolding ex_weekly_schedule_def
    by (rule parse_scheduleI [OF _ ex_weekly_fields])
      (simp_all add: ex_weekly_def max_length_def ex_weekly_next [unfolded ex_weekly_schedule_def ex_weekly_def])
  then show ?thesis by (simp add: ex_weekly_def)
qed

lemma ex_leap_wf: "wf_schedule ex_leap_schedule" "wf_schedule ex_weekly_schedule"
  by (simp_all add: wf_schedule_def ex_leap_schedule_def ex_weekly_schedule_def schedule_of_def)

lemma ex_leap_2004: "next_fire ex_leap_schedule year_2000 \<noteq> None"
proof
  assume "next_fire ex_leap_schedule year_2000 = None"
  then have "\<not> (fires ex_leap_schedule q \<and> year_2000 < q \<and>
      day_of q < day_of (truncate_minute year_2000 + minute_ns) + int search_days)" for q
    using next_fire_first [OF ex_leap_wf(1), of year_2000] by (simp add: is_first_def)
  moreover have "fires ex_leap_schedule (at_minute 12477 0)"
    by (subst fires_at_minute) (simp, code_simp)
  moreover have "year_2000 < at_minute 12477 0 \<and>
      day_of (at_minute 12477 0) < day_of (truncate_minute year_2000 + minute_ns) + int search_days"
    by code_simp
  ultimately show False by blast
qed

lemma ex_leap_parse: "parse_schedule ''0 0 29 2 */7'' = Inr ex_leap_schedule"
proof -
  have "parse_schedule (join '' '' ex_leap) = Inr ex_leap_schedule"
    unfolding ex_leap_schedule_def
    by (rule parse_scheduleI [OF _ ex_leap_fields])
      (simp_all add: ex_leap_def max_length_def ex_leap_2004 [unfolded ex_leap_schedule_def ex_leap_def])
  then show ?thesis by (simp add: ex_leap_def)
qed

lemma ex_leap_day: "day_matches ex_leap_schedule d \<longleftrightarrow> month_of d = 2 \<and> dom_of d = 29 \<and> weekday d = 0"
proof -
  have "weekday d < 7" unfolding weekday_def by (simp add: nat_less_iff)
  moreover have "bit (4 :: 64 word) n \<longleftrightarrow> n = 2" "bit (0x20000000 :: 64 word) n \<longleftrightarrow> n = 29"
     "n < 7 \<Longrightarrow> bit (1 :: 64 word) n \<longleftrightarrow> n = 0" for n
    using bit_push_bit_iff [of 2 "1 :: 64 word" n] bit_push_bit_iff [of 29 "1 :: 64 word" n] by (auto simp add: bit_1_iff push_bit_of_1 bit_double_iff)
  ultimately show ?thesis
    by (simp add: ex_leap_schedule_def schedule_of_def day_matches_def sunday_too_def ex_leap_def has_prefix_def)
qed

text \<open>The 29ths of February of the eight years from 2005: a Friday and a Wednesday.\<close>

definition year_of_era :: "int \<Rightarrow> int" where
  "year_of_era doe = (doe - doe div 1460 + doe div 36524 - doe div 146096) div 365"

lemma leap_day_doy:
  assumes "month_of d = 2" "dom_of d = 29"
  shows "let doe = (d + 719468) mod 146097; y = year_of_era doe in doe - (365 * y + y div 4 - y div 100) \<in> {365, -3}"
proof -
  define doe where "doe = (d + 719468) mod 146097"
  define y where "y = year_of_era doe"
  define doy where "doy = doe - (365 * y + y div 4 - y div 100)"
  have civ: "civil d = (y + (d + 719468) div 146097 * 400 + (if (if (5 * doy + 2) div 153 < 10 then (5 * doy + 2) div 153 + 3 else (5 * doy + 2) div 153 - 9) \<le> 2 then 1 else 0),
     nat (if (5 * doy + 2) div 153 < 10 then (5 * doy + 2) div 153 + 3 else (5 * doy + 2) div 153 - 9),
     nat (doy - (153 * ((5 * doy + 2) div 153) + 2) div 5 + 1))"
    unfolding civil_def Let_def doy_def y_def year_of_era_def doe_def ..
  have "nat (if (5 * doy + 2) div 153 < 10 then (5 * doy + 2) div 153 + 3 else (5 * doy + 2) div 153 - 9) = 2"
    using assms(1) unfolding month_of_def civ by simp
  then have "(5 * doy + 2) div 153 = 11 \<or> (5 * doy + 2) div 153 = -1" by (auto split: if_splits)
  moreover have "doy - (153 * ((5 * doy + 2) div 153) + 2) div 5 + 1 = 29"
    using assms(2) unfolding dom_of_def civ by simp
  ultimately have "doy \<in> {365, -3}" by auto
  then show ?thesis by (simp add: Let_def doy_def y_def doe_def)
qed

lemma leap_days_2005:
  assumes "12784 \<le> d" "d < 15713" "month_of d = 2" "dom_of d = 29"
  shows "d = 13938 \<or> d = 15399"
proof -
  define doe where "doe = d + 719468 - 730485"
  have "1767 \<le> doe" "doe < 4696" using assms(1,2) by (simp_all add: doe_def)
  moreover have "d + 719468 = doe + 5 * 146097" by (simp add: doe_def)
  ultimately have doe: "(d + 719468) mod 146097 = doe" by (simp only: mod_mult_self1) simp
  define y where "y = year_of_era doe"
  have y: "y = (doe - doe div 1460) div 365"
    using \<open>1767 \<le> doe\<close> \<open>doe < 4696\<close> by (simp add: y_def div_pos_pos_trivial year_of_era_def)
  have "4 \<le> y" "y \<le> 12" using \<open>1767 \<le> doe\<close> \<open>doe < 4696\<close> unfolding y by linarith+
  then have "y \<in> {4, 5, 6, 7, 8, 9, 10, 11, 12}" by auto
  moreover have "doe - (365 * y + y div 4 - y div 100) \<in> {365, -3}"
    using leap_day_doy [OF assms(3,4)] by (simp add: doe y_def Let_def)
  ultimately have "doe \<in> {2921, 4382}" using y by (auto simp add: diff_eq_eq)
  then show ?thesis by (auto simp add: doe_def)
qed
lemma ex_leap_2005: "next_fire ex_leap_schedule (days_from_civil 2005 1 1 * day_ns) = None"
proof (rule ccontr)
  let ?t = "days_from_civil 2005 1 1 * day_ns"
  have t: "?t = 12784 * day_ns" "day_of (truncate_minute ?t + minute_ns) = 12784" by code_simp+
  assume "next_fire ex_leap_schedule ?t \<noteq> None"
  then obtain q where q: "fires ex_leap_schedule q" "12784 * day_ns < q" "day_of q < 12784 + 2929"
    using next_fire_first [OF ex_leap_wf(1), of ?t] t by (auto simp add: is_first_def search_days_def)
  from q(2) have "12784 * day_ns div day_ns \<le> q div day_ns" by (intro zdiv_mono1) simp_all
  then have "12784 \<le> day_of q" by (simp add: day_of_def)
  moreover have "day_matches ex_leap_schedule (day_of q)" using q(1) fires_ex by blast
  ultimately have "(day_of q = 13938 \<or> day_of q = 15399) \<and> weekday (day_of q) = 0"
    using leap_days_2005 [of "day_of q"] q(3) by (simp add: ex_leap_day)
  then show False by (auto simp add: weekday_def)
qed

subsection \<open>Properties\<close>

text \<open>
  C19: the search for the last fire is right. For every schedule that parses, \<open>Prev\<close> answers the
  latest fire at or before the instant; when it answers the zero time, no fire lies in the eight
  years (2929 days) it looks back.
\<close>

theorem prev_is_latest:
  assumes "parse_schedule expr = Inr s"
  shows "case prev s t of
      Some p \<Rightarrow> fires s p \<and> p \<le> t \<and> (\<forall>q. fires s q \<and> q \<le> t \<longrightarrow> q \<le> p)
    | None \<Rightarrow> \<forall>q. fires s q \<and> q \<le> t \<longrightarrow> day_of q + int search_days \<le> day_of t"
proof (cases "prev s t")
  case None
  then show ?thesis using prev_latest [OF parse_schedule_wf [OF assms], of t] by (auto simp add: is_latest_def not_less)
next
  case (Some p)
  with parse_schedule_wf [OF assms] show ?thesis by (auto dest: cron.prev_fire cron.prev_greatest)
qed

theorem prev_is_latest_witness:
  "\<exists>p. prev ex_weekly_schedule (at_minute 10960 0) = Some p \<and> at_minute 10959 540 \<le> p"
proof -
  have "prev ex_weekly_schedule (at_minute 10960 0) \<noteq> None" by code_simp
  then obtain p where p: "prev ex_weekly_schedule (at_minute 10960 0) = Some p" by auto
  have "fires ex_weekly_schedule (at_minute 10959 540)" by (subst fires_at_minute) (simp, code_simp)
  moreover have "at_minute 10959 540 \<le> at_minute 10960 0" by (simp add: at_minute_def)
  ultimately have "at_minute 10959 540 \<le> p"
    using prev_is_latest [OF ex_weekly_parse, of "at_minute 10960 0"] p by simp
  with p show ?thesis by blast
qed

text \<open>
  C20: so is the search for the next fire: \<open>Next\<close> answers the first fire strictly after the
  instant, and when it answers the zero time there is none in the 2929 days it looks ahead.
\<close>

theorem next_is_first:
  assumes "parse_schedule expr = Inr s"
  shows "case next_fire s t of
      Some n \<Rightarrow> fires s n \<and> t < n \<and> (\<forall>q. fires s q \<and> t < q \<longrightarrow> n \<le> q)
    | None \<Rightarrow> \<forall>q. fires s q \<and> t < q \<longrightarrow> day_of (truncate_minute t + minute_ns) + int search_days \<le> day_of q"
proof (cases "next_fire s t")
  case None
  then show ?thesis using next_fire_first [OF parse_schedule_wf [OF assms], of t] by (auto simp add: is_first_def not_less)
next
  case (Some n)
  with parse_schedule_wf [OF assms] show ?thesis by (auto dest: cron.succ_fire cron.succ_least)
qed

theorem next_is_first_witness:
  "\<exists>n. next_fire ex_weekly_schedule year_2000 = Some n \<and> (\<forall>q. fires ex_weekly_schedule q \<and> year_2000 < q \<longrightarrow> n \<le> q)"
  using next_is_first [OF ex_weekly_parse, of year_2000] ex_weekly_next by simp

text \<open>
  C21: \<open>MaxGap\<close> is the longest gap. Among the gaps between consecutive fires that end in the week
  before the instant, or at the latest fire, none is longer than the result, and the result is one
  of them (or 0 when the schedule has not fired twice): 10081 rounds are enough for every schedule.
\<close>

theorem max_gap_longest:
  assumes "parse_schedule expr = Inr s" "prev s t = Some p"
  shows "(\<forall>e l. gap_of s (t - week_ns) p e l \<longrightarrow> l - e \<le> max_gap s t) \<and>
    (max_gap s t = 0 \<or> (\<exists>e l. gap_of s (t - week_ns) p e l \<and> max_gap s t = l - e))"
  by (rule max_gap_spec [OF parse_schedule_wf [OF assms(1)] assms(2)])

theorem max_gap_longest_witness:
  "week_ns \<le> max_gap ex_weekly_schedule (at_minute 10967 0)"
proof -
  let ?l = "at_minute 10966 540"
  have p: "prev ex_weekly_schedule (at_minute 10967 0) = Some ?l" by code_simp
  have e: "prev ex_weekly_schedule (?l - minute_ns) = Some (at_minute 10959 540)" by code_simp
  have "fires ex_weekly_schedule ?l" by (subst fires_at_minute) (simp, code_simp)
  with e have "gap_of ex_weekly_schedule (at_minute 10967 0 - week_ns) ?l (at_minute 10959 540) ?l"
    by (simp add: gap_of_def)
  with max_gap_longest [OF ex_weekly_parse p] have "?l - at_minute 10959 540 \<le> max_gap ex_weekly_schedule (at_minute 10967 0)"
    by blast
  then show ?thesis by (simp add: at_minute_def)
qed

text \<open>
  What a schedule is stored as parses as the same schedule. \<open>String\<close> joins the fields with
  single spaces; the result is within the length bound and \<open>Parse\<close> reads it back unchanged.
\<close>

lemma schedule_roundtrip:
  assumes "parse_schedule expr = Inr s"
  shows "parse_schedule (sc_source s) = Inr s \<and> length (sc_source s) \<le> max_length"
  using cron_form.idempotent [OF assms] by (auto simp add: parse_schedule_Inr)

lemma schedule_roundtrip_witness:
  "parse_schedule (sc_source ex_weekly_schedule) = Inr ex_weekly_schedule"
  using schedule_roundtrip [OF ex_weekly_parse] by simp

text \<open>
  A field denotes the union of its items, and never leaves its range. Bit \<open>n\<close> of a field is
  set exactly when one of the comma-separated items is a number, range or step that contains \<open>n\<close>;
  every such \<open>n\<close> lies between the bounds of the field, so no shift leaves the 64-bit set.
\<close>

lemma field_denotes_items:
  assumes "parse_field part f = Inr bits" "f \<in> set cron_fields"
  shows "(bit bits n \<longleftrightarrow> (\<exists>item \<in> set (split_on (CHR '','') part). covered f item n)) \<and>
    (bit bits n \<longrightarrow> cf_min f \<le> n \<and> n \<le> cf_max f)"
  using parse_field_bits [OF assms, of n] covered_range [OF _ assms(2), of _ n] by blast

lemma field_denotes_items_witness:
  "\<not> bit (0x20000000 :: 64 word) 7 \<and> (\<exists>item \<in> set (split_on (CHR '','') ''29''). covered (cron_fields ! 2) item 29)"
proof -
  have p: "parse_field ''29'' (cron_fields ! 2) = Inr 0x20000000" by code_simp
  have f: "cron_fields ! 2 \<in> set cron_fields" by (simp add: cron_fields_def)
  have "bit (0x20000000 :: 64 word) 29" "\<not> bit (0x20000000 :: 64 word) 7" by code_simp+
  with field_denotes_items [OF p f, of 29] show ?thesis by blast
qed

text \<open>
  C22: a schedule that parses may still be silent for more than eight years. \<open>0 0 29 2 */7\<close> (the
  29th of February, when it is a Sunday) is accepted, because it fires in 2004, but its next fire
  after 2004 is in 2032: asked on 2005-01-01, \<open>Next\<close> answers the zero time although the schedule
  fires again.
\<close>

theorem leap_sunday_beyond_horizon:
  "\<exists>s q. parse_schedule ''0 0 29 2 */7'' = Inr s \<and> next_fire s (days_from_civil 2005 1 1 * day_ns) = None \<and>
     fires s q \<and> days_from_civil 2005 1 1 * day_ns < q"
proof (intro exI conjI)
  show "fires ex_leap_schedule (at_minute 22704 0)" by (subst fires_at_minute) (simp, code_simp)
  show "days_from_civil 2005 1 1 * day_ns < at_minute 22704 0" by code_simp
qed (rule ex_leap_parse ex_leap_2005)+

end
