(* ===== verification/Refresh_Health.thy ===== *)
theory Refresh_Health
  imports Freshness Cron "HOL-Library.List_Lexorder" "HOL-Library.Multiset"
begin

text \<open>
  \<open>internal/versions/refreshhealth.go\<close> and \<open>internal/versions/coveragegaps.go\<close>: the verdict on a
  page's refreshes. A page with a schedule is judged by the fires of the schedule
  (\<open>internal/cron\<close>), its latest activity and the age of its source data; the report orders the
  estate by verdict; \<open>SetRefreshSchedule\<close> stores the schedule and the owner.

  Parameters (\<open>health_env\<close>): the quoting of an error message, the NFC-normalising address check of
  \<open>auth/central\<close>, and what is stored in or detected for \<open>page_versions.coverage_gaps\<close>.
\<close>

subsection \<open>Constants\<close>

datatype health = Health_Ok | Overdue | Blocked | Source_Stale | Coverage_Gap | Unscheduled

definition health_name :: "health \<Rightarrow> string" where
  "health_name h =
     (case h of Health_Ok \<Rightarrow> ''ok'' | Overdue \<Rightarrow> ''overdue'' | Blocked \<Rightarrow> ''blocked''
      | Source_Stale \<Rightarrow> ''source_stale'' | Coverage_Gap \<Rightarrow> ''coverage_gap'' | Unscheduled \<Rightarrow> ''unscheduled'')"

definition failed_check_outcomes :: "string list" where
  "failed_check_outcomes = [''source_unreachable'', ''blocked'', ''failed'']"

definition refresh_grace :: int where "refresh_grace = 3 * hour_ns"
definition refresh_early :: int where "refresh_early = hour_ns"
definition refresh_stale_slack :: int where "refresh_stale_slack = 48 * hour_ns"
definition unscheduled_stale_after :: int where "unscheduled_stale_after = 7 * 24 * hour_ns"
definition max_reason_detail :: nat where "max_reason_detail = 300"

record coverage_gap =                     \<comment> \<open>\<open>pagedata.CoverageGap\<close>, as far as it is read here\<close>
  cg_stopped_on :: string
  cg_message :: string

record health_input =
  hi_schedule :: string
  hi_owner :: string
  hi_is_live :: bool
  hi_created :: "int option"
  hi_source_as_of :: "int option"
  hi_refreshed_at :: "int option"
  hi_newest_refresh :: "int option"
  hi_check_at :: "int option"
  hi_check_outcome :: string
  hi_check_detail :: string
  hi_gaps :: "coverage_gap list"

record refresh_health =
  rh_schedule :: "string option"
  rh_owner :: "string option"
  rh_health :: health
  rh_reason :: string
  rh_since :: "int option"
  rh_last_due :: "int option"
  rh_next_due :: "int option"
  rh_last_activity :: "int option"
  rh_unscheduled_stale :: bool
  rh_days_source :: "int option"
  rh_gaps :: "coverage_gap list"

definition needs_attention :: "refresh_health \<Rightarrow> bool" where
  "needs_attention h = (rh_health h \<in> {Blocked, Overdue, Source_Stale, Coverage_Gap})"

definition unscheduled_stale_hint :: "int \<Rightarrow> string" where
  "unscheduled_stale_hint days =
     ''No refresh schedule '' @ [CHR 0xC2, CHR 0xB7] @ '' data '' @ itoa days @ '' '' @
     (if days = 1 then ''day'' else ''days'') @ '' old '' @ em_dash @
     '' set a schedule or ignore if the campaign has ended''"

subsection \<open>Words\<close>

fun latest :: "int option list \<Rightarrow> int option \<Rightarrow> int option" where
  "latest [] out = out"
| "latest (t # ts) out = latest ts (if after t out then t else out)"

definition is_failed_outcome :: "string \<Rightarrow> bool" where
  "is_failed_outcome outcome = list_ex (\<lambda>f. outcome = f) failed_check_outcomes"

definition month_names :: "string list" where
  "month_names = [''Jan'', ''Feb'', ''Mar'', ''Apr'', ''May'', ''Jun'', ''Jul'', ''Aug'', ''Sep'', ''Oct'', ''Nov'', ''Dec'']"

definition day_text :: "int \<Rightarrow> int \<Rightarrow> string" where
  \<comment> \<open>\<open>Jan 2\<close>, or \<open>Jan 2, 2006\<close> outside the year of \<open>now\<close>\<close>
  "day_text t now =
     (let (y, m, d) = civil (day_of t) in
      month_names ! (m - 1) @ '' '' @ itoa (int d) @ (if y \<noteq> fst (civil (day_of now)) then '', '' @ pad 4 y else []))"

definition short_day :: "int \<Rightarrow> int \<Rightarrow> string" where
  "short_day t now = day_text t now"

definition short_when :: "int \<Rightarrow> int \<Rightarrow> string" where
  \<comment> \<open>\<open>Jan 2 15:04 UTC\<close>\<close>
  "short_when t now =
     (let k = minute_of_day t in
      day_text t now @ '' '' @ pad 2 (int (k div 60)) @ '':'' @ pad 2 (int (k mod 60)) @ '' UTC'')"

definition time_text :: "(int \<Rightarrow> string) \<Rightarrow> int option \<Rightarrow> string" where
  \<comment> \<open>the zero time is the first instant of year 1\<close>
  "time_text f t = f (case t of None \<Rightarrow> zero_time | Some t \<Rightarrow> t)"

definition outcome_words :: "string \<Rightarrow> string" where
  \<comment> \<open>\<open>strings.ReplaceAll(o, "_", " ")\<close>\<close>
  "outcome_words outcome = map (\<lambda>c. if c = CHR ''_'' then CHR '' '' else c) outcome"

definition clip_reason :: "string \<Rightarrow> string" where
  "clip_reason s =
     (let s = join '' '' (go_fields s) in
      if max_reason_detail < utf16_len s then js_slice0 s (max_reason_detail - 1) @ [CHR 0xE2, CHR 0x80, CHR 0xA6] else s)"

definition coverage_gaps_summary :: "coverage_gap list \<Rightarrow> string" where
  "coverage_gaps_summary gaps =
     (case gaps of
        [] \<Rightarrow> []
      | g # others \<Rightarrow>
          cg_message g @
          (if others \<noteq> [] then '' (+'' @ itoa (int (length others)) @ '' more '' @ (if length others = 1 then ''gap'' else ''gaps'') @ '')''
           else []))"

text \<open>\<open>time.Parse("2006-01-02", s)\<close>, as a day.\<close>

definition days_in :: "int \<Rightarrow> nat \<Rightarrow> int" where
  "days_in y m =
     (if m = 2 then (if y mod 4 = 0 \<and> (y mod 100 \<noteq> 0 \<or> y mod 400 = 0) then 29 else 28)
      else if m \<in> {4, 6, 9, 11} then 30 else 31)"

definition parse_day :: "string \<Rightarrow> int option" where
  "parse_day s =
     Option.bind (digits_exactly 4 s) (\<lambda>(y, r).
     Option.bind (after_byte (CHR ''-'') 2 r) (\<lambda>(m, r).
     Option.bind (after_byte (CHR ''-'') 2 r) (\<lambda>(d, r).
       let y = int (dec_value y); m = dec_value m; d = int (dec_value d) in
       if r \<noteq> [] \<or> m < 1 \<or> 12 < m \<or> d < 1 \<or> days_in y m < d then None
       else Some (days_from_civil y (int m) d))))"

fun coverage_gap_since :: "coverage_gap list \<Rightarrow> int option \<Rightarrow> int option" where
  "coverage_gap_since [] since = since"
| "coverage_gap_since (g # gaps) since =
     (case parse_day (cg_stopped_on g) of
        None \<Rightarrow> coverage_gap_since gaps since
      | Some day \<Rightarrow>
          let t = (day + 1) * day_ns in
          coverage_gap_since gaps (if (case since of None \<Rightarrow> True | Some u \<Rightarrow> t < u) then Some t else since))"

subsection \<open>The verdict\<close>

definition early_tolerance :: "schedule \<Rightarrow> int \<Rightarrow> int" where
  "early_tolerance s fire =
     (case prev s (fire - minute_ns) of
        None \<Rightarrow> refresh_early
      | Some p \<Rightarrow> if (fire - p) div 2 < refresh_early then (fire - p) div 2 else refresh_early)"

definition covers :: "schedule \<Rightarrow> int option \<Rightarrow> int \<Rightarrow> bool" where
  "covers s a fire = (case a of None \<Rightarrow> False | Some a \<Rightarrow> \<not> a < fire - early_tolerance s fire)"

definition first_missed :: "schedule \<Rightarrow> int \<Rightarrow> int \<Rightarrow> int" where
  "first_missed s a due =
     (let f = next_fire s a;
          f' = (case f of Some n \<Rightarrow> if covers s (Some a) n then next_fire s n else f | None \<Rightarrow> None) in
      case f' of None \<Rightarrow> due | Some n \<Rightarrow> if due < n then due else n)"

text \<open>Each rule answers the reason and the start of the problem when it holds.\<close>

definition blocked_rule :: "health_input \<Rightarrow> int option \<Rightarrow> int option \<Rightarrow> int \<Rightarrow> (string \<times> int option) option" where
  "blocked_rule inp last_refresh last_check now =
     (case last_check of
        None \<Rightarrow> None
      | Some c \<Rightarrow>
          if \<not> after last_refresh last_check \<and> is_failed_outcome (hi_check_outcome inp) then
            Some (if js_trim (hi_check_detail inp) \<noteq> [] then clip_reason (js_trim (hi_check_detail inp))
                  else ''The latest refresh run recorded '' @ outcome_words (hi_check_outcome inp) @ '' on '' @
                       short_day c now @ '', with no detail.'', last_check)
          else None)"

definition overdue_rule :: "schedule \<Rightarrow> int option \<Rightarrow> int option \<Rightarrow> int \<Rightarrow> (string \<times> int option) option" where
  "overdue_rule s activity created now =
     (case prev s (now - refresh_grace) of
        None \<Rightarrow> None
      | Some due \<Rightarrow>
          (case activity of
             Some a \<Rightarrow>
               if \<not> covers s activity due then
                 Some (''Expected a refresh at '' @ short_when due now @ ''; last activity '' @ short_day a now @ ''.'',
                   Some (first_missed s a due))
               else None
           | None \<Rightarrow>
               (case created of
                  None \<Rightarrow> None
                | Some c \<Rightarrow>
                    if c < due then
                      Some (''Expected a refresh at '' @ short_when due now @ ''; no refresh or check has been recorded yet.'',
                        Some (case next_fire s c of None \<Rightarrow> due | Some n \<Rightarrow> if due < n then due else n))
                    else None)))"

definition stale_rule :: "schedule \<Rightarrow> bool \<Rightarrow> int option \<Rightarrow> int option \<Rightarrow> int option \<Rightarrow> int \<Rightarrow> (string \<times> int option) option" where
  "stale_rule s waiting source created activity now =
     (let since = (if waiting then ms_time created else source);
          words = (if waiting then ''No source data yet since '' else ''Source data hasn't advanced since '');
          gap = max_gap s now in
      case since of
        None \<Rightarrow> None
      | Some t \<Rightarrow>
          if 0 < gap \<and> gap + refresh_stale_slack < now - t then
            Some (words @ short_day t now @
                  (case activity of None \<Rightarrow> ''.'' | Some a \<Rightarrow> ''; refreshes are still running (last '' @ short_day a now @ '').''),
                  since)
          else None)"

definition ok_reason :: "schedule \<Rightarrow> int option \<Rightarrow> int \<Rightarrow> string" where
  "ok_reason s activity now =
     (case activity of
        None \<Rightarrow> ''Scheduled; the first refresh is due '' @ time_text (\<lambda>t. short_when t now) (next_fire s now) @ ''.''
      | Some a \<Rightarrow> ''Refreshing on schedule; last activity '' @ short_when a now @ ''.'')"

definition judge ::
  "schedule \<Rightarrow> health_input \<Rightarrow> int option \<Rightarrow> int option \<Rightarrow> int option \<Rightarrow> int \<Rightarrow> health \<times> string \<times> int option \<times> coverage_gap list" where
  "judge s inp source last_refresh last_check now =
     (let activity = latest [last_refresh, last_check] None in
      case blocked_rule inp last_refresh last_check now of
        Some (why, since) \<Rightarrow> (Blocked, why, since, [])
      | None \<Rightarrow>
      (case overdue_rule s activity (hi_created inp) now of
        Some (why, since) \<Rightarrow> (Overdue, why, since, [])
      | None \<Rightarrow>
      (case stale_rule s (no_source_yet (hi_source_as_of inp)) source (hi_created inp) activity now of
        Some (why, since) \<Rightarrow> (Source_Stale, why, since, [])
      | None \<Rightarrow>
        if hi_gaps inp \<noteq> [] then
          (Coverage_Gap, clip_reason (coverage_gaps_summary (hi_gaps inp)), coverage_gap_since (hi_gaps inp) None, hi_gaps inp)
        else (Health_Ok, ok_reason s activity now, None, []))))"

definition health_of :: "health_input \<Rightarrow> int \<Rightarrow> refresh_health" where
  "health_of inp now =
     (let last_refresh = latest [ms_time (hi_refreshed_at inp), ms_time (hi_newest_refresh inp)] None;
          last_check = ms_time (hi_check_at inp);
          source = ms_time (source_stamp (hi_source_as_of inp));
          h = \<lparr>rh_schedule = str_ptr (hi_schedule inp), rh_owner = str_ptr (hi_owner inp), rh_health = Unscheduled,
               rh_reason = [], rh_since = None, rh_last_due = None, rh_next_due = None,
               rh_last_activity = latest [last_refresh, last_check] None, rh_unscheduled_stale = False,
               rh_days_source = days_since source now, rh_gaps = []\<rparr> in
      if hi_schedule inp = [] then
        h\<lparr>rh_reason := ''No refresh schedule is set, so Pages does not judge this page.'',
          rh_unscheduled_stale := hi_is_live inp \<and> (case source of None \<Rightarrow> False | Some t \<Rightarrow> unscheduled_stale_after < now - t)\<rparr>
      else
        (case parse_schedule (hi_schedule inp) of
           Inl e \<Rightarrow>
             h\<lparr>rh_reason := ''The stored refresh schedule is not a valid cron expression, so Pages does not judge this page; set it again.''\<rparr>
         | Inr s \<Rightarrow>
             (case judge s inp source last_refresh last_check now of
                (verdict, why, since, gaps) \<Rightarrow>
                  h\<lparr>rh_last_due := prev s now, rh_next_due := next_fire s now, rh_health := verdict, rh_reason := why,
                    rh_since := since, rh_gaps := gaps\<rparr>)))"

subsection \<open>Coverage gaps of a version\<close>

record health_env =
  he_quote :: "string \<Rightarrow> string"                            \<comment> \<open>\<open>strconv.Quote\<close>\<close>
  he_email :: "string \<Rightarrow> string option"                     \<comment> \<open>\<open>central.NormalizeEmail\<close>\<close>
  he_stored :: "string \<Rightarrow> coverage_gap list option"         \<comment> \<open>\<open>storedCoverageGaps\<close> of a stored document\<close>
  he_detect :: "string \<Rightarrow> coverage_gap list"                \<comment> \<open>\<open>pagedata.CoverageGapsOfHTML\<close>\<close>
  he_json :: "coverage_gap list \<Rightarrow> string"                  \<comment> \<open>\<open>coverageGapsJSON\<close>\<close>
  he_saved :: "int \<Rightarrow> bool"                                 \<comment> \<open>the row of a version was free to be saved\<close>

definition max_lazy_coverage_gaps :: nat where "max_lazy_coverage_gaps = 24"

definition stored_gaps :: "health_env \<Rightarrow> string option \<Rightarrow> coverage_gap list option" where
  "stored_gaps he raw = Option.bind raw (he_stored he)"

fun split_stored :: "health_env \<Rightarrow> (int \<times> string option) list \<Rightarrow> (int \<rightharpoonup> coverage_gap list) \<Rightarrow> int list \<Rightarrow>
    (int \<rightharpoonup> coverage_gap list) \<times> int list" where
  \<comment> \<open>the loop of \<open>resolveCoverageGaps\<close>: what is stored, and which versions to compute\<close>
  "split_stored he [] out missing = (out, missing)"
| "split_stored he ((vid, raw) # rows) out missing =
     (if vid = 0 then split_stored he rows out missing
      else
        (case stored_gaps he raw of
           Some g \<Rightarrow> split_stored he rows (out(vid \<mapsto> g)) missing
         | None \<Rightarrow>
             if length missing < max_lazy_coverage_gaps then split_stored he rows out (missing @ [vid])
             else split_stored he rows out missing))"

definition computed_gaps :: "health_env \<Rightarrow> int list \<Rightarrow> db \<Rightarrow> (int \<times> coverage_gap list) list" where
  "computed_gaps he ids s = map (\<lambda>v. (v_id v, he_detect he (v_html v))) (filter (\<lambda>v. v_id v \<in> set ids) (db_versions s))"

definition save_gaps :: "health_env \<Rightarrow> (int \<times> coverage_gap list) list \<Rightarrow> db \<Rightarrow> db" where
  \<comment> \<open>rows that still have no current result, and are not locked\<close>
  "save_gaps he found s =
     s\<lparr>db_versions := map (\<lambda>v. case map_of found (v_id v) of
          Some g \<Rightarrow> if he_json he g \<noteq> [] \<and> stored_gaps he (v_gaps v) = None \<and> he_saved he (v_id v)
            then v\<lparr>v_gaps := Some (he_json he g)\<rparr> else v
        | None \<Rightarrow> v) (db_versions s)\<rparr>"

definition compute_gaps :: "health_env \<Rightarrow> int list \<Rightarrow> (int \<times> coverage_gap list) list tx" where
  "compute_gaps he ids =
     (if ids = [] then ret []
      else bind_tx (read_tx (computed_gaps he ids)) (\<lambda>found. then_tx (exec_tx (save_gaps he found)) (ret found)))"

definition resolve_gaps :: "health_env \<Rightarrow> (int \<times> string option) list \<Rightarrow> (int \<rightharpoonup> coverage_gap list) tx" where
  "resolve_gaps he rows =
     (case split_stored he rows Map.empty [] of
        (out, missing) \<Rightarrow> bind_tx (compute_gaps he missing) (\<lambda>found. ret (out ++ map_of found)))"

definition fill_candidates :: "health_env \<Rightarrow> db \<Rightarrow> int list" where
  \<comment> \<open>the query of \<open>FillCoverageGaps\<close>\<close>
  "fill_candidates he s =
     take max_lazy_coverage_gaps
       (rev (sort (map v_id (filter (\<lambda>v. stored_gaps he (v_gaps v) = None \<and>
          (\<exists>p \<in> set (db_pages s). p_published p = v_id v \<and> p_deleted p = None \<and> p_schedule p \<noteq> None)) (db_versions s)))))"

definition fill_gaps :: "health_env \<Rightarrow> unit tx" where
  "fill_gaps he = bind_tx (read_tx (fill_candidates he)) (\<lambda>ids. then_tx (bind_tx (compute_gaps he ids) (\<lambda>_. ret ())) (ret ()))"

subsection \<open>The health of one page\<close>

definition newest_refresh :: "int \<Rightarrow> db \<Rightarrow> int option" where
  \<comment> \<open>\<open>newestRefreshSQL\<close>\<close>
  "newest_refresh pid s =
     Option.bind (max_by (\<lambda>v. (v_created v, v_id v)) (filter (\<lambda>v. v_page v = pid \<and> v_refreshed_at v \<noteq> None) (db_versions s)))
       v_refreshed_at"

definition is_live :: "page \<Rightarrow> bool" where
  "is_live p = (p_published p \<noteq> 0 \<and> \<not> p_disabled p)"

definition health_input_of :: "page \<Rightarrow> int option \<times> int option \<Rightarrow> int option \<Rightarrow> coverage_gap list \<Rightarrow> health_input" where
  "health_input_of p c newest gaps =
     \<lparr>hi_schedule = deref (p_schedule p), hi_owner = deref (p_owner p), hi_is_live = is_live p,
      hi_created = scan_time (Some (p_created p)), hi_source_as_of = fst c, hi_refreshed_at = snd c,
      hi_newest_refresh = scan_time newest, hi_check_at = scan_time (p_check_at p),
      hi_check_outcome = deref (p_check_outcome p), hi_check_detail = deref (p_check_detail p), hi_gaps = gaps\<rparr>"

definition last_check_input :: "page \<Rightarrow> int option \<times> int option \<Rightarrow> freshness_input" where
  "last_check_input p c =
     \<lparr>fi_source_as_of = fst c, fi_refreshed_at = snd c, fi_check_at = scan_time (p_check_at p),
      fi_check_outcome = deref (p_check_outcome p), fi_check_detail = deref (p_check_detail p),
      fi_check_source = scan_time (p_check_source p)\<rparr>"

definition published_gaps :: "db \<Rightarrow> page \<Rightarrow> int \<times> string option" where
  \<comment> \<open>\<open>COALESCE(pv.id, 0), pv.coverage_gaps\<close>\<close>
  "published_gaps s p = (case published_version s p of None \<Rightarrow> (0, None) | Some v \<Rightarrow> (v_id v, v_gaps v))"

record page_health =
  ph_slug :: string
  ph_freshness :: "freshness option"
  ph_health :: refresh_health

definition gaps_in :: "(int \<rightharpoonup> coverage_gap list) \<Rightarrow> int \<Rightarrow> coverage_gap list" where
  \<comment> \<open>indexing a Go map\<close>
  "gaps_in found vid = (case found vid of None \<Rightarrow> [] | Some g \<Rightarrow> g)"

definition refresh_health_for :: "deploy_env \<Rightarrow> health_env \<Rightarrow> string \<Rightarrow> int \<Rightarrow> page_health tx" where
  "refresh_health_for env he slug now =
     bind_tx (lift_tx (normalize_slug (VStr slug))) (\<lambda>s.
     bind_tx (found_or (page_not_found s) (find_live s)) (\<lambda>p.
     bind_tx (read_tx (\<lambda>d. published_coverage env d p)) (\<lambda>c.
     bind_tx (lift_tx c) (\<lambda>c.
     bind_tx (read_tx (newest_refresh (p_id p))) (\<lambda>newest.
     bind_tx (read_tx (\<lambda>d. published_gaps d p)) (\<lambda>(vid, raw).
     let vid = (if p_schedule p = None then 0 else vid) in
     bind_tx (resolve_gaps he [(vid, raw)]) (\<lambda>found.
     ret \<lparr>ph_slug = p_slug p, ph_freshness = freshness_of (last_check_input p c) now,
          ph_health = health_of (health_input_of p c newest (gaps_in found vid)) now\<rparr>)))))))"

subsection \<open>The report\<close>

record health_counts =
  hc_blocked :: nat
  hc_overdue :: nat
  hc_source_stale :: nat
  hc_coverage_gap :: nat
  hc_ok :: nat
  hc_unscheduled :: nat
  hc_unscheduled_stale :: nat

definition count_health :: "refresh_health \<Rightarrow> health_counts \<Rightarrow> health_counts" where
  "count_health h c =
     (let c = (if rh_unscheduled_stale h then c\<lparr>hc_unscheduled_stale := hc_unscheduled_stale c + 1\<rparr> else c) in
      case rh_health h of
        Blocked \<Rightarrow> c\<lparr>hc_blocked := hc_blocked c + 1\<rparr>
      | Overdue \<Rightarrow> c\<lparr>hc_overdue := hc_overdue c + 1\<rparr>
      | Source_Stale \<Rightarrow> c\<lparr>hc_source_stale := hc_source_stale c + 1\<rparr>
      | Coverage_Gap \<Rightarrow> c\<lparr>hc_coverage_gap := hc_coverage_gap c + 1\<rparr>
      | Health_Ok \<Rightarrow> c\<lparr>hc_ok := hc_ok c + 1\<rparr>
      | Unscheduled \<Rightarrow> c\<lparr>hc_unscheduled := hc_unscheduled c + 1\<rparr>)"

definition no_counts :: health_counts where
  "no_counts = \<lparr>hc_blocked = 0, hc_overdue = 0, hc_source_stale = 0, hc_coverage_gap = 0, hc_ok = 0, hc_unscheduled = 0,
     hc_unscheduled_stale = 0\<rparr>"

text \<open>A page of \<open>ListPages\<close>, as far as the report reads it.\<close>

record listed_page =
  ls_slug :: string
  ls_title :: string
  ls_workspace :: int
  ls_workspace_name :: "string option"
  ls_is_live :: bool
  ls_freshness :: "freshness option"
  ls_health :: refresh_health

record health_row =
  hr_slug :: string
  hr_title :: string
  hr_workspace :: int
  hr_workspace_name :: "string option"
  hr_is_live :: bool
  hr_owner :: "string option"
  hr_schedule :: "string option"
  hr_health :: health
  hr_reason :: string
  hr_since :: "int option"
  hr_last_due :: "int option"
  hr_source_as_of :: "int option"
  hr_last_activity :: "int option"
  hr_unscheduled_stale :: bool
  hr_days_source :: "int option"
  hr_gaps :: "coverage_gap list"

definition health_row_of :: "listed_page \<Rightarrow> health_row" where
  "health_row_of p =
     (let h = ls_health p in
      \<lparr>hr_slug = ls_slug p, hr_title = ls_title p, hr_workspace = ls_workspace p, hr_workspace_name = ls_workspace_name p,
       hr_is_live = ls_is_live p, hr_owner = rh_owner h, hr_schedule = rh_schedule h, hr_health = rh_health h,
       hr_reason = rh_reason h, hr_since = rh_since h, hr_last_due = rh_last_due h,
       hr_source_as_of = (case ls_freshness p of None \<Rightarrow> None | Some f \<Rightarrow> fr_source_as_of f),
       hr_last_activity = rh_last_activity h, hr_unscheduled_stale = rh_unscheduled_stale h,
       hr_days_source = rh_days_source h, hr_gaps = rh_gaps h\<rparr>)"

definition health_rank :: "health \<Rightarrow> nat" where
  "health_rank h =
     (case h of Blocked \<Rightarrow> 0 | Overdue \<Rightarrow> 1 | Source_Stale \<Rightarrow> 2 | Coverage_Gap \<Rightarrow> 3 | Health_Ok \<Rightarrow> 4 | Unscheduled \<Rightarrow> 5)"

fun str_less :: "string \<Rightarrow> string \<Rightarrow> bool" where
  \<comment> \<open>Go compares strings by bytes\<close>
  "str_less [] t = (t \<noteq> [])"
| "str_less (a # s) [] = False"
| "str_less (a # s) (b # t) = (byte a < byte b \<or> a = b \<and> str_less s t)"

definition row_less :: "health_row \<Rightarrow> health_row \<Rightarrow> bool" where
  \<comment> \<open>the comparison of \<open>sort.SliceStable\<close>\<close>
  "row_less a b =
     (if health_rank (hr_health a) \<noteq> health_rank (hr_health b) then health_rank (hr_health a) < health_rank (hr_health b)
      else if hr_unscheduled_stale a \<noteq> hr_unscheduled_stale b then hr_unscheduled_stale a
      else if hr_unscheduled_stale a \<and> hr_source_as_of a \<noteq> hr_source_as_of b then after (hr_source_as_of b) (hr_source_as_of a)
      else if hr_since a \<noteq> hr_since b then
        (if hr_since a = None \<or> hr_since b = None then hr_since b = None else after (hr_since b) (hr_since a))
      else str_less (hr_slug a) (hr_slug b))"

text \<open>A stable sort: \<open>x\<close> goes before the first row that is less than it.\<close>

fun insert_row :: "health_row \<Rightarrow> health_row list \<Rightarrow> health_row list" where
  "insert_row x [] = [x]"
| "insert_row x (y # ys) = (if row_less y x then y # insert_row x ys else x # y # ys)"

definition sort_rows :: "health_row list \<Rightarrow> health_row list" where
  "sort_rows rows = foldr insert_row rows []"

record health_report =
  rp_generated :: "int option"
  rp_counts :: health_counts
  rp_pages :: "health_row list"

definition refresh_report :: "bool \<Rightarrow> int \<Rightarrow> listed_page list \<Rightarrow> health_report" where
  \<comment> \<open>\<open>ListRefreshHealth\<close>, from what \<open>ListPages\<close> answered\<close>
  "refresh_report only_attention now pages =
     \<lparr>rp_generated = ms_time (Some now),
      rp_counts = fold (\<lambda>p. count_health (ls_health p)) pages no_counts,
      rp_pages = sort_rows (map health_row_of
        (filter (\<lambda>p. \<not> (only_attention \<and> \<not> needs_attention (ls_health p))) pages))\<rparr>"

subsection \<open>Setting it\<close>

definition normalize_refresh_schedule :: "health_env \<Rightarrow> string \<Rightarrow> go_error + string" where
  "normalize_refresh_schedule he v =
     (if js_trim v = [] then Inr []
      else
        (case parse_schedule v of
           Inl e \<Rightarrow> Inl (bad_request (''refresh schedule: '' @ cron_error_text (he_quote he) e) ''refresh_schedule_invalid'' VNil)
         | Inr s \<Rightarrow> Inr (sc_source s)))"

definition normalize_refresh_owner :: "health_env \<Rightarrow> string \<Rightarrow> go_error + string" where
  "normalize_refresh_owner he v =
     (if js_trim v = [] then Inr []
      else
        (case he_email he v of
           None \<Rightarrow> Inl (bad_request ''refresh owner must be an email address'' ''refresh_owner_invalid'' VNil)
         | Some email \<Rightarrow> Inr email))"

definition schedule_arg :: "goval \<Rightarrow> (string \<Rightarrow> go_error + string) \<Rightarrow> string \<Rightarrow> go_error + string \<times> bool" where
  \<comment> \<open>absent, cleared or a value\<close>
  "schedule_arg v check name =
     (case v of
        VNil \<Rightarrow> Inr ([], False)
      | VNull \<Rightarrow> Inr ([], True)
      | VStr s \<Rightarrow> res_bind (check s) (\<lambda>value. Inr (value, True))
      | _ \<Rightarrow> Inl (bad_request (name @ '' must be a string or null'') (name @ ''_invalid'') VNil))"

record schedule_result =
  sr_slug :: string
  sr_changed :: bool
  sr_health :: refresh_health

definition opt_text :: "string option \<Rightarrow> goval" where
  "opt_text x = (case x of None \<Rightarrow> VNil | Some y \<Rightarrow> VStr y)"

definition schedule_meta :: "string \<Rightarrow> string \<Rightarrow> string option \<Rightarrow> string option \<Rightarrow> goval" where
  "schedule_meta schedule owner old_schedule old_owner =
     VObj [(''refresh_schedule'', opt_text (str_ptr schedule)), (''refresh_owner'', opt_text (str_ptr owner)),
           (''previous_schedule'', opt_text old_schedule), (''previous_owner'', opt_text old_owner)]"

definition set_refresh :: "string \<Rightarrow> string \<Rightarrow> page \<Rightarrow> page" where
  "set_refresh schedule owner p = p\<lparr>p_schedule := str_ptr schedule, p_owner := str_ptr owner\<rparr>"

definition write_schedule :: "int \<Rightarrow> string \<times> bool \<Rightarrow> string \<times> bool \<Rightarrow> actor \<Rightarrow> bool tx" where
  \<comment> \<open>answers whether anything changed\<close>
  "write_schedule pid schedule owner a =
     bind_tx (found_or (Other ''no rows in result set'') (find_page pid)) (\<lambda>p.
     let new_schedule = (if snd schedule then fst schedule else deref (p_schedule p));
         new_owner = (if snd owner then fst owner else deref (p_owner p)) in
     if new_schedule \<noteq> deref (p_schedule p) \<or> new_owner \<noteq> deref (p_owner p) then
       then_tx (exec_tx (update_page pid (set_refresh new_schedule new_owner)))
       (then_tx (audit_write (actor_entry a ''set_refresh_schedule'' pid 0
          (schedule_meta new_schedule new_owner (p_schedule p) (p_owner p))))
        (ret True))
     else ret False)"

definition set_schedule_tx ::
  "deploy_env \<Rightarrow> health_env \<Rightarrow> int \<Rightarrow> string \<Rightarrow> string \<times> bool \<Rightarrow> string \<times> bool \<Rightarrow> actor \<Rightarrow> schedule_result tx" where
  "set_schedule_tx env he clock slug schedule owner a =
     bind_tx (lock_page slug) (\<lambda>lp.
     bind_tx (write_schedule (lp_id lp) schedule owner a) (\<lambda>changed.
     bind_tx (refresh_health_for env he (lp_slug lp) clock) (\<lambda>h.
     ret \<lparr>sr_slug = lp_slug lp, sr_changed = changed, sr_health = ph_health h\<rparr>)))"

definition schedule_args :: "health_env \<Rightarrow> goval \<Rightarrow> goval \<Rightarrow> go_error + (string \<times> bool) \<times> (string \<times> bool)" where
  "schedule_args he schedule owner =
     res_bind (schedule_arg schedule (normalize_refresh_schedule he) ''refresh_schedule'') (\<lambda>s.
     res_bind (schedule_arg owner (normalize_refresh_owner he) ''refresh_owner'') (\<lambda>ow.
     res_bind (require (snd s \<or> snd ow)
       (bad_request ''pass schedule, owner or both (null clears one)'' ''refresh_schedule_required'' VNil)) (\<lambda>_.
     Inr (s, ow))))"

definition set_refresh_schedule ::
  "deploy_env \<Rightarrow> health_env \<Rightarrow> int \<Rightarrow> request \<Rightarrow> string \<Rightarrow> goval \<Rightarrow> goval \<Rightarrow> actor \<Rightarrow> db \<Rightarrow>
     (go_error + schedule_result) \<times> db" where
  "set_refresh_schedule env he clock rq slug schedule owner a =
     from_prepared (schedule_args he schedule owner) (\<lambda>(s, ow). with_tx rq (set_schedule_tx env he clock slug s ow a))"

subsection \<open>Fires and activity\<close>

lemma early_tolerance_bounds:
  assumes "wf_schedule s" "fires s f"
  shows "0 \<le> early_tolerance s f" "early_tolerance s f \<le> refresh_early"
proof -
  have "0 \<le> (f - p) div 2" if "prev s (f - minute_ns) = Some p" for p
    using cron.prev_fire [OF assms(1) that] by simp
  then show "0 \<le> early_tolerance s f" "early_tolerance s f \<le> refresh_early"
    by (auto simp add: early_tolerance_def refresh_early_def split: option.splits)
qed

lemma early_one:
  assumes wf: "wf_schedule s" and f: "fires s f" and g: "fires s g" "f < g" and a: "a \<le> f"
  shows "\<not> covers s (Some a) g"
proof (cases "prev s (g - minute_ns)")
  case None
  have "\<not> g - f \<le> week_ns" using cron.before_near [OF wf None g(1) f g(2)] by blast
  with a None show ?thesis by (simp add: covers_def early_tolerance_def refresh_early_def)
next
  case (Some p)
  from cron.before [OF wf Some] f g have p: "f \<le> p" "p \<le> g - minute_ns" by auto
  then have "p < g - (g - p) div 2" by linarith
  with p a have "a < g - (g - p) div 2" by linarith
  then show ?thesis by (auto simp add: covers_def early_tolerance_def Some)
qed

lemma next_near:
  assumes "wf_schedule s" "fires s q" "t < q" "q < t + 2928 * day_ns"
  shows "next_fire s t \<noteq> None"
proof
  assume "next_fire s t = None"
  then have "\<not> day_of q < day_of (truncate_minute t + minute_ns) + int search_days"
    using next_fire_first [OF assms(1), of t] assms(2,3) by (auto simp add: is_first_def)
  moreover have "t div day_ns \<le> (truncate_minute t + minute_ns) div day_ns"
    by (rule zdiv_mono1) (simp_all add: truncate_minute_def pos_mod_bound less_imp_le)
  moreover have "q div day_ns \<le> (t + 2928 * day_ns) div day_ns" by (rule zdiv_mono1) (use assms(4) in simp_all)
  moreover have "(t + 2928 * day_ns) div day_ns = 2928 + t div day_ns" by (rule div_mult_self1) simp
  ultimately show False unfolding day_of_def search_days_def by simp
qed

lemma first_missed_spec:
  assumes wf: "wf_schedule s" and due: "fires s due" "\<not> covers s (Some a) due" "a < due" "due < a + 2928 * day_ns"
  defines "f \<equiv> first_missed s a due"
  shows "fires s f" "a < f" "f \<le> due" "\<not> covers s (Some a) f"
    "\<And>q. fires s q \<Longrightarrow> a < q \<Longrightarrow> q < f \<Longrightarrow> covers s (Some a) q"
proof -
  obtain n where n: "next_fire s a = Some n" using next_near [OF wf due(1,3,4)] by auto
  have n1: "fires s n" "a < n" "n \<le> due" and least: "\<And>q. fires s q \<Longrightarrow> a < q \<Longrightarrow> n \<le> q"
    using cron.succ_fire [OF wf n] cron.succ_least [OF wf n] due by auto
  have "fires s f \<and> a < f \<and> f \<le> due \<and> \<not> covers s (Some a) f \<and> (\<forall>q. fires s q \<longrightarrow> a < q \<longrightarrow> q < f \<longrightarrow> covers s (Some a) q)"
  proof (cases "covers s (Some a) n")
    case False
    with n n1 least show ?thesis unfolding f_def first_missed_def by force
  next
    case True
    with due(2) n1(3) have less: "n < due" by (cases "n = due") auto
    then obtain m where m: "next_fire s n = Some m" using next_near [OF wf due(1) less] n1 due(4) by force
    have m1: "fires s m" "n < m" "m \<le> due" and least2: "\<And>q. fires s q \<Longrightarrow> n < q \<Longrightarrow> m \<le> q"
      using cron.succ_fire [OF wf m] cron.succ_least [OF wf m] due(1) less by auto
    have "\<not> covers s (Some a) m" using early_one [OF wf n1(1) m1(1,2)] n1(2) by simp
    moreover have "covers s (Some a) q" if "fires s q" "a < q" "q < m" for q
      using least [OF that(1,2)] least2 [OF that(1)] that(3) True by (cases "q = n") auto
    moreover have "f = m" using n m True m1(3) by (simp add: f_def first_missed_def)
    ultimately show ?thesis using n1 m1 by auto
  qed
  then show "fires s f" "a < f" "f \<le> due" "\<not> covers s (Some a) f"
    "\<And>q. fires s q \<Longrightarrow> a < q \<Longrightarrow> q < f \<Longrightarrow> covers s (Some a) q" by blast+
qed

subsection \<open>The order of the report\<close>

definition time_key :: "nat \<Rightarrow> int option \<Rightarrow> nat \<times> int" where
  \<comment> \<open>\<open>absent\<close> is where a missing time goes\<close>
  "time_key absent t = (case t of None \<Rightarrow> (absent, 0) | Some t \<Rightarrow> (1, t))"

definition row_key :: "health_row \<Rightarrow> nat \<times> bool \<times> (nat \<times> int) \<times> (nat \<times> int) \<times> nat list" where
  "row_key r =
     (health_rank (hr_health r), \<not> hr_unscheduled_stale r,
      if hr_unscheduled_stale r then time_key 0 (hr_source_as_of r) else (0, 0),
      time_key 2 (hr_since r), map byte (hr_slug r))"

lemma str_less_bytes: "str_less s t \<longleftrightarrow> map byte s < map byte t"
proof (induction s t rule: str_less.induct)
  case (1 t)
  then show ?case by (cases t) simp_all
qed (auto simp add: of_char_eq_iff)

lemma time_key_less: "time_key 0 t < time_key 0 u \<longleftrightarrow> after u t"
  by (cases t; cases u) (simp_all add: time_key_def after_def)

lemma pair_less: "(a, b) < (c, d) \<longleftrightarrow> a < c \<or> a = c \<and> b < d" for a c :: "'a::order"
  by (auto simp add: less_le)

lemma time_key_eq: "time_key 0 t = time_key 0 u \<longleftrightarrow> t = u" "time_key 2 t = time_key 2 u \<longleftrightarrow> t = u"
  by (cases t; cases u; simp add: time_key_def)+

lemma since_less:
  "t \<noteq> u \<Longrightarrow> (if t = None \<or> u = None then u = None else after u t) \<longleftrightarrow> time_key 2 t < time_key 2 u"
  by (cases t; cases u) (simp_all add: time_key_def after_def)

lemma row_less_key: "row_less a b \<longleftrightarrow> row_key a < row_key b"
proof -
  consider "health_rank (hr_health a) \<noteq> health_rank (hr_health b)"
    | "health_rank (hr_health a) = health_rank (hr_health b)" "hr_unscheduled_stale a \<noteq> hr_unscheduled_stale b"
    | "health_rank (hr_health a) = health_rank (hr_health b)" "hr_unscheduled_stale a = hr_unscheduled_stale b" by blast
  then show ?thesis
  proof cases
    case 3
    have inner: "(if hr_since a \<noteq> hr_since b then
          (if hr_since a = None \<or> hr_since b = None then hr_since b = None else after (hr_since b) (hr_since a))
        else str_less (hr_slug a) (hr_slug b)) \<longleftrightarrow>
      (time_key 2 (hr_since a), map byte (hr_slug a)) < (time_key 2 (hr_since b), map byte (hr_slug b))"
      using since_less [of "hr_since a" "hr_since b"] by (simp only: pair_less time_key_eq str_less_bytes split: if_split) auto
    show ?thesis
    proof (cases "hr_unscheduled_stale a \<and> hr_source_as_of a \<noteq> hr_source_as_of b")
      case True
      with 3 show ?thesis by (simp add: row_less_def row_key_def pair_less time_key_less time_key_eq del: less_prod_simp)
    next
      case False
      with 3 show ?thesis unfolding row_less_def inner row_key_def pair_less [of "health_rank _"] pair_less [of "\<not> _"] pair_less [of "if _ then _ else _"]
        by auto
    qed
  qed (simp_all only: row_less_def row_key_def pair_less, auto)
qed

lemma insert_row_key: "insert_row x rows = insort_key row_key x rows"
  by (induction rows) (auto simp add: row_less_key)

lemma sort_rows_key: "sort_rows rows = sort_key row_key rows"
  by (simp add: sort_rows_def sort_key_def insert_row_key [abs_def])

definition counted :: "health_counts \<Rightarrow> nat" where
  "counted c = hc_blocked c + hc_overdue c + hc_source_stale c + hc_coverage_gap c + hc_ok c + hc_unscheduled c"

lemma count_fold:
  "counted (fold (\<lambda>p. count_health (ls_health p)) pages c) = counted c + length pages"
proof (induction pages arbitrary: c)
  case (Cons p pages)
  have "counted (count_health (ls_health p) c) = counted c + 1"
    by (cases "rh_health (ls_health p)") (simp_all add: count_health_def counted_def Let_def)
  with Cons show ?case by simp
qed simp

subsection \<open>What setting a schedule does\<close>

lemma keeps_versions:
  assumes "\<And>v. v_id (f v) = v_id v \<and> v_page (f v) = v_page v \<and> v_status (f v) = v_status v \<and> content_of (f v) = content_of v"
  shows "keeps s (s\<lparr>db_versions := map f (db_versions s)\<rparr>)"
proof (rule keepsI, rule conjI)
  let ?s = "s\<lparr>db_versions := map f (db_versions s)\<rparr>"
  have f: "v_id (f v) = v_id v" "v_page (f v) = v_page v" "v_status (f v) = v_status v" "content_of (f v) = content_of v" for v
    using assms [of v] by simp_all
  assume wf: "wf_db s"
  have "v_id \<circ> f = v_id" using f(1) by auto
  moreover have "v_page ` set (map f (db_versions s)) = v_page ` set (db_versions s)" using f(2) by (simp add: image_image)
  moreover have "(\<exists>v. points_to ?s p v \<and> v_status v = Approved) \<longleftrightarrow> (\<exists>v. points_to s p v \<and> v_status v = Approved)" for p
    using f by (auto simp add: points_to_def)
  ultimately show "wf_db ?s"
    using wf f by (simp add: wf_db_def ids_ok_def slugs_ok_def pointers_ok_def refs_ok_def)
  show "history s ?s"
    using history_refl [of s] f by (auto simp add: history_def intro!: bexI)
qed

lemma save_gaps_row:
  fixes v :: version and he :: health_env and found :: "(int \<times> coverage_gap list) list"
  defines "w \<equiv> (case map_of found (v_id v) of
      Some g \<Rightarrow> if he_json he g \<noteq> [] \<and> stored_gaps he (v_gaps v) = None \<and> he_saved he (v_id v)
        then v\<lparr>v_gaps := Some (he_json he g)\<rparr> else v
    | None \<Rightarrow> v)"
  shows "v_id w = v_id v" "v_page w = v_page v" "v_status w = v_status v" "content_of w = content_of v"
  by (auto simp add: w_def content_of_def split: option.splits)

lemma save_gaps_keeps: "keeps s (save_gaps he found s)"
  unfolding save_gaps_def by (rule keeps_versions) (simp add: save_gaps_row)

lemma save_gaps_other [simp]:
  "db_pages (save_gaps he found s) = db_pages s" "db_audit (save_gaps he found s) = db_audit s"
  "map content_of (db_versions (save_gaps he found s)) = map content_of (db_versions s)"
  by (simp_all add: save_gaps_def save_gaps_row)

text \<open>A health read changes at most the stored findings.\<close>

definition only_gaps :: "db \<Rightarrow> db \<Rightarrow> bool" where
  "only_gaps s s' \<longleftrightarrow>
     db_pages s' = db_pages s \<and> db_audit s' = db_audit s \<and> map content_of (db_versions s') = map content_of (db_versions s) \<and>
     keeps s s'"

interpretation gaps: tx_contract only_gaps
  by unfold_locales (auto simp add: only_gaps_def keep.refl keep.clock intro: keep.trans)

lemma resolve_gaps_only: "obeys only_gaps (resolve_gaps he rows)"
proof -
  have "obeys only_gaps (compute_gaps he ids)" for ids
    unfolding compute_gaps_def
    by (intro gaps.branch gaps.bind gaps.ret gaps.read gaps.andthen gaps.exec) (simp add: only_gaps_def save_gaps_keeps)
  then show ?thesis by (auto simp add: resolve_gaps_def split: prod.split intro!: gaps.bind gaps.ret)
qed

lemma refresh_health_for_only: "obeys only_gaps (refresh_health_for env he slug now)"
  unfolding refresh_health_for_def Let_def split_beta
  by (intro gaps.bind gaps.lift gaps.found gaps.read gaps.ret resolve_gaps_only)

lemma fill_gaps_only: "obeys only_gaps (fill_gaps he)"
  unfolding fill_gaps_def compute_gaps_def
  by (intro gaps.bind gaps.read gaps.andthen gaps.branch gaps.ret gaps.exec) (simp add: only_gaps_def save_gaps_keeps)

text \<open>The write, by what it finds and what it leaves.\<close>

definition new_text :: "string \<times> bool \<Rightarrow> string option \<Rightarrow> string" where
  "new_text x old = (if snd x then fst x else deref old)"

lemma write_schedule_Inr:
  "write_schedule pid schedule owner a s = Inr (changed, s') \<longleftrightarrow>
     (\<exists>p. find_page pid s = Some p \<and>
        changed = (new_text schedule (p_schedule p) \<noteq> deref (p_schedule p) \<or> new_text owner (p_owner p) \<noteq> deref (p_owner p)) \<and>
        s' = (if changed then add_audit (actor_entry a ''set_refresh_schedule'' pid 0
            (schedule_meta (new_text schedule (p_schedule p)) (new_text owner (p_owner p)) (p_schedule p) (p_owner p)))
            (update_page pid (set_refresh (new_text schedule (p_schedule p)) (new_text owner (p_owner p))) s) else s))"
  by (auto simp add: write_schedule_def new_text_def tx_simps Let_def)

lemma write_schedule_keeps: "obeys keeps (write_schedule pid schedule owner a)"
  unfolding write_schedule_def Let_def
  by (intro keeps_rules keeps_setting) (simp_all add: set_refresh_def page_refs_def)

lemma set_schedule_tx_keeps: "obeys keeps (set_schedule_tx env he clock slug schedule owner a)"
proof -
  have "obeys keeps (refresh_health_for env he slug now)" for slug now
    using refresh_health_for_only [of env he slug now] by (auto simp add: obeys_def only_gaps_def)
  then show ?thesis unfolding set_schedule_tx_def by (intro keeps_rules write_schedule_keeps)
qed

lemma find_page_wf: "wf_db s \<Longrightarrow> p \<in> set (db_pages s) \<Longrightarrow> find_page (p_id p) s = Some p"
  unfolding find_page_def by (rule find_key_eq) (simp_all add: wf_db_def ids_ok_def)

text \<open>What a successful call leaves.\<close>

lemma set_refresh_schedule_spec:
  assumes wf: "wf_db s" and run: "set_refresh_schedule env he clock rq slug schedule owner a s = (Inr r, s')"
  obtains p sc ow where "locked s slug p" "schedule_args he schedule owner = Inr (sc, ow)" "sr_slug r = p_slug p"
    "sr_changed r \<longleftrightarrow> new_text sc (p_schedule p) \<noteq> deref (p_schedule p) \<or> new_text ow (p_owner p) \<noteq> deref (p_owner p)"
    "db_pages s' = (if sr_changed r then map (\<lambda>q. if q = p
        then set_refresh (new_text sc (p_schedule p)) (new_text ow (p_owner p)) p else q) (db_pages s) else db_pages s)"
    "map content_of (db_versions s') = map content_of (db_versions s)"
    "if sr_changed r then \<exists>e. db_audit s' = db_audit s @ [e] \<and> a_action e = ''set_refresh_schedule'' else db_audit s' = db_audit s"
proof -
  let ?s = "s\<lparr>db_now := rq_now rq\<rparr>"
  from run obtain sc ow where args: "schedule_args he schedule owner = Inr (sc, ow)"
    and tx: "set_schedule_tx env he clock slug sc ow a ?s = Inr (r, s')"
    by (auto simp add: set_refresh_schedule_def from_prepared_Inr with_tx_Inr)
  from tx obtain p s1 h where p: "locked s slug p" and w: "write_schedule (p_id p) sc ow a ?s = Inr (sr_changed r, s1)"
    and h: "refresh_health_for env he (p_slug p) clock s1 = Inr (h, s')" and slug: "sr_slug r = p_slug p"
    by (auto simp add: set_schedule_tx_def tx_simps)
  have pm: "p \<in> set (db_pages s)" using lockedD [OF p] by simp
  have only: "q = p \<longleftrightarrow> p_id q = p_id p" if "q \<in> set (db_pages s)" for q
    using wf_page_unique [OF wf that pm] by auto
  have "find_page (p_id p) ?s = Some p" using find_page_wf [OF wf pm] by (simp add: find_page_def)
  with w have c: "sr_changed r \<longleftrightarrow> new_text sc (p_schedule p) \<noteq> deref (p_schedule p) \<or> new_text ow (p_owner p) \<noteq> deref (p_owner p)"
    and s1: "s1 = (if sr_changed r then add_audit (actor_entry a ''set_refresh_schedule'' (p_id p) 0
            (schedule_meta (new_text sc (p_schedule p)) (new_text ow (p_owner p)) (p_schedule p) (p_owner p)))
            (update_page (p_id p) (set_refresh (new_text sc (p_schedule p)) (new_text ow (p_owner p))) ?s) else ?s)"
    by (auto simp add: write_schedule_Inr)
  have "only_gaps s1 s'" by (rule obeysD [OF refresh_health_for_only h])
  then have s': "db_pages s' = db_pages s1" "db_audit s' = db_audit s1" "map content_of (db_versions s') = map content_of (db_versions s1)"
    by (simp_all add: only_gaps_def)
  show thesis
  proof (rule that [OF p args slug c])
    show "db_pages s' = (if sr_changed r then map (\<lambda>q. if q = p
        then set_refresh (new_text sc (p_schedule p)) (new_text ow (p_owner p)) p else q) (db_pages s) else db_pages s)"
      using only by (auto simp add: s' s1 add_audit_def update_page_def update_where_def)
    show "map content_of (db_versions s') = map content_of (db_versions s)"
      unfolding s' by (simp add: s1 add_audit_def update_page_def)
    show "if sr_changed r then \<exists>e. db_audit s' = db_audit s @ [e] \<and> a_action e = ''set_refresh_schedule'' else db_audit s' = db_audit s"
      by (simp add: s' s1 add_audit_def update_page_def audit_row_of_def actor_entry_def)
  qed
qed

subsection \<open>Properties\<close>

text \<open>
  An activity answers at most one fire. With a fire at or after it, it never counts for a later
  one, however early the tolerance lets a run land: the tolerance is at most half the gap before the
  fire.
\<close>

lemma activity_answers_one_fire:
  assumes "parse_schedule expr = Inr s" "fires s f" "fires s g" "f < g" "a \<le> f"
  shows "\<not> covers s (Some a) g"
  by (rule early_one [OF parse_schedule_wf [OF assms(1)] assms(2-5)])

lemma activity_answers_one_fire_witness:
  "\<not> covers ex_weekly_schedule (Some (at_minute 10959 540)) (at_minute 10966 540)"
proof -
  have "fires ex_weekly_schedule (at_minute 10959 540)" by (subst fires_at_minute) (simp, code_simp)
  moreover have "fires ex_weekly_schedule (at_minute 10966 540)" by (subst fires_at_minute) (simp, code_simp)
  ultimately show ?thesis by (rule activity_answers_one_fire [OF ex_weekly_parse]) (simp_all add: at_minute_def)
qed

text \<open>
  An overdue page is overdue since the first fire nothing answered. For a fire the last activity
  does not answer, less than eight years after it, \<open>firstMissed\<close> is a fire after the activity that
  it does not answer either, not later than that one, and the activity answers every fire before.
\<close>

lemma first_missed_first:
  assumes "parse_schedule expr = Inr s" "fires s due" "\<not> covers s (Some a) due" "a < due" "due < a + 2928 * day_ns"
  shows "fires s (first_missed s a due) \<and> a < first_missed s a due \<and> first_missed s a due \<le> due \<and>
    \<not> covers s (Some a) (first_missed s a due) \<and>
    (\<forall>q. fires s q \<and> a < q \<and> q < first_missed s a due \<longrightarrow> covers s (Some a) q)"
  using first_missed_spec [OF parse_schedule_wf [OF assms(1)] assms(2-5)] by blast

lemma first_missed_first_witness:
  "first_missed ex_weekly_schedule (at_minute 10959 530) (at_minute 10973 540) = at_minute 10966 540 \<and>
   fires ex_weekly_schedule (at_minute 10966 540)"
proof -
  have due: "fires ex_weekly_schedule (at_minute 10973 540)" by (subst fires_at_minute) (simp, code_simp)
  have "\<not> covers ex_weekly_schedule (Some (at_minute 10959 530)) (at_minute 10973 540)" by code_simp
  from first_missed_first [OF ex_weekly_parse due this]
  have "fires ex_weekly_schedule (first_missed ex_weekly_schedule (at_minute 10959 530) (at_minute 10973 540))"
    by (simp add: at_minute_def)
  moreover have "first_missed ex_weekly_schedule (at_minute 10959 530) (at_minute 10973 540) = at_minute 10966 540" by code_simp
  ultimately show ?thesis by simp
qed

definition due_fire :: "schedule \<Rightarrow> int \<Rightarrow> int \<Rightarrow> bool" where
  \<comment> \<open>the latest fire whose grace has passed, within the search horizon\<close>
  "due_fire s now due \<longleftrightarrow>
     is_latest (\<lambda>q. fires s q \<and> q \<le> now - refresh_grace \<and> day_of (now - refresh_grace) - int search_days < day_of q) (Some due)"

definition last_refresh :: "health_input \<Rightarrow> int option" where
  "last_refresh inp = latest [ms_time (hi_refreshed_at inp), ms_time (hi_newest_refresh inp)] None"

definition last_activity :: "health_input \<Rightarrow> int option" where
  "last_activity inp = latest [last_refresh inp, ms_time (hi_check_at inp)] None"

definition data_since :: "health_input \<Rightarrow> int option" where
  \<comment> \<open>the age of the data, or of the page when there has never been any\<close>
  "data_since inp = (if no_source_yet (hi_source_as_of inp) then ms_time (hi_created inp) else ms_time (source_stamp (hi_source_as_of inp)))"

lemma due_fire_prev:
  assumes "wf_schedule s"
  shows "due_fire s now due \<longleftrightarrow> prev s (now - refresh_grace) = Some due"
proof -
  have "is_latest P x \<Longrightarrow> is_latest P (Some due) \<longleftrightarrow> x = Some due" for P :: "int \<Rightarrow> bool" and x
    by (cases x) (auto simp add: is_latest_def intro: order_antisym)
  from this [OF prev_latest [OF assms]] show ?thesis unfolding due_fire_def .
qed

lemma judge_verdict:
  "fst (judge s inp source lr lc now) =
     (if blocked_rule inp lr lc now \<noteq> None then Blocked
      else if overdue_rule s (latest [lr, lc] None) (hi_created inp) now \<noteq> None then Overdue
      else if stale_rule s (no_source_yet (hi_source_as_of inp)) source (hi_created inp) (latest [lr, lc] None) now \<noteq> None then Source_Stale
      else if hi_gaps inp \<noteq> [] then Coverage_Gap else Health_Ok)"
  by (simp add: judge_def Let_def split: option.split prod.split)

lemma blocked_iff:
  "blocked_rule inp lr lc now \<noteq> None \<longleftrightarrow> lc \<noteq> None \<and> \<not> after lr lc \<and> hi_check_outcome inp \<in> set failed_check_outcomes"
  by (simp add: blocked_rule_def is_failed_outcome_def list_ex_iff split: option.split)

lemma overdue_iff:
  "wf_schedule s \<Longrightarrow> overdue_rule s activity created now \<noteq> None \<longleftrightarrow>
     (\<exists>due. due_fire s now due \<and>
        (case activity of Some a \<Rightarrow> a < due - early_tolerance s due | None \<Rightarrow> \<exists>c. created = Some c \<and> c < due))"
  unfolding overdue_rule_def by (auto simp only: due_fire_prev covers_def not_not split: option.split if_split)

lemma stale_iff:
  "stale_rule s waiting source created activity now \<noteq> None \<longleftrightarrow>
     (\<exists>t. (if waiting then ms_time created else source) = Some t \<and> 0 < max_gap s now \<and> max_gap s now + refresh_stale_slack < now - t)"
  unfolding stale_rule_def Let_def by (auto split: option.split)

lemma health_of_verdict:
  "rh_health (health_of inp now) =
     (case parse_schedule (hi_schedule inp) of
        Inl e \<Rightarrow> Unscheduled
      | Inr s \<Rightarrow> fst (judge s inp (ms_time (source_stamp (hi_source_as_of inp))) (last_refresh inp) (ms_time (hi_check_at inp)) now))"
proof -
  have "go_fields [] = []" using go_fields_join [of "[]"] by simp
  then have none: "parse_schedule [] \<noteq> Inr s" for s by (simp only: parse_schedule_Inr) simp
  show ?thesis
  proof (cases "parse_schedule (hi_schedule inp)")
    case (Inl e)
    show ?thesis unfolding health_of_def Let_def Inl sum.case by (simp only: refresh_health.simps split: if_split) simp
  next
    case (Inr s)
    then have "hi_schedule inp \<noteq> []" using none by metis
    then show ?thesis
      unfolding health_of_def Let_def last_refresh_def [symmetric] Inr sum.case
      by (simp only: if_False split_beta refresh_health.simps)
  qed
qed

text \<open>
  C25: the verdict on a page is the first of its rules that holds: no readable schedule is no
  judgement; then a failed check that is the latest event; then the latest fire whose three hours
  of grace have passed with no activity that answers it (for a page without activity, a fire after its
  creation); then source data (or the creation, when there has never been any) older than the
  longest gap plus two days; then a gap in the published data. Only these four need attention.
\<close>

theorem health_verdict:
  "rh_health (health_of inp now) =
    (case parse_schedule (hi_schedule inp) of
       Inl e \<Rightarrow> Unscheduled
     | Inr s \<Rightarrow>
         if ms_time (hi_check_at inp) \<noteq> None \<and> \<not> after (last_refresh inp) (ms_time (hi_check_at inp)) \<and>
            hi_check_outcome inp \<in> set failed_check_outcomes then Blocked
         else if (\<exists>due. due_fire s now due \<and>
            (case last_activity inp of Some a \<Rightarrow> a < due - early_tolerance s due
             | None \<Rightarrow> \<exists>c. hi_created inp = Some c \<and> c < due)) then Overdue
         else if (\<exists>t. data_since inp = Some t \<and> 0 < max_gap s now \<and> max_gap s now + refresh_stale_slack < now - t) then Source_Stale
         else if hi_gaps inp \<noteq> [] then Coverage_Gap
         else Health_Ok) \<and>
   (needs_attention (health_of inp now) \<longleftrightarrow> rh_health (health_of inp now) \<notin> {Health_Ok, Unscheduled})"
proof (rule conjI)
  show "needs_attention (health_of inp now) \<longleftrightarrow> rh_health (health_of inp now) \<notin> {Health_Ok, Unscheduled}"
    by (cases "rh_health (health_of inp now)") (simp_all add: needs_attention_def)
next
  show "rh_health (health_of inp now) =
    (case parse_schedule (hi_schedule inp) of
       Inl e \<Rightarrow> Unscheduled
     | Inr s \<Rightarrow>
         if ms_time (hi_check_at inp) \<noteq> None \<and> \<not> after (last_refresh inp) (ms_time (hi_check_at inp)) \<and>
            hi_check_outcome inp \<in> set failed_check_outcomes then Blocked
         else if (\<exists>due. due_fire s now due \<and>
            (case last_activity inp of Some a \<Rightarrow> a < due - early_tolerance s due
             | None \<Rightarrow> \<exists>c. hi_created inp = Some c \<and> c < due)) then Overdue
         else if (\<exists>t. data_since inp = Some t \<and> 0 < max_gap s now \<and> max_gap s now + refresh_stale_slack < now - t) then Source_Stale
         else if hi_gaps inp \<noteq> [] then Coverage_Gap
         else Health_Ok)"
  proof (cases "parse_schedule (hi_schedule inp)")
    case (Inl e)
    then show ?thesis unfolding health_of_verdict by (simp only: sum.case)
  next
    case (Inr s)
    show ?thesis
      unfolding health_of_verdict Inr sum.case judge_verdict blocked_iff overdue_iff [OF parse_schedule_wf [OF Inr]] stale_iff
        last_activity_def [symmetric] data_since_def [symmetric] by (rule refl)
  qed
qed

text \<open>
  C26: the report lists every page asked for once, worst first. The rows are a stable sort of the pages
  (with \<open>onlyAttention\<close> of those that need attention) by rank of the verdict, then the hinted ones
  with the oldest data first, then the oldest problem (no start date last), then the slug; and the
  counts add up to all pages, whichever rows are listed.
\<close>

theorem report_worst_first:
  "sorted (map row_key (rp_pages (refresh_report only_attention now pages))) \<and>
   mset (rp_pages (refresh_report only_attention now pages)) =
     mset (map health_row_of (if only_attention then filter (\<lambda>p. needs_attention (ls_health p)) pages else pages)) \<and>
   filter (\<lambda>r. row_key r = k) (rp_pages (refresh_report only_attention now pages)) =
     filter (\<lambda>r. row_key r = k) (map health_row_of (if only_attention then filter (\<lambda>p. needs_attention (ls_health p)) pages else pages)) \<and>
   counted (rp_counts (refresh_report only_attention now pages)) = length pages"
proof -
  have rows: "rp_pages (refresh_report only_attention now pages) =
      sort_key row_key (map health_row_of (if only_attention then filter (\<lambda>p. needs_attention (ls_health p)) pages else pages))"
    by (simp add: refresh_report_def sort_rows_key)
  have "counted (rp_counts (refresh_report only_attention now pages)) = length pages"
    by (simp add: refresh_report_def count_fold) (simp add: no_counts_def counted_def)
  moreover have "mset (sort_key row_key xs) = mset xs" for xs by simp
  ultimately show ?thesis unfolding rows by (simp only: sort_key_stable sorted_sort_key simp_thms)
qed

lemma schedule_arg_Inr:
  "schedule_arg v check name = Inr x \<longleftrightarrow>
     v = VNil \<and> x = ([], False) \<or> v = VNull \<and> x = ([], True) \<or> (\<exists>t y. v = VStr t \<and> check t = Inr y \<and> x = (y, True))"
  by (cases v) (auto simp add: schedule_arg_def res_bind_Inr_iff)

lemma normalize_refresh_schedule_Inr:
  "normalize_refresh_schedule he v = Inr y \<Longrightarrow>
     if js_trim v = [] then y = [] else \<exists>s. parse_schedule v = Inr s \<and> parse_schedule y = Inr s"
  using parse_schedule_source [of v] by (auto simp add: normalize_refresh_schedule_def split: if_splits sum.splits)

lemma normalize_refresh_owner_Inr:
  "normalize_refresh_owner he v = Inr y \<Longrightarrow> if js_trim v = [] then y = [] else he_email he v = Some y"
  by (auto simp add: normalize_refresh_owner_def split: if_splits option.splits)

lemma schedule_args_Inr:
  "schedule_args he sched own = Inr (sc, ow) \<Longrightarrow>
     schedule_arg sched (normalize_refresh_schedule he) ''refresh_schedule'' = Inr sc \<and>
     schedule_arg own (normalize_refresh_owner he) ''refresh_owner'' = Inr ow"
  by (auto simp add: schedule_args_def res_bind_Inr_iff simp del: require_Inr)

text \<open>
  C27: setting a schedule stores what parses and touches nothing but the two columns of the page. A text
  is stored as the form \<open>Parse\<close> reads back as the same schedule, a blank one or null clears; what was
  not passed stays; the pointer, updated_at, the content of every version and every other page stay;
  and there is an audit row exactly when something changed.
\<close>

theorem set_schedule_stores:
  assumes wf: "wf_db s" and run: "set_refresh_schedule env he clock rq slug sched own a s = (Inr r, s')"
  shows "\<exists>p schedule owner. locked s slug p \<and> sr_slug r = p_slug p \<and>
    (sr_changed r \<longleftrightarrow> schedule \<noteq> deref (p_schedule p) \<or> owner \<noteq> deref (p_owner p)) \<and>
    db_pages s' = (if sr_changed r then map (\<lambda>q. if q = p then set_refresh schedule owner p else q) (db_pages s) else db_pages s) \<and>
    map content_of (db_versions s') = map content_of (db_versions s) \<and>
    (if sr_changed r then \<exists>e. db_audit s' = db_audit s @ [e] \<and> a_action e = ''set_refresh_schedule'' else db_audit s' = db_audit s) \<and>
    (case sched of
       VNil \<Rightarrow> schedule = deref (p_schedule p)
     | VNull \<Rightarrow> schedule = []
     | VStr text \<Rightarrow> if js_trim text = [] then schedule = []
         else \<exists>sc. parse_schedule text = Inr sc \<and> parse_schedule schedule = Inr sc
     | _ \<Rightarrow> False) \<and>
    (case own of
       VNil \<Rightarrow> owner = deref (p_owner p)
     | VNull \<Rightarrow> owner = []
     | VStr text \<Rightarrow> if js_trim text = [] then owner = [] else he_email he text = Some owner
     | _ \<Rightarrow> False)"
proof -
  obtain p sc ow where p: "locked s slug p" and args: "schedule_args he sched own = Inr (sc, ow)" and spec: "sr_slug r = p_slug p"
    "sr_changed r \<longleftrightarrow> new_text sc (p_schedule p) \<noteq> deref (p_schedule p) \<or> new_text ow (p_owner p) \<noteq> deref (p_owner p)"
    "db_pages s' = (if sr_changed r then map (\<lambda>q. if q = p
        then set_refresh (new_text sc (p_schedule p)) (new_text ow (p_owner p)) p else q) (db_pages s) else db_pages s)"
    "map content_of (db_versions s') = map content_of (db_versions s)"
    "if sr_changed r then \<exists>e. db_audit s' = db_audit s @ [e] \<and> a_action e = ''set_refresh_schedule'' else db_audit s' = db_audit s"
    by (rule set_refresh_schedule_spec [OF wf run])
  have "case sched of
       VNil \<Rightarrow> new_text sc (p_schedule p) = deref (p_schedule p)
     | VNull \<Rightarrow> new_text sc (p_schedule p) = []
     | VStr text \<Rightarrow> if js_trim text = [] then new_text sc (p_schedule p) = []
         else \<exists>x. parse_schedule text = Inr x \<and> parse_schedule (new_text sc (p_schedule p)) = Inr x
     | _ \<Rightarrow> False"
    using schedule_args_Inr [OF args] normalize_refresh_schedule_Inr [of he]
    unfolding schedule_arg_Inr by (elim conjE disjE exE) (simp_all add: new_text_def)
  moreover have "case own of
       VNil \<Rightarrow> new_text ow (p_owner p) = deref (p_owner p)
     | VNull \<Rightarrow> new_text ow (p_owner p) = []
     | VStr text \<Rightarrow> if js_trim text = [] then new_text ow (p_owner p) = [] else he_email he text = Some (new_text ow (p_owner p))
     | _ \<Rightarrow> False"
    using schedule_args_Inr [OF args] normalize_refresh_owner_Inr [of he]
    unfolding schedule_arg_Inr by (elim conjE disjE exE) (simp_all add: new_text_def)
  ultimately show ?thesis using p spec by blast
qed

definition ex_health :: health_env where
  "ex_health = \<lparr>he_quote = (\<lambda>x. x), he_email = Some, he_stored = (\<lambda>x. None), he_detect = (\<lambda>h. []), he_json = (\<lambda>g. ''{}''),
     he_saved = (\<lambda>v. True)\<rparr>"

lemmas health_run_simps = set_refresh_schedule_def from_prepared_def schedule_args_def schedule_arg_def set_schedule_tx_def
  write_schedule_def find_page_def refresh_health_for_def published_coverage_def published_version_def indexed_or_legacy_def
  legacy_html_def legacy_managed_def scan_time_def published_gaps_def resolve_gaps_def compute_gaps_def newest_refresh_def
  set_refresh_def str_ptr_def deref_def

theorem set_schedule_stores_witness:
  "\<exists>r s' p. set_refresh_schedule ex_env ex_health 0 ex_request ''acme'' VNull VNil ex_agent
       (ex_db (ex_page\<lparr>p_schedule := Some ''0 9 * * *''\<rparr>) [ex_version]) = (Inr r, s') \<and>
     sr_changed r \<and> db_pages s' = [ex_page]"
proof -
  let ?p = "ex_page\<lparr>p_schedule := Some ''0 9 * * *''\<rparr>"
  let ?s = "ex_db ?p [ex_version]"
  have wf: "wf_db ?s" by (rule wf_ex_db) (simp_all add: ex_page_def ex_version_def)
  have "contains_str ''pages-data'' ''old'' = False" by code_simp
  then obtain r s' where run: "set_refresh_schedule ex_env ex_health 0 ex_request ''acme'' VNull VNil ex_agent ?s = (Inr r, s')"
    by (simp add: health_run_simps mutation_simps ex_defs run_simps)
  have "locked ?s ''acme'' q \<longleftrightarrow> q = ?p" for q by (rule ex_locked) (simp_all add: ex_page_def)
  with set_schedule_stores [OF wf run] have "sr_changed r" "db_pages s' = [set_refresh [] (deref (p_owner ?p)) ?p]"
    by (auto simp add: deref_def)
  with run show ?thesis by (intro exI conjI) (assumption | simp add: set_refresh_def ex_page_def str_ptr_def deref_def)+
qed

end
