(* ===== verification/Workspaces.thy ===== *)
theory Workspaces
  imports Mutations "HOL-Library.List_Lexorder"
begin

text \<open>
  \<open>internal/workspaces/workspaces.go\<close>: one-level organisation of pages. A workspace never takes part
  in serving or versioning; assigning a page changes one nullable column. Postgres's \<open>lower\<close>, which the
  unique index and the order of the list use, is a parameter.
\<close>

subsection \<open>Arguments\<close>

definition assert_organizer :: "actor \<Rightarrow> go_error + unit" where
  "assert_organizer a =
     (if ac_type a \<noteq> audit_user \<and> ac_type a \<noteq> audit_agent
      then Inl (forbidden ''workspace organization requires an authenticated user or agent'' ''organizer_only'' VNil)
      else Inr ())"

definition assert_human_admin :: "actor \<Rightarrow> go_error + unit" where
  "assert_human_admin a =
     (if ac_type a \<noteq> audit_user then Inl (forbidden ''removing a workspace is admin-only'' ''admin_only'' VNil) else Inr ())"

definition normalize_id :: "goval \<Rightarrow> bool \<Rightarrow> go_error + int" where
  "normalize_id v may_null =
     (if may_null \<and> (v = VNil \<or> v = VNull \<or> v = VStr []) then Inr 0
      else
        (case normalize_workspace_id v of
           Inl e \<Rightarrow> Inl (bad_request ''workspace_id must be a positive database id or null'' ''bad_workspace_id'' VNil)
         | Inr i \<Rightarrow> Inr i))"

definition control_byte :: "char \<Rightarrow> bool" where
  \<comment> \<open>\<open>controlRE\<close>\<close>
  "control_byte c = (byte c \<le> 31 \<or> byte c = 127)"

definition normalize_name :: "goval \<Rightarrow> go_error + string" where
  "normalize_name v =
     (case v of
        VStr s \<Rightarrow>
          if list_ex control_byte s
          then Inl (bad_request ''workspace name contains unsupported control characters'' ''bad_workspace_name'' VNil)
          else
            let name = join '' '' (js_fields s) in
            if name = [] then Inl (bad_request ''workspace name is required'' ''workspace_name_required'' VNil)
            else if 100 < utf16_len name
            then Inl (bad_request ''workspace name must be 100 characters or fewer'' ''workspace_name_too_long'' VNil)
            else Inr name
      | _ \<Rightarrow> Inl (bad_request ''workspace name is required'' ''workspace_name_required'' VNil))"

subsection \<open>Operations\<close>

record workspace_view =
  wv_id :: int
  wv_name :: string
  wv_created :: int
  wv_updated :: int
  wv_count :: "nat option"

definition view_of :: "workspace \<Rightarrow> nat option \<Rightarrow> workspace_view" where
  "view_of w n = \<lparr>wv_id = w_id w, wv_name = w_name w, wv_created = w_created w, wv_updated = w_updated w, wv_count = n\<rparr>"

definition member_count :: "db \<Rightarrow> workspace \<Rightarrow> nat" where
  "member_count s w = length (filter (\<lambda>p. p_workspace p = w_id w \<and> p_deleted p = None) (db_pages s))"

definition list_workspaces :: "(string \<Rightarrow> string) \<Rightarrow> db \<Rightarrow> workspace_view list" where
  \<comment> \<open>\<open>ORDER BY lower(w.name), w.id\<close>, strings by bytes\<close>
  "list_workspaces lower s =
     map (\<lambda>w. view_of w (Some (member_count s w)))
       (sort_key (\<lambda>w. (map byte (lower (w_name w)), w_id w)) (db_workspaces s))"

definition workspace_exists :: "string \<Rightarrow> go_error" where
  "workspace_exists name = conflict (''workspace already exists: '' @ name) ''workspace_exists'' VNil"

definition name_taken :: "(string \<Rightarrow> string) \<Rightarrow> string \<Rightarrow> int \<Rightarrow> db \<Rightarrow> bool" where
  \<comment> \<open>the unique index on \<open>lower(name)\<close>, for a row other than \<open>wid\<close>\<close>
  "name_taken lower name wid s = (\<exists>w \<in> set (db_workspaces s). w_id w \<noteq> wid \<and> lower (w_name w) = lower name)"

definition new_workspace :: "string \<Rightarrow> db \<Rightarrow> workspace" where
  "new_workspace name s = \<lparr>w_id = db_next_workspace s, w_name = name, w_created = db_now s, w_updated = db_now s\<rparr>"

definition add_workspace :: "string \<Rightarrow> db \<Rightarrow> db" where
  "add_workspace name s =
     s\<lparr>db_workspaces := db_workspaces s @ [new_workspace name s], db_next_workspace := db_next_workspace s + 1\<rparr>"

definition insert_workspace :: "string \<Rightarrow> workspace tx" where
  \<comment> \<open>\<open>INSERT ... RETURNING\<close>\<close>
  "insert_workspace name = bind_tx (read_tx (new_workspace name)) (\<lambda>w. then_tx (exec_tx (add_workspace name)) (ret w))"

definition create_workspace_tx :: "(string \<Rightarrow> string) \<Rightarrow> string \<Rightarrow> actor \<Rightarrow> workspace_view tx" where
  "create_workspace_tx lower name a =
     bind_tx (read_tx (name_taken lower name 0)) (\<lambda>taken.
     then_tx (lift_tx (require (\<not> taken) (workspace_exists name)))
     (bind_tx (insert_workspace name) (\<lambda>w.
      then_tx (audit_write (actor_entry a ''create_workspace'' 0 0
        (VObj [(''workspace_id'', VStr (id_string (w_id w))), (''name'', VStr (w_name w))])))
      (ret (view_of w (Some 0))))))"

definition create_workspace :: "(string \<Rightarrow> string) \<Rightarrow> request \<Rightarrow> goval \<Rightarrow> actor \<Rightarrow> db \<Rightarrow> (go_error + workspace_view) \<times> db" where
  "create_workspace lower rq name a =
     from_prepared (res_bind (assert_organizer a) (\<lambda>_. normalize_name name))
       (\<lambda>clean. with_tx rq (create_workspace_tx lower clean a))"

definition update_workspace :: "int \<Rightarrow> (workspace \<Rightarrow> workspace) \<Rightarrow> db \<Rightarrow> db" where
  "update_workspace wid f s = s\<lparr>db_workspaces := update_where (\<lambda>w. w_id w = wid) f (db_workspaces s)\<rparr>"

definition rename_workspace_tx :: "(string \<Rightarrow> string) \<Rightarrow> int \<Rightarrow> string \<Rightarrow> actor \<Rightarrow> workspace_view tx" where
  "rename_workspace_tx lower wid name a =
     bind_tx (found_or workspace_not_found (find_workspace wid)) (\<lambda>cur.
     if w_name cur = name then ret (view_of cur None)
     else
       bind_tx (read_tx (name_taken lower name wid)) (\<lambda>taken.
       then_tx (lift_tx (require (\<not> taken) (workspace_exists name)))
       (then_tx (exec_tx (\<lambda>s. update_workspace wid (\<lambda>w. w\<lparr>w_name := name, w_updated := db_now s\<rparr>) s))
       (then_tx (audit_write (actor_entry a ''rename_workspace'' 0 0
          (VObj [(''workspace_id'', VStr (id_string (w_id cur))), (''from'', VStr (w_name cur)), (''to'', VStr name)])))
       (bind_tx (read_tx db_now) (\<lambda>now.
        ret (view_of (cur\<lparr>w_name := name, w_updated := now\<rparr>) None)))))))"

definition rename_workspace ::
  "(string \<Rightarrow> string) \<Rightarrow> request \<Rightarrow> goval \<Rightarrow> goval \<Rightarrow> actor \<Rightarrow> db \<Rightarrow> (go_error + workspace_view) \<times> db" where
  "rename_workspace lower rq wid name a =
     from_prepared
       (res_bind (assert_organizer a) (\<lambda>_.
        res_bind (normalize_id wid False) (\<lambda>i.
        res_bind (normalize_name name) (\<lambda>clean. Inr (i, clean)))))
       (\<lambda>(i, clean). with_tx rq (rename_workspace_tx lower i clean a))"

record removed_workspace =
  rw_id :: int
  rw_name :: string
  rw_deleted :: bool
  rw_ungrouped :: nat

definition detach :: "int \<Rightarrow> db \<Rightarrow> db" where
  \<comment> \<open>\<open>UPDATE pages SET workspace_id = NULL, updated_at = now() WHERE workspace_id = $1\<close>\<close>
  "detach wid s =
     s\<lparr>db_pages := update_where (\<lambda>p. p_workspace p = wid) (\<lambda>p. p\<lparr>p_workspace := 0, p_updated := db_now s\<rparr>) (db_pages s)\<rparr>"

fun audit_detached :: "actor \<Rightarrow> int \<Rightarrow> int list \<Rightarrow> unit tx" where
  "audit_detached a wid [] = ret ()"
| "audit_detached a wid (p # ps) =
     then_tx (audit_write (actor_entry a ''set_workspace'' p 0
       (VObj [(''from'', VRef wid), (''to'', VNil), (''reason'', VStr ''workspace_removed'')])))
     (audit_detached a wid ps)"

definition delete_workspace_row :: "int \<Rightarrow> db \<Rightarrow> db" where
  "delete_workspace_row wid s = s\<lparr>db_workspaces := filter (\<lambda>w. w_id w \<noteq> wid) (db_workspaces s)\<rparr>"

definition members :: "int \<Rightarrow> db \<Rightarrow> page list" where
  "members wid s = filter (\<lambda>p. p_workspace p = wid) (db_pages s)"

definition remove_workspace_tx :: "int \<Rightarrow> actor \<Rightarrow> removed_workspace tx" where
  "remove_workspace_tx wid a =
     bind_tx (found_or workspace_not_found (find_workspace wid)) (\<lambda>w.
     bind_tx (read_tx (members wid)) (\<lambda>ps.
     then_tx (exec_tx (detach wid))
     (then_tx (audit_detached a wid (map p_id ps))
     (then_tx (exec_tx (delete_workspace_row wid))
     (let n = length (filter (\<lambda>p. p_deleted p = None) ps) in
      then_tx (audit_write (actor_entry a ''delete_workspace'' 0 0
        (VObj [(''workspace_id'', VRef wid), (''name'', VStr (w_name w)), (''ungrouped_page_count'', VInt (int n))])))
      (ret \<lparr>rw_id = w_id w, rw_name = w_name w, rw_deleted = True, rw_ungrouped = n\<rparr>))))))"

definition remove_workspace :: "request \<Rightarrow> goval \<Rightarrow> actor \<Rightarrow> db \<Rightarrow> (go_error + removed_workspace) \<times> db" where
  "remove_workspace rq wid a =
     from_prepared (res_bind (assert_human_admin a) (\<lambda>_. normalize_id wid False)) (\<lambda>i. with_tx rq (remove_workspace_tx i a))"

record assignment =
  as_slug :: string
  as_workspace :: int
  as_workspace_name :: "string option"

definition set_workspace :: "int \<Rightarrow> int \<Rightarrow> page \<Rightarrow> page" where
  "set_workspace now wid p = p\<lparr>p_workspace := wid, p_updated := now\<rparr>"

definition assign_page_tx :: "string \<Rightarrow> int \<Rightarrow> actor \<Rightarrow> assignment tx" where
  "assign_page_tx slug wid a =
     bind_tx (workspace_name wid) (\<lambda>name.
     bind_tx (found_or (page_not_found slug) (find_live slug)) (\<lambda>p.
     if p_workspace p \<noteq> wid then
       then_tx (exec_tx (\<lambda>s. update_page (p_id p) (set_workspace (db_now s) wid) s))
       (then_tx (audit_write (actor_entry a ''set_workspace'' (p_id p) 0
          (VObj [(''from'', id_or_nil (p_workspace p)), (''to'', VRef wid)])))
        (ret \<lparr>as_slug = p_slug p, as_workspace = wid, as_workspace_name = name\<rparr>))
     else ret \<lparr>as_slug = p_slug p, as_workspace = wid, as_workspace_name = name\<rparr>))"

definition assign_page :: "request \<Rightarrow> string \<Rightarrow> goval \<Rightarrow> actor \<Rightarrow> db \<Rightarrow> (go_error + assignment) \<times> db" where
  "assign_page rq slug wid a =
     from_prepared
       (res_bind (assert_organizer a) (\<lambda>_.
        res_bind (normalize_slug (VStr slug)) (\<lambda>s.
        res_bind (normalize_id wid True) (\<lambda>i. Inr (s, i)))))
       (\<lambda>(s, i). with_tx rq (assign_page_tx s i a))"

subsection \<open>The operations keep the invariant\<close>

lemma audit_detached_Inr:
  "audit_detached a wid ps s = Inr (u, s') \<Longrightarrow>
     \<exists>rows. s' = s\<lparr>db_audit := db_audit s @ rows, db_next_audit := db_next_audit s + int (length ps)\<rparr> \<and>
       map a_page rows = ps \<and> (\<forall>r \<in> set rows. a_action r = ''set_workspace'')"
proof (induction ps arbitrary: s)
  case Nil
  then show ?case by (intro exI [of _ "[]"]) (simp add: tx_simps)
next
  case (Cons p ps)
  let ?e = "actor_entry a ''set_workspace'' p 0 (VObj [(''from'', VRef wid), (''to'', VNil), (''reason'', VStr ''workspace_removed'')])"
  from Cons.prems have "audit_detached a wid ps (add_audit ?e s) = Inr (u, s')" by (auto simp add: tx_simps)
  from Cons.IH [OF this] obtain rows where "s' = (add_audit ?e s)\<lparr>db_audit := db_audit (add_audit ?e s) @ rows,
      db_next_audit := db_next_audit (add_audit ?e s) + int (length ps)\<rparr>" "map a_page rows = ps"
    "\<forall>r \<in> set rows. a_action r = ''set_workspace''" by blast
  then show ?case
    by (intro exI [of _ "audit_row_of s ?e # rows"]) (simp add: add_audit_def audit_row_of_def actor_entry_def)
qed

lemma wf_audit_rows: "wf_db (s\<lparr>db_audit := x, db_next_audit := n\<rparr>) = wf_db s"
  by (simp add: wf_parts)

text \<open>A change of the pages that no part of the invariant but the workspace references speaks of.\<close>

lemma wf_map_pages:
  assumes wf: "wf_db s" and f: "\<And>p. page_refs (f p) = page_refs p" "\<And>p. p_theme (f p) = p_theme p"
    and s': "db_pages s' = map f (db_pages s)" "db_versions s' = db_versions s" "db_themes s' = db_themes s"
      "db_next_page s' = db_next_page s" "db_next_version s' = db_next_version s" "db_next_workspace s' = db_next_workspace s"
    and ws: "distinct (map w_id (db_workspaces s'))" "set (db_workspaces s') \<subseteq> set (db_workspaces s)"
      "\<And>p. p \<in> set (db_pages s) \<Longrightarrow> p_workspace (f p) \<noteq> 0 \<Longrightarrow> p_workspace (f p) \<in> w_id ` set (db_workspaces s')"
  shows "wf_db s'"
proof -
  have f': "p_id (f p) = p_id p" "p_slug (f p) = p_slug p" "p_published (f p) = p_published p" "p_deleted (f p) = p_deleted p" for p
    using f(1) [of p] by (simp_all add: page_refs_def)
  have "p_id \<circ> f = p_id" using f' by auto
  moreover have "\<forall>w \<in> set (db_workspaces s'). 0 < w_id w \<and> w_id w < db_next_workspace s"
    using wf ws(2) unfolding wf_db_def ids_ok_def by blast
  ultimately have "ids_ok s'" using wf ws(1) by (simp add: wf_db_def ids_ok_def s' f')
  moreover have "slugs_ok s'" using wf unfolding wf_db_def slugs_ok_def live_unique_def s' set_map by (simp only: ball_simps f') blast
  moreover have "pointers_ok s'" using wf by (simp add: wf_db_def pointers_ok_def points_to_def s' f')
  moreover have "refs_ok s'" using wf ws(3) f(2) by (simp add: wf_db_def refs_ok_def s' f' image_image)
  ultimately show ?thesis by (simp add: wf_db_def)
qed

lemma wf_remove:
  assumes "wf_db s"
  shows "wf_db (delete_workspace_row wid (detach wid s))"
proof (rule wf_map_pages [OF assms, where f = "\<lambda>p. if p_workspace p = wid then p\<lparr>p_workspace := 0, p_updated := db_now s\<rparr> else p"])
  show "distinct (map w_id (db_workspaces (delete_workspace_row wid (detach wid s))))"
    using assms by (auto simp add: wf_db_def ids_ok_def distinct_map delete_workspace_row_def detach_def intro: inj_on_subset)
  show "p_workspace (if p_workspace p = wid then p\<lparr>p_workspace := 0, p_updated := db_now s\<rparr> else p) \<in>
      w_id ` set (db_workspaces (delete_workspace_row wid (detach wid s)))"
    if "p \<in> set (db_pages s)" "p_workspace (if p_workspace p = wid then p\<lparr>p_workspace := 0, p_updated := db_now s\<rparr> else p) \<noteq> 0" for p
    using assms that by (auto simp add: wf_db_def refs_ok_def delete_workspace_row_def detach_def split: if_splits)
qed (auto simp add: page_refs_def delete_workspace_row_def detach_def update_where_def)

lemma remove_workspace_tx_Inr:
  "remove_workspace_tx wid a s = Inr (r, s') \<Longrightarrow>
     \<exists>w rows e. find_workspace wid s = Some w \<and> map a_page rows = map p_id (members wid s) \<and>
       (\<forall>x \<in> set rows. a_action x = ''set_workspace'') \<and> a_action e = ''delete_workspace'' \<and>
       rw_ungrouped r = length (filter (\<lambda>p. p_deleted p = None) (members wid s)) \<and>
       (\<exists>n. s' = (delete_workspace_row wid (detach wid s))\<lparr>db_audit := db_audit s @ rows @ [e], db_next_audit := n\<rparr>)"
proof -
  assume "remove_workspace_tx wid a s = Inr (r, s')"
  then obtain w s1 en where w: "find_workspace wid s = Some w"
    and s1: "audit_detached a wid (map p_id (members wid s)) (detach wid s) = Inr ((), s1)"
    and s': "s' = add_audit en (delete_workspace_row wid s1)" "e_action en = ''delete_workspace''"
    and r: "rw_ungrouped r = length (filter (\<lambda>p. p_deleted p = None) (members wid s))"
    by (auto simp add: remove_workspace_tx_def tx_simps Let_def actor_entry_def)
  from audit_detached_Inr [OF s1] obtain rows where rows: "s1 = (detach wid s)\<lparr>db_audit := db_audit (detach wid s) @ rows,
      db_next_audit := db_next_audit (detach wid s) + int (length (map p_id (members wid s)))\<rparr>"
    "map a_page rows = map p_id (members wid s)" "\<forall>x \<in> set rows. a_action x = ''set_workspace''"
    by blast
  show ?thesis
    using w r rows s'(2)
    by (intro exI [of _ w] exI [of _ rows] exI [of _ "audit_row_of (delete_workspace_row wid s1) en"] conjI
        exI [of _ "db_next_audit s1 + 1"])
      (simp_all add: s'(1) add_audit_def delete_workspace_row_def detach_def, simp add: audit_row_of_def)
qed

lemma remove_workspace_tx_keeps: "obeys keeps (remove_workspace_tx wid a)"
proof (rule obeysI)
  fix s r s'
  assume "remove_workspace_tx wid a s = Inr (r, s')"
  then obtain rows e n where s': "s' = (delete_workspace_row wid (detach wid s))\<lparr>db_audit := db_audit s @ rows @ [e], db_next_audit := n\<rparr>"
    using remove_workspace_tx_Inr by blast
  have key: "page_key ` set (db_pages s) \<subseteq> page_key ` set (db_pages s')"
    unfolding s' by (simp add: delete_workspace_row_def detach_def)
      (rule equalityD2 [OF image_update_where_id], simp add: page_key_def)
  show "keeps s s'"
  proof (rule keepsI, rule conjI)
    assume "wf_db s"
    from wf_remove [OF this, of wid] show "wf_db s'" unfolding s' by (simp add: wf_audit_rows)
    show "history s s'" using history_refl [of s] key by (simp add: history_def s' delete_workspace_row_def detach_def)
  qed
qed

lemma keeps_workspaces:
  assumes f: "\<And>w. w_id (f w) = w_id w"
  shows "keeps s (update_workspace wid f s)"
proof (rule keepsI, rule conjI)
  let ?ws = "db_workspaces (update_workspace wid f s)"
  assume wf: "wf_db s"
  have ws: "map w_id ?ws = map w_id (db_workspaces s)"
    using f by (simp add: update_workspace_def map_update_where_id)
  then have img: "w_id ` set ?ws = w_id ` set (db_workspaces s)" by (metis set_map)
  have "\<forall>i \<in> w_id ` set ?ws. 0 < i \<and> i < db_next_workspace s"
    using wf unfolding img by (simp add: wf_db_def ids_ok_def)
  then have "ids_ok (update_workspace wid f s)"
    using wf ws by (simp add: wf_db_def ids_ok_def) (simp add: update_workspace_def)
  moreover have "refs_ok (update_workspace wid f s)"
    using wf img by (simp add: wf_db_def refs_ok_def) (simp add: update_workspace_def)
  moreover have "slugs_ok (update_workspace wid f s)" "pointers_ok (update_workspace wid f s)"
    using wf by (simp_all add: wf_db_def slugs_ok_def pointers_ok_def points_to_def update_workspace_def)
  ultimately show "wf_db (update_workspace wid f s)" by (simp add: wf_db_def)
qed (rule history_same; simp add: update_workspace_def)

lemma add_workspace_keeps: "keeps s (add_workspace name s)"
proof (rule keepsI, rule conjI)
  assume wf: "wf_db s"
  have new: "w_id (new_workspace name s) = db_next_workspace s" by (simp add: new_workspace_def)
  show "wf_db (add_workspace name s)"
    using wf by (auto simp add: wf_db_def ids_ok_def slugs_ok_def pointers_ok_def refs_ok_def points_to_def new add_workspace_def)
  show "history s (add_workspace name s)" by (rule history_same) (simp_all add: add_workspace_def)
qed

lemma insert_workspace_keeps: "obeys keeps (insert_workspace name)"
  unfolding insert_workspace_def by (intro keeps_rules add_workspace_keeps)

lemma add_audit_workspaces [simp]: "db_workspaces (add_audit e s) = db_workspaces s"
  by (simp add: add_audit_def)

lemma create_workspace_tx_Inr:
  "create_workspace_tx lower name a s = Inr (r, s') \<Longrightarrow>
     \<not> name_taken lower name 0 s \<and> (\<exists>e. s' = add_audit e (add_workspace name s))"
  by (auto simp add: create_workspace_tx_def insert_workspace_def tx_simps)

lemma rename_workspace_tx_Inr:
  "rename_workspace_tx lower wid name a s = Inr (r, s') \<Longrightarrow>
     s' = s \<or> \<not> name_taken lower name wid s \<and>
       (\<exists>e. s' = add_audit e (update_workspace wid (\<lambda>w. w\<lparr>w_name := name, w_updated := db_now s\<rparr>) s))"
  by (auto simp add: rename_workspace_tx_def tx_simps split: if_splits)

lemma create_workspace_tx_keeps: "obeys keeps (create_workspace_tx lower name a)"
  unfolding create_workspace_tx_def by (intro keeps_rules insert_workspace_keeps)

lemma rename_workspace_tx_keeps: "obeys keeps (rename_workspace_tx lower wid name a)"
  unfolding rename_workspace_tx_def by (intro keeps_rules keeps_workspaces) simp

lemma workspace_name_found:
  "workspace_name wid s = Inr (n, s') \<Longrightarrow> s' = s \<and> (wid \<noteq> 0 \<longrightarrow> wid \<in> w_id ` set (db_workspaces s))"
  by (cases "wid = 0") (auto simp add: workspace_name_def find_workspace_def tx_simps dest!: find_Some_mem)

lemma assign_page_tx_Inr:
  "assign_page_tx slug wid a s = Inr (r, s') \<Longrightarrow>
     \<exists>p. find_live slug s = Some p \<and> (wid \<noteq> 0 \<longrightarrow> wid \<in> w_id ` set (db_workspaces s)) \<and> as_workspace r = wid \<and>
       as_slug r = p_slug p \<and>
       s' = (if p_workspace p = wid then s
         else add_audit (actor_entry a ''set_workspace'' (p_id p) 0
             (VObj [(''from'', id_or_nil (p_workspace p)), (''to'', VRef wid)]))
           (update_page (p_id p) (set_workspace (db_now s) wid) s))"
proof -
  assume "assign_page_tx slug wid a s = Inr (r, s')"
  then obtain n s1 p where n: "workspace_name wid s = Inr (n, s1)" and p: "find_live slug s1 = Some p"
    and rest: "as_workspace r = wid \<and> as_slug r = p_slug p \<and> s' = (if p_workspace p = wid then s1
         else add_audit (actor_entry a ''set_workspace'' (p_id p) 0
             (VObj [(''from'', id_or_nil (p_workspace p)), (''to'', VRef wid)]))
           (update_page (p_id p) (set_workspace (db_now s1) wid) s1))"
    unfolding assign_page_tx_def by (auto simp add: bind_tx_Inr found_or_Inr split: if_splits) (auto simp add: tx_simps)
  with workspace_name_found [OF n] show ?thesis by (intro exI [of _ p]) simp
qed

lemma assign_page_tx_keeps: "obeys keeps (assign_page_tx slug wid a)"
proof (rule obeysI)
  fix s r s'
  assume "assign_page_tx slug wid a s = Inr (r, s')"
  from assign_page_tx_Inr [OF this] obtain p :: page where ws: "wid \<noteq> 0 \<longrightarrow> wid \<in> w_id ` set (db_workspaces s)"
    and s': "s' = (if p_workspace p = wid then s
         else add_audit (actor_entry a ''set_workspace'' (p_id p) 0
             (VObj [(''from'', id_or_nil (p_workspace p)), (''to'', VRef wid)]))
           (update_page (p_id p) (set_workspace (db_now s) wid) s))" by blast
  have "keeps s (update_page (p_id p) (set_workspace (db_now s) wid) s)"
  proof (rule keepsI, rule conjI)
    assume "wf_db s"
    then show "wf_db (update_page (p_id p) (set_workspace (db_now s) wid) s)"
      by (rule wf_update_settings) (use ws in \<open>auto simp add: set_workspace_def page_refs_def\<close>)
    show "history s (update_page (p_id p) (set_workspace (db_now s) wid) s)"
      by (rule history_update_page) (simp add: set_workspace_def page_key_def)
  qed
  then show "keeps s s'" by (simp add: s' keep.refl keeps_audit_trans)
qed

subsection \<open>Properties\<close>

text \<open>
  Removing a workspace is for humans and only ungroups. The workspace is gone; every page that was
  in it, deleted ones included, has no workspace and is otherwise what it was, every other page and
  every version stays; there is one audit row per detached page and one for the workspace; and the
  count of the answer is that of the live members.
\<close>

lemma remove_workspace_ungroups:
  assumes "remove_workspace rq wid a s = (Inr r, s')"
  shows "ac_type a = audit_user \<and>
    (\<exists>i w rows e. normalize_id wid False = Inr i \<and> w \<in> set (db_workspaces s) \<and> w_id w = i \<and>
       db_workspaces s' = filter (\<lambda>w. w_id w \<noteq> i) (db_workspaces s) \<and>
       db_pages s' = map (\<lambda>p. if p_workspace p = i then set_workspace (rq_now rq) 0 p else p) (db_pages s) \<and>
       db_versions s' = db_versions s \<and> db_audit s' = db_audit s @ rows @ [e] \<and> a_action e = ''delete_workspace'' \<and>
       map a_page rows = map p_id (filter (\<lambda>p. p_workspace p = i) (db_pages s)) \<and>
       rw_ungrouped r = length (filter (\<lambda>p. p_workspace p = i \<and> p_deleted p = None) (db_pages s)))"
proof -
  let ?s = "s\<lparr>db_now := rq_now rq\<rparr>"
  from assms obtain i where u: "ac_type a = audit_user" "normalize_id wid False = Inr i"
    and tx: "remove_workspace_tx i a ?s = Inr (r, s')"
    by (auto simp add: remove_workspace_def from_prepared_Inr with_tx_Inr res_bind_Inr_iff assert_human_admin_def split: if_splits)
  from remove_workspace_tx_Inr [OF tx] obtain w rows e n where w: "find_workspace i ?s = Some w"
    and rows: "map a_page rows = map p_id (members i ?s)" "a_action e = ''delete_workspace''"
    and r: "rw_ungrouped r = length (filter (\<lambda>p. p_deleted p = None) (members i ?s))"
    and s': "s' = (delete_workspace_row i (detach i ?s))\<lparr>db_audit := db_audit ?s @ rows @ [e], db_next_audit := n\<rparr>"
    by blast
  from w have "w \<in> set (db_workspaces s)" "w_id w = i" by (auto simp add: find_workspace_def dest!: find_Some_mem)
  with u rows r show ?thesis
    by (intro conjI exI [of _ i] exI [of _ w] exI [of _ rows] exI [of _ e])
      (simp_all add: s' delete_workspace_row_def detach_def update_where_def set_workspace_def members_def conj_commute)
qed

definition ex_ws_db :: db where
  "ex_ws_db = (ex_db (ex_page\<lparr>p_workspace := 3\<rparr>) [ex_version])\<lparr>db_workspaces := [\<lparr>w_id = 3, w_name = ''Team'', w_created = 0, w_updated = 0\<rparr>],
     db_next_workspace := 4\<rparr>"

lemma ex_ws_id: "normalize_id (VID 3) False = Inr 3"
  by (simp add: normalize_id_def normalize_workspace_id_def parse_positive_id_def)

lemma remove_workspace_ungroups_witness:
  "\<exists>r s'. remove_workspace ex_request (VID 3) ex_user ex_ws_db = (Inr r, s') \<and> db_workspaces s' = [] \<and>
     map p_workspace (db_pages s') = [0] \<and> rw_ungrouped r = 1"
proof -
  obtain r s' where run: "remove_workspace ex_request (VID 3) ex_user ex_ws_db = (Inr r, s')"
    by (simp add: remove_workspace_def from_prepared_def assert_human_admin_def ex_ws_id remove_workspace_tx_def ex_ws_db_def
        find_workspace_def members_def detach_def delete_workspace_row_def ex_defs run_simps Let_def)
  from remove_workspace_ungroups [OF run] show ?thesis
    using run by (auto simp add: ex_ws_id ex_ws_db_def ex_db_def set_workspace_def ex_page_def)
qed

definition names_unique :: "(string \<Rightarrow> string) \<Rightarrow> db \<Rightarrow> bool" where
  "names_unique lower s \<longleftrightarrow>
     (\<forall>w \<in> set (db_workspaces s). \<forall>v \<in> set (db_workspaces s). lower (w_name w) = lower (w_name v) \<longrightarrow> w_id w = w_id v)"

lemma from_tx:
  assumes "P s" "\<And>x r s'. m x (s\<lparr>db_now := rq_now rq\<rparr>) = Inr (r, s') \<Longrightarrow> P s'"
  shows "P (snd (from_prepared c (\<lambda>x. with_tx rq (m x)) s))"
  using assms by (auto simp add: from_prepared_def with_tx_def split: sum.split)

lemma names_unique_same: "db_workspaces s' = db_workspaces s \<Longrightarrow> names_unique lower s \<Longrightarrow> names_unique lower s'"
  unfolding names_unique_def by (erule ssubst)

lemma create_workspace_names:
  assumes "wf_db s" "names_unique lower s" "create_workspace_tx lower name a s = Inr (r, s')"
  shows "names_unique lower s'"
proof -
  from create_workspace_tx_Inr [OF assms(3)] have taken: "\<not> name_taken lower name 0 s"
    and s': "db_workspaces s' = db_workspaces s @ [new_workspace name s]"
    by (auto simp add: add_workspace_def)
  have "\<forall>w \<in> set (db_workspaces s). w_id w \<noteq> 0" using assms(1) by (auto simp add: wf_db_def ids_ok_def)
  with taken have "\<forall>w \<in> set (db_workspaces s). lower (w_name w) \<noteq> lower name" by (auto simp add: name_taken_def)
  moreover have "w_name (new_workspace name s) = name" by (simp add: new_workspace_def)
  ultimately show ?thesis using assms(2) unfolding names_unique_def s' set_append list.set by (metis UnE emptyE insertE)
qed

lemma rename_workspace_names:
  assumes "names_unique lower s" "rename_workspace_tx lower wid name a s = Inr (r, s')"
  shows "names_unique lower s'"
proof -
  let ?f = "\<lambda>w. w\<lparr>w_name := name, w_updated := db_now s\<rparr>"
  from rename_workspace_tx_Inr [OF assms(2)] consider "s' = s"
    | "\<not> name_taken lower name wid s" "db_workspaces s' = update_where (\<lambda>w. w_id w = wid) ?f (db_workspaces s)"
    by (auto simp add: update_workspace_def)
  then show ?thesis
  proof cases
    case 2
    from 2(1) have "\<forall>w \<in> set (db_workspaces s). w_id w \<noteq> wid \<longrightarrow> lower (w_name w) \<noteq> lower name" by (simp add: name_taken_def) blast
    moreover have "w_name (if w_id w = wid then ?f w else w) = (if w_id w = wid then name else w_name w)"
      "w_id (if w_id w = wid then ?f w else w) = w_id w" for w by simp_all
    ultimately show ?thesis
      using assms(1) unfolding names_unique_def 2(2) set_update_where ball_simps by metis
  qed (use assms(1) in simp)
qed

text \<open>
  C28: workspace names stay unique up to case. In a database where no two workspaces have the same
  \<open>lower(name)\<close>, none has after a creation, a renaming, a removal or an assignment, whether the call
  succeeds or fails.
\<close>

theorem workspace_names_unique:
  assumes "wf_db s" "names_unique lower s"
  shows "names_unique lower (snd (create_workspace lower rq name a s)) \<and>
    names_unique lower (snd (rename_workspace lower rq wid name a s)) \<and>
    names_unique lower (snd (remove_workspace rq wid a s)) \<and>
    names_unique lower (snd (assign_page rq slug wid a s))"
proof (intro conjI)
  let ?s = "s\<lparr>db_now := rq_now rq\<rparr>"
  have s: "wf_db ?s" "names_unique lower ?s" using assms by (simp add: wf_clock, intro names_unique_same [OF _ assms(2)]) simp
  show "names_unique lower (snd (create_workspace lower rq name a s))"
    unfolding create_workspace_def by (rule from_tx [where P = "names_unique lower"])
      (rule assms(2), rule create_workspace_names [OF s])
  show "names_unique lower (snd (rename_workspace lower rq wid name a s))"
    unfolding rename_workspace_def split_beta by (rule from_tx [where P = "names_unique lower"])
      (rule assms(2), rule rename_workspace_names [OF s(2)])
  show "names_unique lower (snd (remove_workspace rq wid a s))"
    unfolding remove_workspace_def
  proof (rule from_tx [where P = "names_unique lower", OF assms(2)])
    fix x r s'
    assume "remove_workspace_tx x a ?s = Inr (r, s')"
    from remove_workspace_tx_Inr [OF this] have "set (db_workspaces s') \<subseteq> set (db_workspaces s)"
      by (auto simp add: delete_workspace_row_def detach_def)
    with assms(2) show "names_unique lower s'" unfolding names_unique_def by blast
  qed
  show "names_unique lower (snd (assign_page rq slug wid a s))"
    unfolding assign_page_def split_beta
  proof (rule from_tx [where P = "names_unique lower", OF assms(2)])
    fix x :: "string \<times> int" and r s'
    assume "assign_page_tx (fst x) (snd x) a ?s = Inr (r, s')"
    from assign_page_tx_Inr [OF this] have "db_workspaces s' = db_workspaces ?s"
      by (elim exE conjE) simp
    from names_unique_same [OF this s(2)] show "names_unique lower s'" .
  qed
qed

theorem workspace_names_unique_witness:
  "names_unique (\<lambda>x. x) (snd (create_workspace (\<lambda>x. x) ex_request (VStr ''Team'') ex_user ex_ws_db))"
proof -
  have "wf_db ex_ws_db"
    using ex_slug by (simp add: ex_ws_db_def ex_db_def ex_page_def ex_version_def wf_parts live_unique_def del: matches.simps)
  moreover have "names_unique (\<lambda>x. x) ex_ws_db" by (simp add: names_unique_def ex_ws_db_def)
  ultimately show ?thesis using workspace_names_unique by blast
qed

end
