(* ===== verification/Managed_Data.thy ===== *)
theory Managed_Data
  imports Freshness
begin

text \<open>
  The managed-data half of \<open>internal/versions/deploy.go\<close>: \<open>UpdatePageData\<close>, which pours new rows
  into the published version of a page, its validation before the transaction, and
  \<open>UpdatePageConfig\<close>, which replaces the config block of the published version.

  The functions of \<open>internal/pagedata\<close> these call are the fields of \<open>data_env\<close>: the profile of a
  payload and what is asserted of it, the hash of a payload, the comparison of two profiles, and
  the validation and materialisation of a document. A profile is a value of the type
  parameter \<^typ>\<open>'p\<close>: it is only passed on.
\<close>

subsection \<open>What is called in \<open>pagedata\<close>\<close>

record materialized =                     \<comment> \<open>\<open>pagedata.Materialized\<close>, as far as it is read here\<close>
  mz_html :: string
  mz_data_sha :: string
  mz_schema_sha :: string
  mz_config_sha :: string
  mz_template_sha :: string
  mz_source_as_of :: string
  mz_refreshed_at :: string

record data_warning =
  dw_code :: string
  dw_path :: string
  dw_message :: string
  dw_previous :: goval
  dw_current :: goval

record 'p data_env =
  da_profile :: "goval \<Rightarrow> 'p"                                          \<comment> \<open>\<open>ProfileData\<close>\<close>
  da_assert_expected :: "'p \<Rightarrow> goval \<Rightarrow> go_error + unit"                \<comment> \<open>\<open>AssertExpectedProfile\<close>\<close>
  da_hash :: "goval \<Rightarrow> go_error + string"                             \<comment> \<open>\<open>SemanticHash\<close>\<close>
  da_compare :: "'p \<Rightarrow> 'p \<Rightarrow> goval \<Rightarrow> string \<Rightarrow> string \<Rightarrow> data_warning list"  \<comment> \<open>\<open>CompareDataProfiles\<close>\<close>
  da_validate :: "managed \<Rightarrow> goval \<Rightarrow> go_error + unit"                 \<comment> \<open>\<open>ValidateProposedData\<close>\<close>
  da_materialize :: "managed \<Rightarrow> goval \<Rightarrow> goval \<Rightarrow> int \<Rightarrow> go_error + materialized"  \<comment> \<open>\<open>Materialize\<close>\<close>
  da_materialize_config :: "managed \<Rightarrow> goval option \<Rightarrow> int \<Rightarrow> go_error + materialized"  \<comment> \<open>\<open>MaterializeBlocks\<close>\<close>

subsection \<open>UpdatePageData\<close>

record data_update_input =
  du_slug :: string
  du_data :: goval
  du_source :: goval
  du_expected :: goval
  du_publish :: goval
  du_note :: goval
  du_expect :: goval
  du_now :: "int option"

record data_snapshot =
  sn_version :: int
  sn_managed :: managed

record 'p data_update_result =
  ur_deploy :: deploy_result
  ur_schema :: goval
  ur_envelope :: goval
  ur_data_sha :: string
  ur_schema_sha :: string
  ur_template_sha :: string
  ur_profile :: 'p
  ur_warnings :: "data_warning list"

definition null_to_nil :: "goval \<Rightarrow> goval" where
  "null_to_nil v = (if v = VNull then VNil else v)"

definition publish_default :: "goval \<Rightarrow> goval" where
  \<comment> \<open>\<open>if publish == nil { publish = true }\<close>\<close>
  "publish_default v = (if v = VNil then VBool True else v)"

definition expected_required :: "string \<Rightarrow> go_error" where
  "expected_required what =
     bad_request (''expected_version is required for '' @ what @ '' updates'') ''expected_version_required'' VNil"

definition precheck_snapshot ::
  "deploy_env \<Rightarrow> 'p data_env \<Rightarrow> data_update_input \<Rightarrow> db \<Rightarrow> (data_snapshot \<times> goval) option" where
  "precheck_snapshot env de inp s =
     (case normalize_slug (VStr (du_slug inp)) of
        Inl _ \<Rightarrow> None
      | Inr slug \<Rightarrow>
          (case find_live slug s of
             None \<Rightarrow> None
           | Some p \<Rightarrow>
               if p_published p = 0 then None
               else
                 (case find_version (p_id p) (p_published p) s of
                    None \<Rightarrow> None
                  | Some v \<Rightarrow>
                      if \<not> same_db_id (du_expected inp) (p_published p) then None
                      else
                        (case env_parse env (v_html v) of
                           Inl _ \<Rightarrow> None
                         | Inr m \<Rightarrow>
                             let data = null_to_nil (du_data inp) in
                             if da_assert_expected de (da_profile de data) (null_to_nil (du_expect inp)) \<noteq> Inr ()
                             then None
                             else Some (\<lparr>sn_version = p_published p, sn_managed = m\<rparr>, data)))))"

definition precheck_page_data ::
  "deploy_env \<Rightarrow> 'p data_env \<Rightarrow> data_update_input \<Rightarrow> db \<Rightarrow> go_error + data_snapshot option" where
  "precheck_page_data env de inp s =
     (case precheck_snapshot env de inp s of
        None \<Rightarrow> Inr None
      | Some (snap, data) \<Rightarrow>
          (case da_validate de (sn_managed snap) data of
             Inr _ \<Rightarrow> Inr (Some snap)
           | Inl (Api e) \<Rightarrow> if err_code e = ''data_validation_failed'' then Inl (Api e) else Inr None
           | Inl (Other _) \<Rightarrow> Inr None))"

definition usable_snapshot :: "data_snapshot option \<Rightarrow> locked_page \<Rightarrow> managed option" where
  \<comment> \<open>the document read before the transaction, unless the pointer has moved since\<close>
  "usable_snapshot snap lp =
     (case snap of None \<Rightarrow> None | Some sn \<Rightarrow> if sn_version sn = lp_published lp then Some (sn_managed sn) else None)"

definition data_template :: "deploy_env \<Rightarrow> locked_page \<Rightarrow> data_snapshot option \<Rightarrow> (version \<times> managed) tx" where
  \<comment> \<open>the published version and its parsed document\<close>
  "data_template env lp snap =
     bind_tx (found_or (conflict ''published template is unavailable'' ''page_not_data_managed'' VNil)
       (find_version (lp_id lp) (lp_published lp))) (\<lambda>v.
     bind_tx (lift_tx (case usable_snapshot snap lp of Some m \<Rightarrow> Inr m | None \<Rightarrow> env_parse env (v_html v))) (\<lambda>m.
     ret (v, m)))"

definition moves_backward :: "string \<Rightarrow> string \<Rightarrow> bool" where
  \<comment> \<open>\<open>!ns.IsZero() && ns.Before(fl)\<close>, where an unparsable floor is the zero time\<close>
  "moves_backward source floor =
     (floor \<noteq> [] \<and>
      (case parse_time source of
         None \<Rightarrow> False
       | Some ns \<Rightarrow> ns < (case parse_time floor of None \<Rightarrow> zero_time | Some fl \<Rightarrow> fl)))"

definition source_regression :: "string \<Rightarrow> go_error" where
  "source_regression floor =
     conflict (''source_as_of cannot move backward (current coverage is '' @ floor @ '')'') ''source_regression''
       (VObj [(''current_source_as_of'', VStr floor)])"

definition managed_deploy_input ::
  "string \<Rightarrow> version \<Rightarrow> goval \<Rightarrow> goval \<Rightarrow> goval \<Rightarrow> string \<Rightarrow> materialized \<Rightarrow> template_binding option \<Rightarrow> deploy_input" where
  "managed_deploy_input slug v note pub expected action mz binding =
     \<lparr>in_slug = slug, in_html = mz_html mz, in_mode = VStr (v_mode v), in_note = note, in_author = VNil,
      in_source = ''mcp'', in_publish = publish_default pub, in_expected = expected,
      in_data = Some \<lparr>dm_action = action, dm_data_sha = mz_data_sha mz, dm_schema_sha = mz_schema_sha mz,
        dm_template_sha = mz_template_sha mz, dm_source_as_of = mz_source_as_of mz,
        dm_refreshed_at = mz_refreshed_at mz\<rparr>,
      in_binding = binding\<rparr>"

definition stored_managed :: "deploy_env \<Rightarrow> int \<Rightarrow> int \<Rightarrow> managed tx" where
  "stored_managed env vid pid =
     bind_tx (found_or (Other ''no rows in result set'') (find_version pid vid)) (\<lambda>v.
     lift_tx (env_parse env (v_html v)))"

definition shown_warnings :: "bool \<Rightarrow> data_warning list \<Rightarrow> data_warning list" where
  "shown_warnings deduped ws =
     (if deduped
      then filter (\<lambda>w. dw_code w \<noteq> ''data_unchanged'' \<and> dw_code w \<noteq> ''coverage_did_not_advance'') ws
      else ws)"

definition data_now :: "int \<Rightarrow> data_update_input \<Rightarrow> int" where
  "data_now clock inp = (case du_now inp of None \<Rightarrow> clock | Some now \<Rightarrow> now)"

definition pour_data ::
  "deploy_env \<Rightarrow> 'p data_env \<Rightarrow> int \<Rightarrow> data_update_input \<Rightarrow> string \<Rightarrow> locked_page \<Rightarrow> version \<Rightarrow> managed \<Rightarrow> actor \<Rightarrow>
     'p data_update_result tx" where
  \<comment> \<open>from the parsed template on: reconcile, materialise, check the coverage, deploy\<close>
  "pour_data env de clock inp slug lp v m a =
     (let data = null_to_nil (du_data inp); expect = null_to_nil (du_expect inp); profile = da_profile de data in
      then_tx (lift_tx (da_assert_expected de profile expect))
      (bind_tx (lift_tx (da_hash de data)) (\<lambda>next.
       let warnings = da_compare de (da_profile de (m_data m)) profile expect (m_data_sha m) next in
       bind_tx (lift_tx (da_materialize de m data (null_to_nil (du_source inp)) (data_now clock inp))) (\<lambda>mz.
       bind_tx (read_tx (source_coverage_floor env (lp_id lp) (m_source_as_of m))) (\<lambda>fl.
       bind_tx (lift_tx fl) (\<lambda>floor.
       then_tx (lift_tx (require (\<not> moves_backward (mz_source_as_of mz) floor) (source_regression floor)))
       (bind_tx (lift_tx (prepare_deploy env
           (managed_deploy_input slug v (du_note inp) (du_publish inp) (du_expected inp) [] mz
              (carry_template_binding (v_binding v) (v_config_sha v))) a)) (\<lambda>pr.
        bind_tx (deploy_locked env lp pr a 0) (\<lambda>r.
        bind_tx (stored_managed env (vs_id (dr_version r)) (lp_id lp)) (\<lambda>stored.
        ret \<lparr>ur_deploy = r, ur_schema = m_schema stored, ur_envelope = m_envelope stored,
             ur_data_sha = m_data_sha stored, ur_schema_sha = m_schema_sha stored,
             ur_template_sha = m_template_sha stored, ur_profile = profile,
             ur_warnings = shown_warnings (dr_deduped r) warnings\<rparr>))))))))))"

definition update_data_tx ::
  "deploy_env \<Rightarrow> 'p data_env \<Rightarrow> int \<Rightarrow> data_update_input \<Rightarrow> data_snapshot option \<Rightarrow> actor \<Rightarrow> 'p data_update_result tx" where
  "update_data_tx env de clock inp snap a =
     bind_tx (lift_tx (normalize_slug (VStr (du_slug inp)))) (\<lambda>slug.
     then_tx (lift_tx (require (\<not> is_nullish (du_expected inp)) (expected_required ''data'')))
     (bind_tx (lock_page slug) (\<lambda>lp.
      then_tx (lift_tx (assert_expected_version lp (du_expected inp)))
      (then_tx (lift_tx (require (lp_published lp \<noteq> 0)
         (conflict ''page has no published template to manage'' ''page_not_data_managed'' VNil)))
      (bind_tx (data_template env lp snap) (\<lambda>(v, m). pour_data env de clock inp slug lp v m a))))))"

text \<open>The entry point. \<open>others\<close> is what commits between the unlocked read and the transaction.\<close>

definition update_page_data ::
  "deploy_env \<Rightarrow> 'p data_env \<Rightarrow> int \<Rightarrow> request \<Rightarrow> (db \<Rightarrow> db) \<Rightarrow> data_update_input \<Rightarrow> actor \<Rightarrow> db \<Rightarrow>
     (go_error + 'p data_update_result) \<times> db" where
  "update_page_data env de clock rq others inp a s =
     from_prepared
       (res_bind (normalize_slug (VStr (du_slug inp))) (\<lambda>_.
        res_bind (require (\<not> is_nullish (du_expected inp)) (expected_required ''data'')) (\<lambda>_.
        precheck_page_data env de inp s)))
       (\<lambda>snap s. with_tx rq (update_data_tx env de clock inp snap a) (others s)) s"

subsection \<open>UpdatePageConfig\<close>

record config_update_input =
  cu_slug :: string
  cu_config :: goval
  cu_expected :: goval
  cu_publish :: goval
  cu_note :: goval

record config_update_result =
  cr_deploy :: deploy_result
  cr_config_schema :: goval
  cr_config :: goval
  cr_config_sha :: string
  cr_config_schema_sha :: string
  cr_envelope :: goval
  cr_data_sha :: string
  cr_template_sha :: string

definition not_template :: go_error where
  "not_template =
     conflict ''page has no #pages-config block; it was not built from a template'' ''page_not_template_managed'' VNil"

definition parse_config_managed :: "deploy_env \<Rightarrow> string \<Rightarrow> go_error + managed" where
  "parse_config_managed env html =
     (case env_parse env html of
        Inl (Api e) \<Rightarrow> if err_code e = ''page_not_data_managed'' then Inl not_template else Inl (Api e)
      | Inl (Other e) \<Rightarrow> Inl (Other e)
      | Inr m \<Rightarrow> if \<not> m_config_block m then Inl not_template else Inr m)"

definition config_update :: "goval \<Rightarrow> goval option" where
  \<comment> \<open>\<open>SetConfig\<close> is set unless the argument is omitted\<close>
  "config_update v = (if v \<noteq> VNil then Some (null_to_nil v) else None)"

definition config_binding :: "version \<Rightarrow> materialized \<Rightarrow> template_binding option" where
  "config_binding v mz =
     map_option (\<lambda>tb. tb\<lparr>tb_config_sha := mz_config_sha mz\<rparr>) (carry_template_binding (v_binding v) (v_config_sha v))"

definition update_config_tx ::
  "deploy_env \<Rightarrow> 'p data_env \<Rightarrow> int \<Rightarrow> config_update_input \<Rightarrow> string \<Rightarrow> actor \<Rightarrow> config_update_result tx" where
  "update_config_tx env de clock inp slug a =
     bind_tx (lock_page slug) (\<lambda>lp.
     then_tx (lift_tx (assert_expected_version lp (cu_expected inp)))
     (then_tx (lift_tx (require (lp_published lp \<noteq> 0)
        (conflict ''page has no published version to update'' ''update_page_not_published'' VNil)))
     (bind_tx (found_or (conflict ''published version is unavailable'' ''update_page_not_published'' VNil)
        (find_version (lp_id lp) (lp_published lp))) (\<lambda>v.
      bind_tx (lift_tx (parse_config_managed env (v_html v))) (\<lambda>m.
      bind_tx (lift_tx (da_materialize_config de m (config_update (cu_config inp)) clock)) (\<lambda>mz.
      bind_tx (lift_tx (prepare_deploy env
          (managed_deploy_input slug v (cu_note inp) (cu_publish inp) (cu_expected inp) ''config_update'' mz
             (config_binding v mz)) a)) (\<lambda>pr.
      bind_tx (deploy_locked env lp pr a 0) (\<lambda>r.
      bind_tx (stored_managed env (vs_id (dr_version r)) (lp_id lp)) (\<lambda>stored.
      ret \<lparr>cr_deploy = r, cr_config_schema = m_config_schema stored, cr_config = m_config stored,
           cr_config_sha = m_config_sha stored, cr_config_schema_sha = m_config_schema_sha stored,
           cr_envelope = m_envelope stored, cr_data_sha = m_data_sha stored,
           cr_template_sha = m_template_sha stored\<rparr>)))))))))"

definition update_page_config ::
  "deploy_env \<Rightarrow> 'p data_env \<Rightarrow> int \<Rightarrow> request \<Rightarrow> config_update_input \<Rightarrow> actor \<Rightarrow> db \<Rightarrow>
     (go_error + config_update_result) \<times> db" where
  "update_page_config env de clock rq inp a =
     from_prepared
       (res_bind (normalize_slug (VStr (cu_slug inp))) (\<lambda>slug.
        res_bind (require (\<not> is_nullish (cu_expected inp)) (expected_required ''config'')) (\<lambda>_. Inr slug)))
       (\<lambda>slug. with_tx rq (update_config_tx env de clock inp slug a))"

subsection \<open>Invariant and history\<close>

lemma locked_deploy_keeps:
  assumes "locked s slug p" "deploy_locked env (locked_page_of p) pr a only s = Inr (r, s')"
  shows "keeps s s'"
  using deploy_locked_ok [OF _ _ _ assms(2)] lockedD [OF assms(1)] by (auto intro: keepsI)

lemma stored_managed_Inr [tx_simps]:
  "stored_managed env vid pid s = Inr (m, s') \<longleftrightarrow>
     s' = s \<and> (\<exists>v. find_version pid vid s = Some v \<and> env_parse env (v_html v) = Inr m)"
  by (auto simp add: stored_managed_def tx_simps)

lemma data_template_Inr [tx_simps]:
  "data_template env lp snap s = Inr ((v, m), s') \<longleftrightarrow>
     s' = s \<and> find_version (lp_id lp) (lp_published lp) s = Some v \<and>
     (case usable_snapshot snap lp of Some m0 \<Rightarrow> m = m0 | None \<Rightarrow> env_parse env (v_html v) = Inr m)"
  by (auto simp add: data_template_def tx_simps split: option.splits)

text \<open>What a pouring that succeeds went through.\<close>

lemma pour_data_Inr:
  assumes "pour_data env de clock inp slug lp v m a s = Inr (r, s')"
  obtains mz floor pr where
    "da_materialize de m (null_to_nil (du_data inp)) (null_to_nil (du_source inp)) (data_now clock inp) = Inr mz"
    "source_coverage_floor env (lp_id lp) (m_source_as_of m) s = Inr floor"
    "\<not> moves_backward (mz_source_as_of mz) floor"
    "prepare_deploy env (managed_deploy_input slug v (du_note inp) (du_publish inp) (du_expected inp) [] mz
       (carry_template_binding (v_binding v) (v_config_sha v))) a = Inr pr"
    "deploy_locked env lp pr a 0 s = Inr (ur_deploy r, s')"
  using assms by (auto simp add: pour_data_def Let_def tx_simps)

lemma ex_found: "(\<exists>x. (\<exists>p. L p \<and> x = f p) \<and> Q x) \<longleftrightarrow> (\<exists>p. L p \<and> Q (f p))"
  by blast

lemma update_data_tx_Inr:
  "update_data_tx env de clock inp snap a s = Inr (r, s') \<longleftrightarrow>
     (\<exists>p v m. locked s (du_slug inp) p \<and> \<not> is_nullish (du_expected inp) \<and>
        assert_expected_version (locked_page_of p) (du_expected inp) = Inr () \<and> p_published p \<noteq> 0 \<and>
        find_version (p_id p) (p_published p) s = Some v \<and>
        (case usable_snapshot snap (locked_page_of p) of Some m0 \<Rightarrow> m = m0 | None \<Rightarrow> env_parse env (v_html v) = Inr m) \<and>
        pour_data env de clock inp (p_slug p) (locked_page_of p) v m a s = Inr (r, s'))"
proof (cases "normalize_slug (VStr (du_slug inp))")
  case (Inl e)
  then show ?thesis by (simp add: update_data_tx_def tx_simps locked_def)
next
  case (Inr n)
  have l: "locked s n p \<longleftrightarrow> locked s (du_slug inp) p" for p
    using Inr slug.idempotent [OF Inr] by (simp add: locked_def)
  have n: "p_slug p = n" if "locked s (du_slug inp) p" for p
    using that Inr by (simp add: locked_def)
  have "update_data_tx env de clock inp snap a s = Inr (r, s') \<longleftrightarrow>
     (\<exists>p. locked s (du_slug inp) p \<and> \<not> is_nullish (du_expected inp) \<and>
        assert_expected_version (locked_page_of p) (du_expected inp) = Inr () \<and> p_published p \<noteq> 0 \<and>
        (\<exists>v m. find_version (p_id p) (p_published p) s = Some v \<and>
        (case usable_snapshot snap (locked_page_of p) of Some m0 \<Rightarrow> m = m0 | None \<Rightarrow> env_parse env (v_html v) = Inr m) \<and>
        pour_data env de clock inp n (locked_page_of p) v m a s = Inr (r, s')))"
    unfolding update_data_tx_def
    by (simp only: bind_tx_Inr then_tx_Inr lift_tx_Inr lock_page_Inr Inr)
      (simp add: l data_template_Inr ex_found cong: conj_cong, blast)
  then show ?thesis using n by (simp add: ex_simps cong: conj_cong)
qed

lemma update_data_tx_keeps: "obeys keeps (update_data_tx env de clock inp snap a)"
proof (rule obeysI)
  fix s r s'
  assume "update_data_tx env de clock inp snap a s = Inr (r, s')"
  then obtain p v m where p: "locked s (du_slug inp) p"
    and run: "pour_data env de clock inp (p_slug p) (locked_page_of p) v m a s = Inr (r, s')"
    unfolding update_data_tx_Inr by blast
  from run obtain pr where "deploy_locked env (locked_page_of p) pr a 0 s = Inr (ur_deploy r, s')"
    by (rule pour_data_Inr)
  with p show "keeps s s'" by (rule locked_deploy_keeps)
qed

lemma update_config_tx_keeps: "obeys keeps (update_config_tx env de clock inp slug a)"
proof (rule obeysI)
  fix s r s'
  assume "update_config_tx env de clock inp slug a s = Inr (r, s')"
  then obtain p pr where "locked s slug p" "deploy_locked env (locked_page_of p) pr a 0 s = Inr (cr_deploy r, s')"
    by (auto simp add: update_config_tx_def tx_simps)
  then show "keeps s s'" by (rule locked_deploy_keeps)
qed

subsection \<open>The validation before the transaction\<close>

lemma same_db_id_unique: "same_db_id e i \<Longrightarrow> same_db_id e j \<Longrightarrow> i = j"
  by (auto simp add: same_db_id_def id_string_def)

text \<open>The content of a version is the same in every later database.\<close>

lemma version_content_kept:
  assumes "history s s2" "wf_db s2" "find_version pid vid s = Some v" "find_version qid vid s2 = Some w"
  shows "v_html w = v_html v"
proof -
  note v = find_version_Some [OF assms(3)] and w = find_version_Some [OF assms(4)]
  from assms(1) v obtain v' where v': "v' \<in> set (db_versions s2)" "content_of v' = content_of v"
    unfolding history_def by blast
  have key: "v_id v' = v_id v \<and> v_html v' = v_html v"
    using arg_cong [OF v'(2), of v_id] arg_cong [OF v'(2), of v_html] by (simp add: content_of_def)
  with v w have "v' = w" by (intro wf_version_unique [OF assms(2) v'(1)]) auto
  with key show ?thesis by simp
qed

lemma precheck_snapshot_Some:
  assumes "precheck_snapshot env de inp s = Some (sn, data)"
  obtains pid v where "find_version pid (sn_version sn) s = Some v" "env_parse env (v_html v) = Inr (sn_managed sn)"
    "same_db_id (du_expected inp) (sn_version sn)" "data = null_to_nil (du_data inp)"
  using assms by (auto simp add: precheck_snapshot_def Let_def split: sum.splits option.splits if_splits)

text \<open>A snapshot read before the transaction is the document the transaction would read.\<close>

lemma snapshot_agrees:
  assumes "precheck_snapshot env de inp s = Some (sn, data)" "history s s2" "wf_db s2"
    and "find_version pid (sn_version sn) s2 = Some v"
  shows "env_parse env (v_html v) = Inr (sn_managed sn)"
  using assms(1)
proof (rule precheck_snapshot_Some)
  fix qid w assume "find_version qid (sn_version sn) s = Some w" "env_parse env (v_html w) = Inr (sn_managed sn)"
  with version_content_kept [OF assms(2,3) _ assms(4)] show ?thesis by simp
qed

lemma snapshot_irrelevant:
  assumes "precheck_snapshot env de inp s = Some (sn, data)" "history s s2" "wf_db s2"
  shows "update_data_tx env de clock inp (Some sn) a s2 = Inr (r, s') \<longleftrightarrow>
    update_data_tx env de clock inp None a s2 = Inr (r, s')"
proof -
  have "(case usable_snapshot (Some sn) (locked_page_of p) of Some m0 \<Rightarrow> m = m0 | None \<Rightarrow> env_parse env (v_html v) = Inr m)
      \<longleftrightarrow> env_parse env (v_html v) = Inr m"
    if "find_version (p_id p) (p_published p) s2 = Some v" for p v m
    using snapshot_agrees [OF assms, of "p_id p" v] that by (auto simp add: usable_snapshot_def)
  moreover have "usable_snapshot None lp = None" for lp by (simp add: usable_snapshot_def)
  ultimately show ?thesis unfolding update_data_tx_Inr by (simp cong: conj_cong)
qed

lemma precheck_Inl:
  assumes "precheck_page_data env de inp s = Inl e"
  obtains sn data where "precheck_snapshot env de inp s = Some (sn, data)" "da_validate de (sn_managed sn) data = Inl e"
  using assms by (auto simp add: precheck_page_data_def split: option.splits sum.splits go_error.splits if_splits)

lemma precheck_Inr_Some:
  "precheck_page_data env de inp s = Inr (Some sn) \<Longrightarrow> \<exists>data. precheck_snapshot env de inp s = Some (sn, data)"
  by (auto simp add: precheck_page_data_def split: option.splits sum.splits go_error.splits if_splits)

lemma precheck_refuses_only_failures:
  assumes "precheck_page_data env de inp s = Inl e" "history s s2" "wf_db s2"
    and law: "\<And>m data src now mz. da_materialize de m data src now = Inr mz \<Longrightarrow> da_validate de m data = Inr ()"
  shows "update_data_tx env de clock inp None a s2 \<noteq> Inr (r, s')"
proof
  assume "update_data_tx env de clock inp None a s2 = Inr (r, s')"
  then obtain p v m where p: "\<not> is_nullish (du_expected inp)" "assert_expected_version (locked_page_of p) (du_expected inp) = Inr ()"
    and v: "find_version (p_id p) (p_published p) s2 = Some v" "env_parse env (v_html v) = Inr m"
    and run: "pour_data env de clock inp (p_slug p) (locked_page_of p) v m a s2 = Inr (r, s')"
    unfolding update_data_tx_Inr by (auto simp add: usable_snapshot_def)
  from assms(1) obtain sn data where sn: "precheck_snapshot env de inp s = Some (sn, data)"
    and bad: "da_validate de (sn_managed sn) data = Inl e" by (rule precheck_Inl)
  from p have "same_db_id (du_expected inp) (p_published p)" by (simp add: expected_version_iff)
  with sn have "sn_version sn = p_published p" "data = null_to_nil (du_data inp)"
    by (auto elim!: precheck_snapshot_Some intro: same_db_id_unique)
  with v snapshot_agrees [OF sn assms(2,3), of "p_id p" v] bad
  have "da_validate de m (null_to_nil (du_data inp)) = Inl e" by simp
  moreover from run obtain mz where
    "da_materialize de m (null_to_nil (du_data inp)) (null_to_nil (du_source inp)) (data_now clock inp) = Inr mz"
    by (rule pour_data_Inr)
  ultimately show False using law by fastforce
qed

subsection \<open>The coverage floor\<close>

definition in_years :: "int \<Rightarrow> bool" where
  \<comment> \<open>an instant of the years 0 to 9999, which a text of four year digits can hold\<close>
  "in_years t \<longleftrightarrow> 0 \<le> fst (civil (day_of t)) \<and> fst (civil (day_of t)) \<le> 9999"

lemma day_of_ms: "day_of (unix_milli t * ms_ns) = day_of t"
  unfolding day_of_def unix_milli_def
  using zdiv_zmult2_eq [of 86400000 "t" ms_ns] zdiv_zmult2_eq [of 86400000 "t div ms_ns * ms_ns" ms_ns] by simp

lemma iso_string_read:
  assumes "in_years t"
  shows "parse_time (iso_string (Some t)) = nonzero (unix_milli t * ms_ns)"
  using parse_format_time [of "unix_milli t * ms_ns"] assms by (simp add: iso_string_def in_years_def day_of_ms)

lemma max_source_step:
  "fold (\<lambda>v m. case v_source_as_of v of None \<Rightarrow> m | Some t \<Rightarrow> if after (Some t) m then Some t else m) vs a = Some m \<Longrightarrow>
     (a = Some m \<or> (\<exists>v \<in> set vs. v_source_as_of v = Some m))"
proof (induction vs arbitrary: a)
  case (Cons v vs)
  from Cons.prems Cons.IH [of "case v_source_as_of v of None \<Rightarrow> a | Some t \<Rightarrow> if after (Some t) a then Some t else a"]
  show ?case by (cases "v_source_as_of v") (auto split: if_splits)
qed simp

lemma max_source_mem: "max_source vs = Some m \<Longrightarrow> \<exists>v \<in> set vs. v_source_as_of v = Some m"
  unfolding max_source_def by (drule max_source_step) simp

lemma max_source_from:
  "(\<forall>x. a = Some x \<longrightarrow> (\<exists>m. fold (\<lambda>v m. case v_source_as_of v of None \<Rightarrow> m | Some t \<Rightarrow> if after (Some t) m then Some t else m) vs a
     = Some m \<and> x \<le> m)) \<and>
   (\<forall>v u. v \<in> set vs \<longrightarrow> v_source_as_of v = Some u \<longrightarrow>
     (\<exists>m. fold (\<lambda>v m. case v_source_as_of v of None \<Rightarrow> m | Some t \<Rightarrow> if after (Some t) m then Some t else m) vs a
     = Some m \<and> u \<le> m))"
proof (induction vs arbitrary: a)
  case (Cons v vs)
  let ?b = "case v_source_as_of v of None \<Rightarrow> a | Some t \<Rightarrow> if after (Some t) a then Some t else a"
  have b: "\<exists>y. ?b = Some y \<and> x \<le> y" if "a = Some x \<or> v_source_as_of v = Some x" for x
    using that by (cases a; cases "v_source_as_of v") (auto simp add: after_def)
  show ?case using Cons.IH [of ?b] b by (fastforce intro: order_trans)
qed simp

lemma max_source_ge: "v \<in> set vs \<Longrightarrow> v_source_as_of v = Some u \<Longrightarrow> \<exists>m. max_source vs = Some m \<and> u \<le> m"
  unfolding max_source_def using max_source_from [of None vs] by blast

lemma floor_loop_step:
  "floor_loop env ((src, html) # rows) fl = Inr r \<longleftrightarrow>
     (\<exists>x y. indexed_or_legacy env (scan_time src) None html = Inr (x, y) \<and>
        floor_loop env rows (if ms_time x \<noteq> None \<and> (fl = None \<or> after (ms_time x) fl) then ms_time x else fl) = Inr r)"
proof (cases "indexed_or_legacy env (scan_time src) None html")
  case (Inr b)
  then show ?thesis by (cases b) (simp add: Let_def)
qed simp

lemma floor_loop_from: "floor_loop env rows (Some t) = Inr fl \<Longrightarrow> \<exists>u. fl = Some u \<and> t \<le> u"
proof (induction rows arbitrary: t)
  case Nil
  then show ?case by auto
next
  case (Cons r rows)
  obtain src html where r: "r = (src, html)" by (cases r)
  from Cons.prems obtain x where
    "floor_loop env rows (if ms_time x \<noteq> None \<and> (Some t = None \<or> after (ms_time x) (Some t)) then ms_time x else Some t) = Inr fl"
    unfolding r floor_loop_step by blast
  then obtain u where u: "floor_loop env rows (Some u) = Inr fl" "t \<le> u"
    by (cases "ms_time x") (auto simp add: after_def split: if_splits)
  from Cons.IH [OF u(1)] u(2) show ?case by auto
qed

lemma floor_loop_years:
  assumes "floor_loop env rows fl = Inr (Some t)" "\<And>x. fl = Some x \<Longrightarrow> in_years x"
    and "\<And>src html x. (Some src, html) \<in> set rows \<Longrightarrow> in_years src"
    and "\<And>h m x. env_parse env h = Inr m \<Longrightarrow> parse_time (m_source_as_of m) = Some x \<Longrightarrow> in_years x"
  shows "in_years t"
  using assms(1,2,3)
proof (induction rows arbitrary: fl)
  case (Cons r rows)
  obtain src html where r: "r = (src, html)" by (cases r)
  from Cons.prems(1) obtain x y where c: "indexed_or_legacy env (scan_time src) None html = Inr (x, y)"
    and l: "floor_loop env rows (if ms_time x \<noteq> None \<and> (fl = None \<or> after (ms_time x) fl) then ms_time x else fl) = Inr (Some t)"
    unfolding r floor_loop_step by blast
  have x: "in_years z" if "x = Some z" for z
    using c that Cons.prems(3) [of z html] assms(4)
    by (auto simp add: indexed_or_legacy_def legacy_managed_def res_bind_Inr_iff scan_time_def nonzero_def r
      split: option.splits if_splits sum.splits go_error.splits Option.bind_splits)
  have "in_years z" if "ms_time x = Some z" for z
    using that x by (cases x) (auto simp add: ms_time_def nonzero_def in_years_def day_of_ms split: if_splits)
  with l Cons.prems(2,3) show ?case by (intro Cons.IH [OF l]) (auto split: if_splits)
qed simp

text \<open>The year 0 counts as no coverage: Go's zero time is the first instant of year 1.\<close>

definition covered_to :: "db \<Rightarrow> int \<Rightarrow> int \<Rightarrow> bool" where
  \<comment> \<open>some version of the page that is not rejected covers the millisecond \<open>u\<close>\<close>
  "covered_to s pid u \<longleftrightarrow> zero_time < u \<and>
     (\<exists>v \<in> set (db_versions s). v_page v = pid \<and> v_status v \<noteq> Rejected \<and>
        map_option (\<lambda>t. unix_milli t * ms_ns) (v_source_as_of v) = Some u)"

definition stamps_in_years :: "deploy_env \<Rightarrow> db \<Rightarrow> bool" where
  \<comment> \<open>the stamps of documents are RFC3339 texts; the stored ones come from them\<close>
  "stamps_in_years env s \<longleftrightarrow>
     (\<forall>v \<in> set (db_versions s). \<forall>t. v_source_as_of v = Some t \<longrightarrow> in_years t) \<and>
     (\<forall>h m t. env_parse env h = Inr m \<longrightarrow> parse_time (m_source_as_of m) = Some t \<longrightarrow> in_years t)"

lemma unix_milli_mono: "t \<le> u \<Longrightarrow> unix_milli t \<le> unix_milli u"
  by (simp add: unix_milli_def zdiv_mono1)

lemma unix_milli_ms: "unix_milli (unix_milli t * ms_ns) = unix_milli t"
  by (simp add: unix_milli_def)

lemma coverage_floor_ge:
  assumes fl: "source_coverage_floor env pid (m_source_as_of m0) s = Inr floor"
    and m0: "env_parse env h0 = Inr m0" and years: "stamps_in_years env s" and u: "covered_to s pid u"
  shows "\<exists>f. parse_time floor = Some f \<and> u \<le> f"
proof -
  let ?vs = "filter (\<lambda>v. v_page v = pid \<and> v_status v \<noteq> Rejected) (db_versions s)"
  let ?c = "if m_source_as_of m0 \<noteq> [] then parse_time (m_source_as_of m0) else None"
  from u obtain v t where v: "v \<in> set ?vs" "v_source_as_of v = Some t" and ut: "u = unix_milli t * ms_ns" "zero_time < u"
    by (auto simp add: covered_to_def)
  from max_source_ge [OF v] obtain m where m: "max_source ?vs = Some m" "t \<le> m" by blast
  have um: "u \<le> unix_milli m * ms_ns" using unix_milli_mono [OF m(2)] by (simp add: ut(1))
  have "unix_milli m * ms_ns \<le> m" by (simp add: unix_milli_def)
  with um ut(2) have x: "scan_time (Some m) = Some m" "ms_time (Some m) = Some (unix_milli m * ms_ns)"
    by (simp_all add: scan_time_def nonzero_def ms_time_def)
  from fl obtain w0 where loop: "floor_loop env (floor_rows pid s) ?c = Inr w0" and floor: "floor = iso_string w0"
    by (auto simp add: source_coverage_floor_def res_bind_Inr_iff)
  from loop m(1) obtain rest where rows: "floor_rows pid s = (Some m, None) # rest" by (simp add: floor_rows_def Let_def)
  have "indexed_or_legacy env (Some m) None None = Inr (Some m, None)"
    by (simp add: indexed_or_legacy_def legacy_managed_def)
  with loop [unfolded rows] obtain z where z: "floor_loop env rest (Some z) = Inr w0" "u \<le> z"
    using x um by (cases ?c) (auto simp add: Let_def after_def split: if_splits)
  from floor_loop_from [OF z(1)] z(2) obtain w where w: "w0 = Some w" "u \<le> w" by auto
  have "in_years w"
  proof (rule floor_loop_years [OF loop [unfolded w(1)]])
    show "in_years x" if "?c = Some x" for x using that m0 years by (auto simp add: stamps_in_years_def split: if_splits)
    show "in_years src" if "(Some src, html) \<in> set (floor_rows pid s)" for src html
    proof -
      have "max_source ?vs = Some src" using that by (auto simp add: floor_rows_def Let_def)
      from max_source_mem [OF this] years show ?thesis by (auto simp add: stamps_in_years_def)
    qed
  qed (use years in \<open>auto simp add: stamps_in_years_def\<close>)
  then have "parse_time floor = nonzero (unix_milli w * ms_ns)" unfolding floor w(1) by (rule iso_string_read)
  moreover have "u \<le> unix_milli w * ms_ns"
    using unix_milli_mono [OF w(2)] by (simp add: ut(1) unix_milli_ms)
  ultimately show ?thesis using ut(2) by (simp add: nonzero_def)
qed

lemma not_backward:
  assumes "\<not> moves_backward source floor" "parse_time source = Some t" "parse_time floor = Some f"
  shows "f \<le> t"
proof -
  have "parse_time [] = None" by code_simp
  with assms(3) have "floor \<noteq> []" by auto
  with assms show ?thesis by (simp add: moves_backward_def)
qed

text \<open>A deploy of managed content stores, or lands on, the coverage it was prepared with.\<close>

lemma deploy_stores_coverage:
  assumes "wf_db s" "p \<in> set (db_pages s)" "deploy_locked env (locked_page_of p) pr a only s = Inr (r, s')"
    and "pr_dedupe_by_data pr" "pr_data pr = Some dm"
  shows "\<exists>w \<in> set (db_versions s'). v_id w = vs_id (dr_version r) \<and> v_page w = p_id p \<and>
    v_source_as_of w = env_timestamp env (dm_source_as_of dm) \<and> v_source_as_of w \<noteq> None"
proof (rule deploy_locked_cases [OF assms(1-3)])
  fix v s1
  assume l: "lands env p pr only s s1 v (dr_deduped r)" "wf_db s1"
    and c: "if pr_publish pr \<and> \<not> p_require_approval p
     then published_from s1 p a pr v (dr_published r) s' \<and> dr_version r = version_columns (v\<lparr>v_status := Approved\<rparr>)
     else s' = s1 \<and> \<not> dr_published r \<and> dr_version r = version_columns v"
  have vid: "vs_id (dr_version r) = v_id v" using c by (simp split: if_splits)
  have same: "same_identity env pr v" and pg: "v_page v = p_id p" using l(1) by (simp_all add: lands_def)
  from same assms(4,5) have src: "v_source_as_of v = env_timestamp env (dm_source_as_of dm)" "v_source_as_of v \<noteq> None"
    by (cases "env_timestamp env (dm_source_as_of dm)"; simp add: same_identity_def)+
  show ?thesis
  proof (cases "pr_publish pr \<and> \<not> p_require_approval p")
    case True
    with c have pf: "published_from s1 p a pr v (dr_published r) s'" by simp
    then have vs: "db_versions s' = db_versions (approve_row v s1)" and nr: "v_status v \<noteq> Rejected"
      by (auto simp add: published_from_def)
    have "v\<lparr>v_status := Approved\<rparr> \<in> set (db_versions s')"
      unfolding vs by (rule approve_row_ok(3) [OF l(2) _ nr]) (use l(1) in \<open>simp add: lands_def\<close>)
    with vid pg src show ?thesis by (intro bexI [of _ "v\<lparr>v_status := Approved\<rparr>"]) simp_all
  next
    case False
    with c l(1) vid pg src show ?thesis by (intro bexI [of _ v]) (auto simp add: lands_def)
  qed
qed

definition stamps_kept :: "deploy_env \<Rightarrow> 'p data_env \<Rightarrow> bool" where
  \<comment> \<open>a materialised document carries a valid stamp, which the html passes and Postgres read back\<close>
  "stamps_kept env de \<longleftrightarrow>
     (\<forall>m data src now mz. da_materialize de m data src now = Inr mz \<longrightarrow>
        parse_time (mz_source_as_of mz) \<noteq> None \<and>
        env_timestamp env (mz_source_as_of mz) = parse_time (mz_source_as_of mz) \<and>
        (\<forall>h g. env_ensure_schema env (mz_html mz) = Inr (h, g) \<longrightarrow>
           (\<exists>m'. env_parse env (env_strip_deck env (env_strip_nav env h)) = Inr m' \<and>
              m_source_as_of m' = mz_source_as_of mz)))"

lemma stamps_keptD:
  assumes "stamps_kept env de" "da_materialize de m data src now = Inr mz"
  shows "\<exists>t. parse_time (mz_source_as_of mz) = Some t \<and> env_timestamp env (mz_source_as_of mz) = Some t"
    and "env_ensure_schema env (mz_html mz) = Inr (h, g) \<Longrightarrow>
      \<exists>m'. env_parse env (env_strip_deck env (env_strip_nav env h)) = Inr m' \<and> m_source_as_of m' = mz_source_as_of mz"
  using assms unfolding stamps_kept_def by (metis option.exhaust, blast)

lemma prepare_managed:
  assumes "prepare_deploy env (managed_deploy_input slug v nt pub expected action mz binding) a = Inr pr"
    and "stamps_kept env de" "da_materialize de m data src now = Inr mz"
  obtains dm where "pr_data pr = Some dm" "dm_source_as_of dm = mz_source_as_of mz" "pr_dedupe_by_data pr"
proof -
  from assms(1) obtain h g mo where h: "env_ensure_schema env (mz_html mz) = Inr (h, g)"
    and mo: "assert_managed_blocks_deployable env (env_strip_deck env (env_strip_nav env h)) = Inr mo"
    and pr: "pr_data pr = map_option (managed_metadata (in_data (managed_deploy_input slug v nt pub expected action mz binding))) mo"
      "pr_dedupe_by_data pr \<longleftrightarrow> mo \<noteq> None"
    by (auto simp add: prepare_deploy_def managed_deploy_input_def res_bind_Inr_iff Let_def split: prod.splits)
  from stamps_keptD(2) [OF assms(2,3) h] obtain m' where
    "env_parse env (env_strip_deck env (env_strip_nav env h)) = Inr m'" "m_source_as_of m' = mz_source_as_of mz" by blast
  with mo have "mo = Some m'" by (simp add: assert_managed_blocks_deployable_def)
  with pr \<open>m_source_as_of m' = _\<close> show thesis by (intro that) (auto simp add: managed_metadata_def)
qed

subsection \<open>An example\<close>

text \<open>Documents that are their own stamp.\<close>

definition ex_stamp :: "bool \<Rightarrow> string" where
  "ex_stamp later = (if later then ''2024-02-01T00:00:00.000Z'' else ''2024-01-01T00:00:00.000Z'')"

definition ex_sha :: "char \<Rightarrow> string" where
  "ex_sha c = replicate 64 c"

definition ex_managed :: "string \<Rightarrow> managed" where
  "ex_managed h =
     \<lparr>m_html = h, m_schema = VNil, m_envelope = VNil, m_config = VNil, m_config_schema = VNil,
      m_data_sha = ex_sha (CHR ''a''), m_schema_sha = [], m_config_sha = [], m_config_schema_sha = [],
      m_template_sha = ex_sha (CHR ''b''), m_config_block = False, m_source_as_of = h, m_refreshed_at = h,
      m_data = VNil\<rparr>"

definition ex_managed_env :: deploy_env where
  "ex_managed_env = ex_env\<lparr>
     env_parse := (\<lambda>h. if h = ex_stamp False \<or> h = ex_stamp True then Inr (ex_managed h)
       else Inl (conflict ''not managed'' ''page_not_data_managed'' VNil)),
     env_timestamp := parse_time\<rparr>"

definition ex_data_env :: "unit data_env" where
  "ex_data_env =
     \<lparr>da_profile = (\<lambda>d. ()), da_assert_expected = (\<lambda>p e. Inr ()), da_hash = (\<lambda>d. Inr []),
      da_compare = (\<lambda>p q e x y. []),
      da_validate = (\<lambda>m d. if d = VNil then Inl (bad_request ''no data'' ''data_validation_failed'' VNil) else Inr ()),
      da_materialize = (\<lambda>m d src now.
        if d = VNil then Inl (bad_request ''no data'' ''data_validation_failed'' VNil)
        else if src = VStr (ex_stamp True)
        then Inr \<lparr>mz_html = ex_stamp True, mz_data_sha = ex_sha (CHR ''c''), mz_schema_sha = [], mz_config_sha = [],
          mz_template_sha = ex_sha (CHR ''b''), mz_source_as_of = ex_stamp True, mz_refreshed_at = ex_stamp True\<rparr>
        else Inl (bad_request ''no stamp'' ''source_as_of_invalid'' VNil)),
      da_materialize_config = (\<lambda>m c now. Inl not_template)\<rparr>"

definition ex_data_input :: data_update_input where
  "ex_data_input =
     \<lparr>du_slug = ''acme'', du_data = VObj [], du_source = VStr (ex_stamp True), du_expected = VStr ''5'', du_publish = VNil,
      du_note = VNil, du_expect = VNil, du_now = None\<rparr>"

definition ex_managed_db :: db where
  "ex_managed_db = ex_db ex_page [ex_version\<lparr>v_html := ex_stamp False, v_source_as_of := Some 1704067200000000000,
     v_refreshed_at := Some 1704067200000000000, v_data_sha := Some (ex_sha (CHR ''a'')),
     v_template_sha := Some (ex_sha (CHR ''b''))\<rparr>]"

lemma ex_stamps:
  "parse_time (ex_stamp False) = Some 1704067200000000000" "parse_time (ex_stamp True) = Some 1706745600000000000"
  "ex_stamp False \<noteq> []" "ex_stamp True \<noteq> []" "ex_stamp True \<noteq> ex_stamp False" "ex_stamp False \<noteq> ex_stamp True"
  by code_simp+

lemma ex_floor: "source_coverage_floor ex_managed_env 1 (ex_stamp False) ex_managed_db = Inr (ex_stamp False)"
  by code_simp

lemma ex_floor_now: "source_coverage_floor ex_managed_env 1 (ex_stamp False) (ex_managed_db\<lparr>db_now := t\<rparr>) = Inr (ex_stamp False)"
  using ex_floor by (simp add: source_coverage_floor_def floor_rows_def)

lemma ex_sha_hex: "hex64 (ex_sha (CHR ''a''))" "hex64 (ex_sha (CHR ''b''))" "hex64 (ex_sha (CHR ''c''))"
  "ex_sha (CHR ''c'') \<noteq> ex_sha (CHR ''a'')"
  by (simp_all add: hex64_def ex_sha_def list_all_iff in_class_def)

lemma ex_managed_env_simps [simp]:
  "env_is_deck ex_managed_env h = False" "env_ensure_schema ex_managed_env h = Inr (h, False)"
  "env_strip_nav ex_managed_env h = h" "env_strip_deck ex_managed_env h = h"
  "env_parse ex_managed_env (ex_stamp b) = Inr (ex_managed (ex_stamp b))" "env_gaps ex_managed_env m = []"
  "env_sha256 ex_managed_env h = h" "env_timestamp ex_managed_env = parse_time"
  by (cases b; simp add: ex_managed_env_def ex_env_def)+

lemma ex_managed_simps [simp]:
  "m_source_as_of (ex_managed h) = h" "m_data_sha (ex_managed h) = ex_sha (CHR ''a'')" "m_refreshed_at (ex_managed h) = h"
  "m_template_sha (ex_managed h) = ex_sha (CHR ''b'')"
  by (simp_all add: ex_managed_def)

lemma ex_managed_db_simps [simp]:
  "db_pages ex_managed_db = [ex_page]" "db_next_version ex_managed_db = 8" "db_templates ex_managed_db = []"
  "db_versions ex_managed_db = [ex_version\<lparr>v_html := ex_stamp False, v_source_as_of := Some 1704067200000000000,
     v_refreshed_at := Some 1704067200000000000, v_data_sha := Some (ex_sha (CHR ''a'')),
     v_template_sha := Some (ex_sha (CHR ''b''))\<rparr>]"
  by (simp_all add: ex_managed_db_def ex_db_def)

definition ex_refresh :: prepared where
  "ex_refresh =
     \<lparr>pr_slug = ''acme'', pr_html = ex_stamp True, pr_schema_generated = False, pr_mode = ''themed'', pr_note = None,
      pr_author = ''bot'', pr_source = ''mcp'', pr_publish = True, pr_expected = VStr ''5'', pr_sha = ex_stamp True,
      pr_dedupe_by_data = True,
      pr_data = Some \<lparr>dm_action = ''data_update'', dm_data_sha = ex_sha (CHR ''a''), dm_schema_sha = [],
        dm_template_sha = ex_sha (CHR ''b''), dm_source_as_of = ex_stamp True, dm_refreshed_at = ex_stamp True\<rparr>,
      pr_binding = None, pr_gaps = []\<rparr>"

lemma ex_five: "same_db_id (VStr ''5'') 5"
  by code_simp

lemma ex_refresh_lands:
  "\<exists>r s'. deploy_locked ex_managed_env (locked_page_of ex_page) ex_refresh ex_agent 0 (ex_managed_db\<lparr>db_now := 100\<rparr>) = (Inr (r, s')) \<and>
     vs_id (dr_version r) = 8 \<and> (\<exists>v. find_version 1 8 s' = Some v \<and> v_html v = ex_stamp True) \<and>
     map (\<lambda>v. (v_id v, v_source_as_of v)) (db_versions s') = [(5, Some 1704067200000000000), (8, Some 1706745600000000000)]"
  by (simp add: deploy_locked_def ex_refresh_def ex_five assert_expected_version_def locked_page_of_def
      find_or_insert_def insert_version_def fast_publish_def move_pointer_def dedupe_query_def dedupe_common_def
      dedupe_status_def casts_def new_version_def version_constraints_def
      bind_tx_def then_tx_def ret_def lift_tx_def read_tx_def exec_tx_def audit_write_def
      assert_agent_may_move_pointer_def version_columns_def binding_id_def find_version_def
      ex_page_def ex_version_def ex_stamps ex_sha_hex ex_agent_def audit_user_def
      add_version_def set_status_def update_version_def update_page_def set_pointer_def)

lemma ex_data_runs:
  "\<exists>r s'. update_page_data ex_managed_env ex_data_env 0 ex_request (\<lambda>s. s) ex_data_input ex_agent ex_managed_db = (Inr r, s') \<and>
     map (\<lambda>v. (v_id v, v_source_as_of v)) (db_versions s') = [(5, Some 1704067200000000000), (8, Some 1706745600000000000)]"
proof -
  let ?s = "ex_managed_db\<lparr>db_now := 100\<rparr>"
  have n: "null_to_nil (VObj []) = VObj []" "null_to_nil (VStr x) = VStr x" "null_to_nil VNil = VNil" for x
    by (simp_all add: null_to_nil_def)
  note data = ex_data_input_def ex_data_env_def ex_page_def ex_version_def ex_five n ex_stamps
  have pre: "precheck_page_data ex_managed_env ex_data_env ex_data_input ex_managed_db =
      Inr (Some \<lparr>sn_version = 5, sn_managed = ex_managed (ex_stamp False)\<rparr>)"
    by (simp add: precheck_page_data_def precheck_snapshot_def find_live_def live_page_def find_version_def data Let_def)
  obtain dr s' v where run: "deploy_locked ex_managed_env (locked_page_of ex_page) ex_refresh ex_agent 0 ?s = Inr (dr, s')"
    and stored: "vs_id (dr_version dr) = 8" "find_version 1 8 s' = Some v" "v_html v = ex_stamp True"
    and vs: "map (\<lambda>v. (v_id v, v_source_as_of v)) (db_versions s') = [(5, Some 1704067200000000000), (8, Some 1706745600000000000)]"
    using ex_refresh_lands by auto
  have prep: "prepare_deploy ex_managed_env (managed_deploy_input ''acme''  ov VNil VNil (VStr ''5'') []
      \<lparr>mz_html = ex_stamp True, mz_data_sha = x, mz_schema_sha = [], mz_config_sha = [], mz_template_sha = y,
       mz_source_as_of = ex_stamp True, mz_refreshed_at = ex_stamp True\<rparr> None) ex_agent = Inr ex_refresh"
    if "v_mode ov = ''themed''" for ov x y
    using that by (simp add: prepare_simps managed_deploy_input_def publish_default_def managed_metadata_def ex_refresh_def
        ex_stamps ex_agent_def Let_def) (simp add: ex_managed_def)
  have "lock_page ''acme'' ?s = Inr (locked_page_of ex_page, ?s)"
    by (simp add: lock_page_def bind_tx_def lift_tx_def found_or_def ret_def find_live_def live_page_def ex_page_def)
  then have "\<exists>r. update_data_tx ex_managed_env ex_data_env 0 ex_data_input
      (Some \<lparr>sn_version = 5, sn_managed = ex_managed (ex_stamp False)\<rparr>) ex_agent ?s = Inr (r, s')"
    using run stored ex_floor_now [of 100]
    by (simp add: update_data_tx_def pour_data_def data_template_def usable_snapshot_def Let_def data is_nullish_def
        bind_tx_def then_tx_def lift_tx_def read_tx_def found_or_def ret_def assert_expected_version_def find_version_def
        moves_backward_def prep carry_template_binding_def stored_managed_def)
  then show ?thesis
    using pre vs by (auto simp add: update_page_data_def from_prepared_def with_tx_def ex_request_def check_write_admission_def
      is_nullish_def data)
qed

lemma wf_ex_managed_db: "wf_db ex_managed_db"
  unfolding ex_managed_db_def by (rule wf_ex_db) (simp_all add: ex_page_def ex_version_def)

lemma ex_stamps_kept: "stamps_kept ex_managed_env ex_data_env"
  unfolding stamps_kept_def by (simp add: ex_data_env_def ex_stamps)

lemma ex_stamps_in_years: "stamps_in_years ex_managed_env ex_managed_db"
proof -
  have y: "in_years 1704067200000000000" "in_years 1706745600000000000" by code_simp+
  have "in_years t" if "env_parse ex_managed_env h = Inr m" "parse_time (m_source_as_of m) = Some t" for h m t
    using that y by (auto simp add: ex_managed_env_def ex_stamps split: if_splits)
  with y show ?thesis by (simp add: stamps_in_years_def ex_version_def)
qed

subsection \<open>Properties\<close>

text \<open>
  C29: the validation before the transaction changes nothing about what is written. Whatever commits
  between the unlocked read and the transaction, a data update succeeds exactly when the
  transaction alone, which reads and parses the published document itself, succeeds, with the same
  result and the same database: an early refusal only refuses what the transaction would refuse,
  and a reused snapshot is the document the transaction would have read. Only \<open>Materialize\<close>
  refusing what \<open>ValidateProposedData\<close> refuses is relied on.
\<close>

theorem precheck_transparent:
  assumes "wf_db (others s)" "history s (others s)"
    and law: "\<And>m data src now mz. da_materialize de m data src now = Inr mz \<Longrightarrow> da_validate de m data = Inr ()"
  shows "update_page_data env de clock rq others inp a s = (Inr r, s') \<longleftrightarrow>
    with_tx rq (update_data_tx env de clock inp None a) (others s) = (Inr r, s')"
proof -
  let ?s2 = "(others s)\<lparr>db_now := rq_now rq\<rparr>"
  have h: "history s ?s2" "wf_db ?s2"
    using assms(1) by (auto simp add: wf_clock intro: history_trans [OF assms(2) history_same])
  have args: "(\<exists>n. normalize_slug (VStr (du_slug inp)) = Inr n) \<and> \<not> is_nullish (du_expected inp)"
    if "update_data_tx env de clock inp sn a ?s2 = Inr (r, s')" for sn
    using that by (auto simp add: update_data_tx_Inr locked_def)
  have "update_page_data env de clock rq others inp a s = (Inr r, s') \<longleftrightarrow> check_write_admission rq = Inr () \<and>
      (\<exists>sn. precheck_page_data env de inp s = Inr sn \<and> update_data_tx env de clock inp sn a ?s2 = Inr (r, s'))"
    using args by (auto simp add: update_page_data_def from_prepared_Inr res_bind_Inr_iff with_tx_Inr)
  also have "(\<exists>sn. precheck_page_data env de inp s = Inr sn \<and> update_data_tx env de clock inp sn a ?s2 = Inr (r, s')) \<longleftrightarrow>
      update_data_tx env de clock inp None a ?s2 = Inr (r, s')"
  proof (cases "precheck_page_data env de inp s")
    case (Inl e)
    with precheck_refuses_only_failures [OF Inl h law] show ?thesis by simp
  next
    case (Inr sn)
    show ?thesis
    proof (cases sn)
      case (Some x)
      with Inr obtain data where "precheck_snapshot env de inp s = Some (x, data)" by (blast dest: precheck_Inr_Some)
      from snapshot_irrelevant [OF this h] Inr Some show ?thesis by simp
    qed (simp add: Inr)
  qed
  finally show ?thesis by (simp add: with_tx_Inr)
qed

theorem precheck_transparent_witness:
  "\<exists>r s'. with_tx ex_request (update_data_tx ex_managed_env ex_data_env 0 ex_data_input None ex_agent) ex_managed_db = (Inr r, s')"
proof -
  obtain r s' where run: "update_page_data ex_managed_env ex_data_env 0 ex_request (\<lambda>s. s) ex_data_input ex_agent ex_managed_db = (Inr r, s')"
    using ex_data_runs by blast
  have "with_tx ex_request (update_data_tx ex_managed_env ex_data_env 0 ex_data_input None ex_agent) ex_managed_db = (Inr r, s')"
    by (rule iffD1 [OF precheck_transparent [where others = "\<lambda>s. s" and s = ex_managed_db] run])
      (use wf_ex_managed_db in \<open>auto simp add: history_refl ex_data_env_def split: if_splits\<close>)
  then show ?thesis by blast
qed



end
