(* ===== verification/Version_Machine.thy ===== *)
theory Version_Machine
  imports Refresh_Health Workspaces Managed_Data
begin

text \<open>
  The version state machine as a whole: every operation of \<open>internal/versions\<close> and
  \<open>internal/workspaces\<close> that writes, as one transition of the database, and what every one of them
  respects. The contract \<open>sound\<close> is proved operation by operation; \<open>Version_Runs\<close> lifts it to
  whole runs.
\<close>

subsection \<open>Operations\<close>

record 'p services =
  sv_deploy :: deploy_env
  sv_data :: "'p data_env"
  sv_secret :: secret_env
  sv_health :: health_env
  sv_lower :: "string \<Rightarrow> string"

datatype operation =
    Op_Create create_input
  | Op_Deploy deploy_input
  | Op_Create_Deploy create_deploy_input
  | Op_Save_Deck deck_input
  | Op_Update_Data data_update_input
  | Op_Update_Config config_update_input
  | Op_Publish string int goval
  | Op_Rollback string int goval goval
  | Op_Approve string int goval
  | Op_Reject string int goval
  | Op_Set_Disabled string goval
  | Op_Set_Approval string goval
  | Op_Set_Theme string string
  | Op_Set_Password string goval
  | Op_Reveal_Password string
  | Op_Set_Title string goval
  | Op_Delete string
  | Op_Restore string
  | Op_Refresh_Check check_input
  | Op_Set_Schedule string goval goval
  | Op_Create_Workspace goval
  | Op_Rename_Workspace goval goval
  | Op_Remove_Workspace goval
  | Op_Assign_Page string goval

definition outcome :: "(go_error + 'a) \<times> db \<Rightarrow> (go_error + unit) \<times> db" where
  \<comment> \<open>the answer of a call, without the value of a successful one\<close>
  "outcome r = (case r of (Inl e, s) \<Rightarrow> (Inl e, s) | (Inr _, s) \<Rightarrow> (Inr (), s))"

fun perform :: "'p services \<Rightarrow> request \<Rightarrow> int \<Rightarrow> actor \<Rightarrow> operation \<Rightarrow> db \<Rightarrow> (go_error + unit) \<times> db" where
  "perform sv rq clock a (Op_Create inp) s = outcome (create_page rq inp a s)"
| "perform sv rq clock a (Op_Deploy inp) s = outcome (deploy (sv_deploy sv) rq inp a s)"
| "perform sv rq clock a (Op_Create_Deploy inp) s = outcome (create_and_deploy (sv_deploy sv) rq inp a s)"
| "perform sv rq clock a (Op_Save_Deck inp) s = outcome (save_deck (sv_deploy sv) rq inp a s)"
| "perform sv rq clock a (Op_Update_Data inp) s =
     outcome (update_page_data (sv_deploy sv) (sv_data sv) clock rq (\<lambda>s. s) inp a s)"
| "perform sv rq clock a (Op_Update_Config inp) s =
     outcome (update_page_config (sv_deploy sv) (sv_data sv) clock rq inp a s)"
| "perform sv rq clock a (Op_Publish slug vid expected) s = outcome (publish rq slug vid expected a s)"
| "perform sv rq clock a (Op_Rollback slug vid expected nt) s = outcome (rollback rq slug vid expected nt a s)"
| "perform sv rq clock a (Op_Approve slug vid expected) s = outcome (approve rq slug vid expected a s)"
| "perform sv rq clock a (Op_Reject slug vid nt) s = outcome (reject rq slug vid nt a s)"
| "perform sv rq clock a (Op_Set_Disabled slug v) s = outcome (set_disabled rq slug v a s)"
| "perform sv rq clock a (Op_Set_Approval slug v) s = outcome (set_approval rq slug v a s)"
| "perform sv rq clock a (Op_Set_Theme slug th) s = outcome (set_theme rq slug th a s)"
| "perform sv rq clock a (Op_Set_Password slug pw) s = outcome (set_password (sv_secret sv) rq slug pw a s)"
| "perform sv rq clock a (Op_Reveal_Password slug) s = outcome (reveal_password (sv_secret sv) rq slug a s)"
| "perform sv rq clock a (Op_Set_Title slug title) s = outcome (set_title rq slug title a s)"
| "perform sv rq clock a (Op_Delete slug) s = outcome (delete_page rq slug a s)"
| "perform sv rq clock a (Op_Restore slug) s = outcome (restore_page rq slug a s)"
| "perform sv rq clock a (Op_Refresh_Check inp) s = outcome (record_refresh_check (sv_deploy sv) clock rq inp a s)"
| "perform sv rq clock a (Op_Set_Schedule slug sc ow) s =
     outcome (set_refresh_schedule (sv_deploy sv) (sv_health sv) clock rq slug sc ow a s)"
| "perform sv rq clock a (Op_Create_Workspace name) s = outcome (create_workspace (sv_lower sv) rq name a s)"
| "perform sv rq clock a (Op_Rename_Workspace wid name) s = outcome (rename_workspace (sv_lower sv) rq wid name a s)"
| "perform sv rq clock a (Op_Remove_Workspace wid) s = outcome (remove_workspace rq wid a s)"
| "perform sv rq clock a (Op_Assign_Page slug wid) s = outcome (assign_page rq slug wid a s)"

subsection \<open>The contract of an operation\<close>

text \<open>What decides who may change what is live, and which versions a human has approved.\<close>

definition control :: "page \<Rightarrow> int \<times> int \<times> int option \<times> bool \<times> bool" where
  "control p = (p_id p, p_published p, p_deleted p, p_disabled p, p_require_approval p)"

definition approved :: "db \<Rightarrow> (int \<times> int) set" where
  "approved s = (\<lambda>v. (v_id v, v_page v)) ` {v \<in> set (db_versions s). v_status v = Approved}"

definition pointer :: "db \<Rightarrow> int \<Rightarrow> int" where
  "pointer s pid = (case map_of (map (\<lambda>p. (p_id p, p_published p)) (db_pages s)) pid of Some v \<Rightarrow> v | None \<Rightarrow> 0)"

definition new_rows :: "db \<Rightarrow> db \<Rightarrow> audit_row list" where
  "new_rows s s' = drop (length (db_audit s)) (db_audit s')"

definition says :: "actor \<Rightarrow> audit_row \<Rightarrow> int \<Rightarrow> int \<Rightarrow> bool" where
  "says a row pid vid \<longleftrightarrow> a_page row = pid \<and> a_version row = vid \<and> a_actor row = ac_actor a \<and> a_actor_type row = ac_type a"

definition audited :: "actor \<Rightarrow> db \<Rightarrow> db \<Rightarrow> bool" where
  \<comment> \<open>every pointer that moved has a new audit row that says who moved it where\<close>
  "audited a s s' \<longleftrightarrow>
     prefix (db_audit s) (db_audit s') \<and>
     (\<forall>pid. pointer s' pid \<noteq> pointer s pid \<longrightarrow> (\<exists>row \<in> set (new_rows s s'). says a row pid (pointer s' pid)))"

definition guarded :: "page \<Rightarrow> bool" where
  \<comment> \<open>a live page an agent may only stage versions on\<close>
  "guarded p \<longleftrightarrow> p_deleted p = None \<and> (p_disabled p \<or> p_require_approval p)"

definition gate_kept :: "db \<Rightarrow> db \<Rightarrow> bool" where
  "gate_kept s s' \<longleftrightarrow>
     (\<forall>p \<in> set (db_pages s). guarded p \<longrightarrow> control p \<in> control ` set (db_pages s') \<and>
        (\<forall>i. (i, p_id p) \<in> approved s' \<longrightarrow> (i, p_id p) \<in> approved s))"

definition column_types :: "version \<Rightarrow> bool" where
  "column_types v \<longleftrightarrow>
     v_mode v \<in> {''themed'', ''raw''} \<and> v_source v \<in> {''api'', ''mcp'', ''admin''} \<and>
     (case (v_data_sha v, v_template_sha v, v_source_as_of v, v_refreshed_at v) of
        (None, None, None, None) \<Rightarrow> True
      | (Some d, Some t, Some _, Some _) \<Rightarrow> hex64 d \<and> hex64 t
      | _ \<Rightarrow> False) \<and>
     (case v_config_sha v of None \<Rightarrow> v_binding v = 0 | Some c \<Rightarrow> v_binding v \<noteq> 0 \<and> hex64 c)"

definition typed :: "db \<Rightarrow> bool" where
  "typed s \<longleftrightarrow> (\<forall>v \<in> set (db_versions s). column_types v)"

definition sound :: "actor \<Rightarrow> db \<Rightarrow> db \<Rightarrow> bool" where
  "sound a s s' \<longleftrightarrow>
     keeps s s' \<and>
     (wf_db s \<longrightarrow> audited a s s' \<and> (typed s \<longrightarrow> typed s') \<and> (ac_type a \<noteq> audit_user \<longrightarrow> gate_kept s s'))"

lemma audited_refl: "audited a s s"
  by (simp add: audited_def)

lemma audited_trans:
  assumes "audited a s1 s2" "audited a s2 s3"
  shows "audited a s1 s3"
proof -
  from assms obtain xs ys where a2: "db_audit s2 = db_audit s1 @ xs" and a3: "db_audit s3 = db_audit s2 @ ys"
    by (auto simp add: audited_def prefix_def)
  then have rows: "new_rows s1 s2 = xs" "new_rows s2 s3 = ys" "new_rows s1 s3 = xs @ ys" by (simp_all add: new_rows_def)
  have "\<exists>row \<in> set (xs @ ys). says a row pid (pointer s3 pid)" if "pointer s3 pid \<noteq> pointer s1 pid" for pid
    using assms that rows by (cases "pointer s3 pid = pointer s2 pid") (auto simp add: audited_def)
  then show ?thesis using a2 a3 rows by (simp add: audited_def)
qed

lemma control_id: "control p = control q \<Longrightarrow> p_id p = p_id q \<and> guarded p = guarded q"
  by (simp add: control_def guarded_def)

lemma gate_kept_trans:
  assumes "gate_kept s1 s2" "gate_kept s2 s3"
  shows "gate_kept s1 s3"
  unfolding gate_kept_def
proof (intro ballI impI)
  fix p assume p: "p \<in> set (db_pages s1)" "guarded p"
  with assms(1) obtain q where q: "q \<in> set (db_pages s2)" "control p = control q"
    and a: "\<And>i. (i, p_id p) \<in> approved s2 \<Longrightarrow> (i, p_id p) \<in> approved s1"
    by (fastforce simp add: gate_kept_def)
  from control_id [OF q(2)] p(2) assms(2) q(1)
  have "control q \<in> control ` set (db_pages s3)" "\<And>i. (i, p_id p) \<in> approved s3 \<Longrightarrow> (i, p_id p) \<in> approved s2"
    by (auto simp add: gate_kept_def)
  with a q(2) show "control p \<in> control ` set (db_pages s3) \<and>
      (\<forall>i. (i, p_id p) \<in> approved s3 \<longrightarrow> (i, p_id p) \<in> approved s1)" by auto
qed

interpretation sound: tx_contract "sound a" for a
proof
  show refl: "sound a s s" for s
    by (simp add: sound_def keep.refl audited_refl gate_kept_def)
  show "sound a s1 s2 \<Longrightarrow> sound a s2 s3 \<Longrightarrow> sound a s1 s3" for s1 s2 s3
  proof -
    assume A: "sound a s1 s2" "sound a s2 s3"
    then have "keeps s1 s3" by (auto simp add: sound_def intro: keep.trans)
    moreover have "audited a s1 s3 \<and> (typed s1 \<longrightarrow> typed s3) \<and> (ac_type a \<noteq> audit_user \<longrightarrow> gate_kept s1 s3)" if "wf_db s1"
    proof -
      from A(1) that have "wf_db s2" by (simp add: sound_def keeps_def)
      with A that show ?thesis unfolding sound_def by (blast intro: audited_trans gate_kept_trans)
    qed
    ultimately show "sound a s1 s3" by (simp add: sound_def)
  qed
  show "sound a s (s\<lparr>db_now := t\<rparr>)" for s t
    by (simp add: sound_def keep.clock audited_def pointer_def gate_kept_def approved_def typed_def)
qed

text \<open>Operations that change neither the control columns nor the review state of a version.\<close>

definition quiet :: "db \<Rightarrow> db \<Rightarrow> bool" where
  "quiet s s' \<longleftrightarrow>
     map control (db_pages s') = map control (db_pages s) \<and> approved s' = approved s \<and>
     content_of ` set (db_versions s') = content_of ` set (db_versions s)"

interpretation quiet: tx_contract quiet
  by unfold_locales (auto simp add: quiet_def approved_def)

lemma keeps_prefix: "keeps s s' \<Longrightarrow> wf_db s \<Longrightarrow> prefix (db_audit s) (db_audit s')"
  by (simp add: keeps_def history_def)

lemma pointer_control:
  assumes "map control (db_pages s') = map control (db_pages s)"
  shows "pointer s' = pointer s"
proof -
  have "map (\<lambda>p. (p_id p, p_published p)) ps = map (\<lambda>(i, v, _). (i, v)) (map control ps)" for ps
    by (simp add: control_def)
  note eq = this
  show ?thesis by (rule ext) (simp only: pointer_def eq assms)
qed

lemma column_types_content: "content_of v = content_of w \<Longrightarrow> column_types v = column_types w"
proof -
  have "column_types (content_of x) = column_types x" for x
    by (cases "v_config_sha x") (simp_all add: column_types_def content_of_def)
  then show "content_of v = content_of w \<Longrightarrow> ?thesis" by metis
qed

lemma typed_content:
  assumes "content_of ` set (db_versions s') \<subseteq> content_of ` set (db_versions s)" "typed s"
  shows "typed s'"
  unfolding typed_def
proof
  fix v assume "v \<in> set (db_versions s')"
  with assms(1) obtain w where "w \<in> set (db_versions s)" "content_of v = content_of w" by blast
  with assms(2) column_types_content [OF this(2)] show "column_types v" by (simp add: typed_def)
qed

lemma quiet_sound:
  assumes q: "quiet s s'" and k: "keeps s s'"
  shows "sound a s s'"
proof -
  from q have pages: "map control (db_pages s') = map control (db_pages s)" by (simp add: quiet_def)
  then have "control ` set (db_pages s') = control ` set (db_pages s)" by (metis set_map)
  then have "gate_kept s s'" using q by (simp add: gate_kept_def quiet_def)
  moreover have "wf_db s \<longrightarrow> audited a s s'" using keeps_prefix [OF k] pointer_control [OF pages] by (simp add: audited_def)
  moreover have "typed s \<longrightarrow> typed s'" using q typed_content [of s' s] by (simp add: quiet_def)
  ultimately show ?thesis using k by (simp add: sound_def)
qed

lemma obeys_quiet: "obeys keeps m \<Longrightarrow> obeys quiet m \<Longrightarrow> obeys (sound a) m"
  by (auto simp add: obeys_def intro: quiet_sound)

text \<open>Operations that change one page, within the authority of the actor.\<close>

lemma pointer_mem:
  assumes "distinct (map p_id (db_pages s))" "q \<in> set (db_pages s)"
  shows "pointer s (p_id q) = p_published q"
proof -
  have "map_of (map (\<lambda>p. (p_id p, p_published p)) (db_pages s)) (p_id q) = Some (p_published q)"
    by (rule map_of_is_SomeI) (use assms in \<open>auto simp add: o_def\<close>)
  then show ?thesis by (simp add: pointer_def)
qed

lemma pointer_none: "pid \<notin> p_id ` set (db_pages s) \<Longrightarrow> pointer s pid = 0"
  by (force simp add: pointer_def split: option.split dest: map_of_SomeD)

lemma pointer_update:
  assumes "wf_db s" "p \<in> set (db_pages s)" "\<And>q. p_id (f q) = p_id q"
    and "db_pages s' = update_where (\<lambda>q. p_id q = p_id p) f (db_pages s)"
  shows "pointer s' pid = (if pid = p_id p then p_published (f p) else pointer s pid)"
proof -
  have d: "distinct (map p_id (db_pages s))" using assms(1) by (simp add: wf_db_def ids_ok_def)
  have ids: "map p_id (db_pages s') = map p_id (db_pages s)" unfolding assms(4) by (rule map_update_where_id) (rule assms(3))
  have mem: "(if p_id q = p_id p then f q else q) \<in> set (db_pages s')" if "q \<in> set (db_pages s)" for q
    using that by (auto simp add: assms(4) mem_update_where_iff)
  show ?thesis
  proof (cases "pid \<in> p_id ` set (db_pages s)")
    case True
    then obtain q where q: "q \<in> set (db_pages s)" "pid = p_id q" by blast
    have "pointer s' pid = p_published (if p_id q = p_id p then f q else q)"
      using pointer_mem [of s', OF _ mem [OF q(1)]] d ids assms(3) q(2) by (simp split: if_splits)
    moreover have "p_id q = p_id p \<Longrightarrow> q = p" using wf_page_unique [OF assms(1) q(1) assms(2)] by simp
    ultimately show ?thesis using pointer_mem [OF d q(1)] q(2) by auto
  next
    case False
    moreover have "p_id ` set (db_pages s') = p_id ` set (db_pages s)" using ids by (metis set_map)
    ultimately show ?thesis using assms(2) by (auto simp add: pointer_none)
  qed
qed

lemma sound_touch:
  assumes k: "keeps s s'" and p: "p \<in> set (db_pages s)" and f: "\<And>q. p_id (f q) = p_id q"
    and pages: "db_pages s' = update_where (\<lambda>q. p_id q = p_id p) f (db_pages s)"
    and auth: "ac_type a = audit_user \<or> \<not> guarded p"
    and ap: "\<And>i j. wf_db s \<Longrightarrow> (i, j) \<in> approved s' \<Longrightarrow> (i, j) \<in> approved s \<or> j = p_id p"
    and ty: "content_of ` set (db_versions s') \<subseteq> content_of ` set (db_versions s)"
    and row: "p_published (f p) \<noteq> p_published p \<Longrightarrow> \<exists>row \<in> set (new_rows s s'). says a row (p_id p) (p_published (f p))"
  shows "sound a s s'"
  unfolding sound_def
proof (intro conjI impI k)
  assume wf: "wf_db s"
  have "pointer s (p_id p) = p_published p" by (rule pointer_mem) (use wf p in \<open>simp_all add: wf_db_def ids_ok_def\<close>)
  then show "audited a s s'"
    using row keeps_prefix [OF k wf] by (auto simp add: audited_def pointer_update [OF wf p f pages])
  show "typed s \<Longrightarrow> typed s'" by (rule typed_content [OF ty])
  show "gate_kept s s'" if "ac_type a \<noteq> audit_user"
    unfolding gate_kept_def
  proof (intro ballI impI)
    fix q assume q: "q \<in> set (db_pages s)" "guarded q"
    with auth that have "q \<noteq> p" by blast
    then have ne: "p_id q \<noteq> p_id p" using wf_page_unique [OF wf q(1) p] by blast
    then have "q \<in> set (db_pages s')" using q(1) by (force simp add: pages mem_update_where_iff)
    then show "control q \<in> control ` set (db_pages s') \<and> (\<forall>i. (i, p_id q) \<in> approved s' \<longrightarrow> (i, p_id q) \<in> approved s)"
      using ap [OF wf] ne by auto
  qed
qed

text \<open>Reading the versions through the statements.\<close>

lemma approved_same [simp]:
  "approved (add_audit e s) = approved s" "approved (update_page pid f s) = approved s"
  by (simp_all add: approved_def)

lemma content_same [simp]:
  "db_versions (update_page pid f s) = db_versions s"
  by simp

lemma content_update_version:
  assumes "\<And>v. content_of (f v) = content_of v"
  shows "content_of ` set (db_versions (update_version vid f s)) = content_of ` set (db_versions s)"
  unfolding update_version_def using image_update_where_id [of content_of f, OF assms] by simp

lemma content_set_status [simp]:
  "content_of ` set (db_versions (set_status vid st s)) = content_of ` set (db_versions s)"
  "content_of ` set (db_versions (set_review vid st r s)) = content_of ` set (db_versions s)"
  unfolding set_status_def set_review_def by (rule content_update_version, simp add: content_of_def)+

lemma approved_update_version:
  assumes "wf_db s" "v \<in> set (db_versions s)" "\<And>w. v_page (f w) = v_page w" "\<And>w. v_id (f w) = v_id w"
    and "(i, j) \<in> approved (update_version (v_id v) f s)"
  shows "(i, j) \<in> approved s \<or> j = v_page v"
proof -
  from assms(5) obtain w where w: "w \<in> set (db_versions s)" "(i, j) = (v_id w, v_page w)"
    "v_status (if v_id w = v_id v then f w else w) = Approved"
    using assms(3,4) by (auto simp add: approved_def update_version_def mem_update_where_iff split: if_splits)
  show ?thesis
  proof (cases "v_id w = v_id v")
    case True
    with wf_version_unique [OF assms(1) w(1) assms(2)] w(2) show ?thesis by simp
  next
    case False
    with w show ?thesis by (auto simp add: approved_def)
  qed
qed

lemma approved_set_status:
  assumes "wf_db s" "v \<in> set (db_versions s)" "v_page v = k"
  shows "(i, j) \<in> approved (set_status (v_id v) st s) \<Longrightarrow> (i, j) \<in> approved s \<or> j = k"
    and "(i, j) \<in> approved (set_review (v_id v) st r s) \<Longrightarrow> (i, j) \<in> approved s \<or> j = k"
  unfolding set_status_def set_review_def assms(3) [symmetric]
  by (erule approved_update_version [OF assms(1,2), rotated -1]; simp)+

lemma new_rows_audit: "db_audit s1 = db_audit s \<Longrightarrow> new_rows s (add_audit e s1) = [audit_row_of s1 e]"
  by (simp add: new_rows_def)

lemma says_entry: "says a (audit_row_of s (actor_entry a action pid vid meta)) pid vid"
  by (simp add: says_def audit_row_of_def actor_entry_def)

lemma guarded_authority:
  "assert_agent_may_move_pointer (locked_page_of p) a = Inr () \<Longrightarrow> ac_type a = audit_user \<or> \<not> guarded p"
  by (auto simp add: agent_authority guarded_def)

text \<open>Moving the pointer of a locked page to a version of it, as \<open>movePointer\<close> does.\<close>

lemma sound_move:
  assumes k: "keeps s s'" and p: "p \<in> set (db_pages s)"
    and v: "v \<in> set (db_versions s)" "v_page v = p_id p"
    and auth: "ac_type a = audit_user \<or> \<not> guarded p"
    and s1: "s1 = s \<or> s1 = set_status (v_id v) st s \<or> s1 = set_review (v_id v) st r s"
    and s': "s' = add_audit (actor_entry a action (p_id p) (v_id v) meta) (update_page (p_id p) (set_pointer now (v_id v)) s1)"
  shows "sound a s s'"
proof (rule sound_touch [OF k p])
  have pages: "db_pages s1 = db_pages s" and audit: "db_audit s1 = db_audit s" using s1 by auto
  show "db_pages s' = update_where (\<lambda>q. p_id q = p_id p) (set_pointer now (v_id v)) (db_pages s)"
    by (simp add: s' update_page_def pages)
  show "(i, j) \<in> approved s \<or> j = p_id p" if "wf_db s" "(i, j) \<in> approved s'" for i j
    using s1 that(2)
      approved_set_status(1) [OF that(1) v, of i j st] approved_set_status(2) [OF that(1) v, of i j st r] by (auto simp add: s')
  show "content_of ` set (db_versions s') \<subseteq> content_of ` set (db_versions s)"
    using s1 by (elim disjE) (simp_all add: s')
  have "new_rows s s' = [audit_row_of (update_page (p_id p) (set_pointer now (v_id v)) s1) (actor_entry a action (p_id p) (v_id v) meta)]"
    unfolding s' by (rule new_rows_audit) (simp add: update_page_def audit)
  then show "\<exists>row \<in> set (new_rows s s'). says a row (p_id p) (p_published (set_pointer now (v_id v) p))"
    using says_entry by (simp add: set_pointer_def)
qed (use auth in \<open>simp_all add: set_pointer_def\<close>)

subsection \<open>Every operation is sound\<close>

lemma update_where_same: "update_where P (\<lambda>r. r) rows = rows"
  by (simp add: update_where_def)

lemma publish_tx_sound: "obeys (sound a) (publish_tx slug vid expected a)"
proof (rule obeysI)
  fix s r s'
  assume run: "publish_tx slug vid expected a s = Inr (r, s')"
  then obtain p v where p: "p \<in> set (db_pages s)" "assert_agent_may_move_pointer (locked_page_of p) a = Inr ()"
    and v: "find_version (p_id p) vid s = Some v"
    and s': "s' = add_audit (actor_entry a ''publish'' (p_id p) vid (pointer_meta (locked_page_of p) vid None))
            (update_page (p_id p) (set_pointer (db_now s) vid) (set_status vid Approved s))"
    by (auto simp add: publish_tx_Inr dest: lockedD)
  note vv = find_version_Some [OF v]
  show "sound a s s'"
    by (rule sound_move [OF obeysD [OF publish_tx_keeps run] p(1), of v]) (use vv s' guarded_authority [OF p(2)] in auto)
qed

lemma rollback_tx_sound: "obeys (sound a) (rollback_tx slug vid expected nt a)"
proof (rule obeysI)
  fix s r s'
  assume run: "rollback_tx slug vid expected nt a s = Inr (r, s')"
  then obtain p v t where p: "p \<in> set (db_pages s)" "assert_agent_may_move_pointer (locked_page_of p) a = Inr ()"
    and v: "find_version (p_id p) t s = Some v"
    and s': "s' = add_audit (actor_entry a ''rollback'' (p_id p) t (pointer_meta (locked_page_of p) t nt))
            (update_page (p_id p) (set_pointer (db_now s) t) s)"
    unfolding rollback_tx_Inr by (blast dest: lockedD)
  note vv = find_version_Some [OF v]
  show "sound a s s'"
    by (rule sound_move [OF obeysD [OF rollback_tx_keeps run] p(1), of v]) (use vv s' guarded_authority [OF p(2)] in auto)
qed

lemma approve_tx_sound:
  assumes "ac_type a = audit_user"
  shows "obeys (sound a) (approve_tx slug vid expected a)"
proof (rule obeysI)
  fix s r s'
  assume run: "approve_tx slug vid expected a s = Inr (r, s')"
  then obtain p v where p: "p \<in> set (db_pages s)" and v: "find_version (p_id p) vid s = Some v"
    and s': "s' = add_audit (actor_entry a ''approve'' (p_id p) vid (pointer_meta (locked_page_of p) vid None))
            (update_page (p_id p) (set_pointer (db_now s) vid) (set_review vid Approved (ac_actor a) s))"
    by (auto simp add: approve_tx_Inr dest: lockedD)
  note vv = find_version_Some [OF v]
  show "sound a s s'"
    by (rule sound_move [OF obeysD [OF approve_tx_keeps run] p(1), of v]) (use vv s' assms in auto)
qed

lemma reject_tx_sound:
  assumes "ac_type a = audit_user"
  shows "obeys (sound a) (reject_tx slug vid nt a)"
proof (rule obeysI)
  fix s r s'
  assume run: "reject_tx slug vid nt a s = Inr (r, s')"
  then obtain p v where p: "p \<in> set (db_pages s)" and v: "find_version (p_id p) vid s = Some v"
    and s': "s' = add_audit (actor_entry a ''reject'' (p_id p) vid (reject_meta nt)) (set_review vid Rejected (ac_actor a) s)"
    unfolding reject_tx_Inr by (blast dest: lockedD)
  note vv = find_version_Some [OF v]
  have s2: "s' = add_audit (actor_entry a ''reject'' (p_id p) vid (reject_meta nt)) (set_review (v_id v) Rejected (ac_actor a) s)"
    using s' vv by simp
  show "sound a s s'"
  proof (rule sound_touch [OF obeysD [OF reject_tx_keeps run] p, of "\<lambda>q. q"])
    show "(i, j) \<in> approved s \<or> j = p_id p" if "wf_db s" "(i, j) \<in> approved s'" for i j
      by (rule approved_set_status(2) [OF that(1), of v]) (use vv that(2) s2 in simp_all)
    show "content_of ` set (db_versions s') \<subseteq> content_of ` set (db_versions s)" unfolding s2 by simp
  qed (simp_all add: s2 assms update_where_same)
qed

text \<open>A setting of a page, by a human.\<close>

lemma sound_setting:
  assumes k: "keeps s s'" and a: "ac_type a = audit_user" and p: "p \<in> set (db_pages s)"
    and f: "\<And>q. p_id (f q) = p_id q" "\<And>q. p_published (f q) = p_published q"
    and s': "s' = add_audit e (update_page (p_id p) f s)"
  shows "sound a s s'"
  by (rule sound_touch [OF k p f(1)]) (simp_all add: s' a f(2) update_page_def approved_def)

lemma set_disabled_tx_sound:
  assumes "ac_type a = audit_user"
  shows "obeys (sound a) (set_disabled_tx slug value a)"
proof (rule obeysI)
  fix s r s'
  assume run: "set_disabled_tx slug value a s = Inr (r, s')"
  then obtain p e where "p \<in> set (db_pages s)"
    "s' = add_audit e (update_page (p_id p) (\<lambda>p. p\<lparr>p_disabled := value, p_updated := db_now s\<rparr>) s)"
    by (auto simp add: set_disabled_tx_def tx_simps dest: lockedD)
  then show "sound a s s'"
    by (intro sound_setting [OF obeysD [OF set_disabled_tx_keeps run] assms]) simp_all
qed

lemma set_approval_tx_sound:
  assumes "ac_type a = audit_user"
  shows "obeys (sound a) (set_approval_tx slug value a)"
proof (rule obeysI)
  fix s r s'
  assume run: "set_approval_tx slug value a s = Inr (r, s')"
  then obtain p e where "p \<in> set (db_pages s)"
    "s' = add_audit e (update_page (p_id p) (\<lambda>p. p\<lparr>p_require_approval := value, p_updated := db_now s\<rparr>) s)"
    by (auto simp add: set_approval_tx_def tx_simps dest: lockedD)
  then show "sound a s s'"
    by (intro sound_setting [OF obeysD [OF set_approval_tx_keeps run] assms]) simp_all
qed

lemma restore_page_tx_sound:
  assumes "ac_type a = audit_user"
  shows "obeys (sound a) (restore_page_tx (\<lambda>s. s) slug a)"
proof (rule obeysI)
  fix s r s'
  assume run: "restore_page_tx (\<lambda>s. s) slug a s = Inr (r, s')"
  then obtain p where p: "deleted_page slug s = Some p"
    and s': "s' = add_audit (actor_entry a ''restore_page'' (p_id p) 0 VNil)
          (update_page (p_id p) (\<lambda>p. p\<lparr>p_deleted := None, p_updated := db_now s\<rparr>) s)"
    unfolding restore_page_tx_Inr by blast
  from deleted_page_Some [OF p] have "p \<in> set (db_pages s)" by simp
  from sound_setting [OF obeysD [OF restore_page_tx_keeps run] assms this _ _ s'] show "sound a s s'" by simp
qed

lemma delete_page_tx_sound: "obeys (sound a) (delete_page_tx slug a)"
proof (rule obeysI)
  fix s r s'
  assume run: "delete_page_tx slug a s = Inr (r, s')"
  then obtain p where p: "p \<in> set (db_pages s)" "assert_agent_may_move_pointer (locked_page_of p) a = Inr ()"
    and s': "s' = add_audit (actor_entry a ''delete_page'' (p_id p) 0 (VObj [(''had_published'', id_or_nil (p_published p))]))
      (update_page (p_id p) (\<lambda>p. p\<lparr>p_published := 0, p_deleted := Some (db_now s), p_updated := db_now s\<rparr>) s)"
    unfolding delete_page_tx_Inr by (blast dest: lockedD)
  let ?f = "\<lambda>p. p\<lparr>p_published := 0, p_deleted := Some (db_now s), p_updated := db_now s\<rparr>"
  have "new_rows s s' = [audit_row_of (update_page (p_id p) ?f s)
      (actor_entry a ''delete_page'' (p_id p) 0 (VObj [(''had_published'', id_or_nil (p_published p))]))]"
    unfolding s' by (rule new_rows_audit) (simp add: update_page_def)
  then show "sound a s s'"
    using says_entry guarded_authority [OF p(2)]
    by (intro sound_touch [OF obeysD [OF delete_page_tx_keeps run] p(1), of ?f])
      (simp_all add: s' update_page_def approved_def)
qed

text \<open>A deploy on a locked page: it stages, then it moves the pointer if it may.\<close>

definition prepared_types :: "prepared \<Rightarrow> bool" where
  "prepared_types pr \<longleftrightarrow> pr_mode pr \<in> {''themed'', ''raw''} \<and> pr_source pr \<in> {''api'', ''mcp'', ''admin''}"

lemma prepare_deploy_types: "prepare_deploy env inp a = Inr pr \<Longrightarrow> prepared_types pr"
  by (auto simp add: prepare_deploy_def prepared_types_def resolve_mode_def resolve_source_def res_bind_Inr_iff Let_def
      split: prod.splits if_splits)

lemma inserted_types:
  assumes "find_or_insert env lp pr a only s = Inr ((vs, False), s1)" "prepared_types pr"
  shows "\<exists>w. db_versions s1 = db_versions s @ [w] \<and> column_types w \<and> v_status w \<noteq> Approved"
proof -
  from assms(1) obtain stamps where st: "casts env pr = Inr stamps" "version_constraints s (new_version lp pr stamps s)"
    and s1: "db_versions s1 = db_versions s @ [new_version lp pr stamps s]"
    by (auto simp add: find_or_insert_def tx_simps split: option.splits)
  have "column_types (new_version lp pr stamps s)"
    using st(2) assms(2)
    by (auto simp add: column_types_def version_constraints_def prepared_types_def new_version_def split: option.splits)
  with s1 show ?thesis by simp
qed

lemma find_or_insert_sound:
  assumes run: "find_or_insert env (locked_page_of p) pr a only s = Inr ((vs, deduped), s1)" and p: "p \<in> set (db_pages s)"
    and pr: "prepared_types pr"
  shows "sound b s s1"
proof -
  have lands: "\<exists>v. lands env p pr only s s1 v deduped \<and> wf_db s1 \<and> history s s1" if "wf_db s"
    using find_or_insert_lands [OF that p run] by blast
  then have k: "keeps s s1" by (blast intro: keepsI)
  show ?thesis
  proof (cases deduped)
    case True
    have "s1 = s" if "wf_db s" using lands [OF that] True by (auto dest: deduped_keeps)
    with k show ?thesis using sound.refl [of b s] by (auto simp add: sound_def)
  next
    case False
    with run have "find_or_insert env (locked_page_of p) pr a only s = Inr ((vs, False), s1)" by simp
    from inserted_types [OF this pr] obtain w where w: "db_versions s1 = db_versions s @ [w]" "column_types w"
      "v_status w \<noteq> Approved" by blast
    have pages: "db_pages s1 = db_pages s" if "wf_db s" using lands [OF that] by (auto simp add: lands_def)
    have ap: "approved s1 = approved s" using w(1,3) by (auto simp add: approved_def)
    have "audited b s s1" if "wf_db s"
      using keeps_prefix [OF k that] pages [OF that] by (simp add: audited_def pointer_def)
    moreover have "typed s \<longrightarrow> typed s1" using w by (simp add: typed_def)
    moreover have "gate_kept s s1" if "wf_db s" using pages [OF that] ap by (simp add: gate_kept_def)
    ultimately show ?thesis using k by (simp add: sound_def)
  qed
qed

lemma fast_publish_sound:
  assumes run: "fast_publish (locked_page_of p) pr a (version_columns v) s = Inr ((vs', pub), s')"
    and p: "p \<in> set (db_pages s)" "p_deleted p = None" and v: "v \<in> set (db_versions s)" "v_page v = p_id p"
  shows "sound a s s'"
proof (cases "pr_publish pr \<and> \<not> p_require_approval p")
  case False
  with run have "s' = s" by (simp add: fast_publish_skip)
  then show ?thesis by (simp add: sound.refl)
next
  case True
  from fast_publish_go [OF _ _ run] True
  have go: "v_status v \<noteq> Rejected" "assert_agent_may_move_pointer (locked_page_of p) a = Inr ()"
    and s': "s' = (let s1 = approve_row v s in
           if pub then add_audit (actor_entry a ''publish'' (p_id p) (v_id v) (pointer_meta (locked_page_of p) (v_id v) None))
                         (update_page (p_id p) (set_pointer (db_now s1) (v_id v)) s1)
           else s1)"
    by (simp_all add: approve_row_def Let_def)
  have s1: "approve_row v s = s \<and> v_status v = Approved \<or> approve_row v s = set_status (v_id v) Approved s \<and> v_status v \<noteq> Rejected"
    using go(1) by (simp add: approve_row_def)
  show ?thesis
  proof (cases pub)
    case True
    with s' have e: "s' = add_audit (actor_entry a ''publish'' (p_id p) (v_id v) (pointer_meta (locked_page_of p) (v_id v) None))
        (update_page (p_id p) (set_pointer (db_now s) (v_id v)) (approve_row v s))" by (simp add: Let_def)
    have "keeps s s'"
      unfolding e by (rule keeps_audit_trans) (rule keeps_move [OF p v, where r = "[]"], use s1 in blast)
    then show ?thesis by (rule sound_move [OF _ p(1) v guarded_authority [OF go(2)] _ e]) (use s1 in blast)
  next
    case False
    with s' have e: "s' = approve_row v s" by (simp add: Let_def)
    have k: "keeps s s'" unfolding e by (rule keepsI) (simp add: approve_row_ok(1,2) [OF _ v(1) go(1)])
    show ?thesis
    proof (rule sound_touch [OF k p(1), of "\<lambda>q. q"])
      show "(i, j) \<in> approved s \<or> j = p_id p" if "wf_db s" "(i, j) \<in> approved s'" for i j
        using that(2) approved_set_status(1) [OF that(1) v] by (auto simp add: e approve_row_def split: if_splits)
      show "content_of ` set (db_versions s') \<subseteq> content_of ` set (db_versions s)" by (simp add: e approve_row_def)
    qed (use guarded_authority [OF go(2)] in \<open>simp_all add: e update_where_same\<close>)
  qed
qed

lemma deploy_locked_sound:
  assumes run: "deploy_locked env (locked_page_of p) pr a only s = Inr (r, s')"
    and p: "p \<in> set (db_pages s)" "p_deleted p = None" and pr: "prepared_types pr"
  shows "sound a s s'"
proof -
  from run obtain vs deduped s1 vs' pub where
    f: "find_or_insert env (locked_page_of p) pr a only s = Inr ((vs, deduped), s1)"
    and g: "fast_publish (locked_page_of p) pr a vs s1 = Inr ((vs', pub), s')"
    by (auto simp add: deploy_locked_def tx_simps split: prod.splits)
  note s1 = find_or_insert_sound [OF f p(1) pr, of a]
  show ?thesis
  proof (cases "wf_db s")
    case True
    from find_or_insert_lands [OF True p(1) f] obtain v where l: "lands env p pr only s s1 v deduped" and vs: "vs = version_columns v"
      by blast
    have "sound a s1 s'"
      by (rule fast_publish_sound [OF g [unfolded vs] _ p(2)]) (use l p(1) in \<open>auto simp add: lands_def\<close>)
    with s1 show ?thesis by (rule sound.trans)
  next
    case False
    then show ?thesis by (simp add: sound_def keeps_def)
  qed
qed

text \<open>The operations that deploy on a page they locked.\<close>

lemma locked_deploy_sound:
  "locked s slug p \<Longrightarrow> deploy_locked env (locked_page_of p) pr a only s = Inr (r, s') \<Longrightarrow> prepared_types pr \<Longrightarrow> sound a s s'"
  by (auto intro: deploy_locked_sound dest: lockedD)

lemma deploy_tx_sound: "prepared_types pr \<Longrightarrow> obeys (sound a) (deploy_tx env pr a)"
  by (rule obeysI) (auto simp add: deploy_tx_def tx_simps intro: locked_deploy_sound)

lemma save_deck_tx_sound: "prepared_types pr \<Longrightarrow> obeys (sound a) (save_deck_tx env inp base pr a)"
  by (rule obeysI) (auto simp add: save_deck_tx_def tx_simps Let_def intro: locked_deploy_sound)

lemma update_data_tx_sound: "obeys (sound a) (update_data_tx env de clock inp snap a)"
proof (rule obeysI)
  fix s r s'
  assume "update_data_tx env de clock inp snap a s = Inr (r, s')"
  then obtain p v m where p: "locked s (du_slug inp) p"
    and run: "pour_data env de clock inp (p_slug p) (locked_page_of p) v m a s = Inr (r, s')"
    unfolding update_data_tx_Inr by blast
  from run show "sound a s s'"
    by (rule pour_data_Inr) (blast intro: locked_deploy_sound [OF p] prepare_deploy_types)
qed

lemma update_config_tx_sound: "obeys (sound a) (update_config_tx env de clock inp slug a)"
proof (rule obeysI)
  fix s r s'
  assume "update_config_tx env de clock inp slug a s = Inr (r, s')"
  then obtain p pr di where "locked s slug p" "prepare_deploy env di a = Inr pr"
    "deploy_locked env (locked_page_of p) pr a 0 s = Inr (cr_deploy r, s')"
    by (auto simp add: update_config_tx_def tx_simps)
  then show "sound a s s'" by (blast intro: locked_deploy_sound prepare_deploy_types)
qed

text \<open>Creating a page.\<close>

lemma sound_add_page:
  assumes "keeps s s'" "db_pages s' = db_pages s @ [q]" "p_published q = 0" "db_versions s' = db_versions s"
    and "wf_db s \<Longrightarrow> p_id q = db_next_page s"
  shows "sound a s s'"
  unfolding sound_def
proof (intro conjI impI assms(1))
  assume wf: "wf_db s"
  have "p_id q \<notin> p_id ` set (db_pages s)" using wf assms(5) [OF wf] by (fastforce simp add: wf_db_def ids_ok_def)
  then have "pointer s' = pointer s"
    using assms(2,3) pointer_none [of "p_id q" s]
    by (auto simp add: pointer_def fun_eq_iff map_add_def split: option.splits)
  then show "audited a s s'" using keeps_prefix [OF assms(1) wf] by (simp add: audited_def)
  show "gate_kept s s'" using assms(2,4) by (simp add: gate_kept_def approved_def)
  show "typed s \<Longrightarrow> typed s'" using assms(4) by (simp add: typed_def)
qed

lemma insert_page_sound:
  assumes "insert_page slug title client ws ap s = Inr (row, s')" "matches slug_re slug"
  shows "sound a s s'"
proof -
  have k: "keeps s s'" using insert_page_ok [OF assms(1) _ assms(2)] by (blast intro: keepsI)
  show ?thesis
  proof (cases row)
    case None
    with assms(1) have "s' = s" by (auto simp add: insert_page_Inr split: if_splits)
    then show ?thesis by (simp add: sound.refl)
  next
    case (Some q)
    with assms(1) obtain t where "q = new_page slug t client ws ap s" "s' = add_page q s"
      by (auto simp add: insert_page_Inr split: if_splits)
    then show ?thesis by (intro sound_add_page [OF k, of q]) (simp_all add: add_page_def)
  qed
qed

lemma sound_audit: "sound a s (add_audit e s)"
  by (rule quiet_sound) (simp_all add: quiet_def keeps_audit)

lemma create_page_tx_sound:
  assumes "matches slug_re slug"
  shows "obeys (sound a) (create_page_tx (\<lambda>s. s) inp slug ws ap b)"
proof (rule obeysI)
  fix s r s'
  assume "create_page_tx (\<lambda>s. s) inp slug ws ap b s = Inr (r, s')"
  then obtain p s1 e where "insert_page slug (title_text (ci_title inp)) (pg_text (ci_client inp)) ws ap s = Inr (Some p, s1)"
    "s' = add_audit e s1"
    by (auto simp add: create_page_tx_def tx_simps dest!: workspace_name_Inr split: option.splits)
  with insert_page_sound [OF _ assms] show "sound a s s'" by (blast intro: sound.trans sound_audit)
qed

lemma create_missing_sound:
  assumes run: "create_missing (\<lambda>s. s) inp pr ws ap a s = Inr ((lp, created), s')" and m: "matches slug_re (pr_slug pr)"
  shows "sound b s s'"
proof -
  from run obtain row s1 where
    ins: "insert_page (pr_slug pr) (title_text (cd_title inp)) (pg_text (cd_client inp)) ws ap s = Inr (row, s1)"
    and rest: "s' = s1 \<or> (\<exists>e. s' = add_audit e s1)"
    by (auto simp add: create_missing_def tx_simps dest!: workspace_name_Inr split: option.splits) blast
  from rest have "sound b s1 s'" using sound.refl sound_audit by auto
  with insert_page_sound [OF ins m] show ?thesis by (rule sound.trans)
qed

lemma create_and_deploy_sound: "obeys (sound a) (create_and_deploy_with_tx env (\<lambda>s. s) inp a None)"
proof (rule obeysI)
  fix s r s'
  assume "create_and_deploy_with_tx env (\<lambda>s. s) inp a None s = Inr (r, s')"
  then obtain pr ap ws where pr: "prepare_deploy env (cd_deploy inp) a = Inr pr"
    and run: "create_and_deploy_prepared env (\<lambda>s. s) inp pr ws ap a None s = Inr (r, s')"
    by (auto simp add: create_and_deploy_with_tx_def tx_simps)
  have m: "matches slug_re (pr_slug pr)" using prepare_deploy_Inr(1) [OF pr] by (rule normalize_slug_matches)
  note ty = prepare_deploy_types [OF pr]
  show "sound a s s'"
  proof (cases "find_live (pr_slug pr) s")
    case (Some p)
    with run obtain r0 where "deploy_locked env (locked_page_of p) pr a 0 s = Inr (r0, s')"
      by (auto simp add: create_and_deploy_prepared_def tx_simps deploy_locked_scan)
    then show ?thesis by (rule deploy_locked_sound [OF _ _ _ ty]) (use find_live_Some [OF Some] in auto)
  next
    case None
    with run obtain lp created s1 r0 where c: "create_missing (\<lambda>s. s) inp pr ws ap a s = Inr ((lp, created), s1)"
      and d: "deploy_locked env lp pr a 0 s1 = Inr (r0, s')"
      by (auto simp add: create_and_deploy_prepared_def tx_simps)
    note s1 = create_missing_sound [OF c m, of a]
    show ?thesis
    proof (cases "wf_db s")
      case True
      from create_missing_ok [OF c True m safe_id] obtain p where p: "p \<in> set (db_pages s1)" "p_deleted p = None" "lp = scan_page p"
        by blast
      from deploy_locked_sound [OF d [unfolded p(3) deploy_locked_scan] p(1,2) ty] s1 show ?thesis by (blast intro: sound.trans)
    next
      case False
      then show ?thesis by (simp add: sound_def keeps_def)
    qed
  qed
qed

text \<open>The settings and reports that anyone may write.\<close>

lemma quiet_update_page: "(\<And>p. control (f p) = control p) \<Longrightarrow> quiet s (update_page pid f s)"
  by (simp add: quiet_def update_page_def map_update_where_id approved_def)

lemma quiet_audit: "quiet s (add_audit e s)"
  by (simp add: quiet_def)

lemma audit_write_quiet: "obeys quiet (audit_write e)"
  by (rule obeysI) (simp add: tx_simps quiet_audit)

lemma lock_page_quiet: "obeys quiet (lock_page slug)"
  by (rule obeysI) (auto simp add: tx_simps quiet.refl)

lemma change_page_quiet:
  assumes "\<And>p. control (f p) = control p"
  shows "obeys quiet (change_page pid f a action meta)"
  unfolding change_page_def
  by (intro quiet.andthen quiet.exec audit_write_quiet quiet_update_page) (use assms in \<open>simp add: control_def\<close>)

lemmas quiet_rules = quiet.rules audit_write_quiet lock_page_quiet change_page_quiet

lemma set_theme_tx_sound: "obeys (sound a) (set_theme_tx slug theme b)"
  by (rule obeys_quiet [OF set_theme_tx_keeps])
    (unfold set_theme_tx_def resolve_theme_def Let_def, intro quiet_rules, simp add: control_def)

lemma set_password_tx_sound: "obeys (sound a) (set_password_tx slug hash sealed b)"
  by (rule obeys_quiet [OF set_password_tx_keeps]) (unfold set_password_tx_def, intro quiet_rules, simp add: control_def)

lemma set_title_tx_sound: "obeys (sound a) (set_title_tx slug clean b)"
  by (rule obeys_quiet [OF set_title_tx_keeps]) (unfold set_title_tx_def, intro quiet_rules, simp add: control_def)

lemma reveal_password_tx_sound: "obeys (sound a) (reveal_password_tx env slug b)"
  by (rule obeys_quiet [OF reveal_password_tx_keeps]) (unfold reveal_password_tx_def Let_def, intro quiet_rules)

lemma record_check_tx_sound: "obeys (sound a) (record_check_tx env slug oc detail seen now b)"
  by (rule obeys_quiet [OF record_check_tx_keeps])
    (unfold record_check_tx_def split_beta, intro quiet_rules quiet_update_page, simp add: control_def set_check_def)

lemma create_workspace_tx_sound: "obeys (sound a) (create_workspace_tx lower name b)"
  by (rule obeys_quiet [OF create_workspace_tx_keeps])
    (unfold create_workspace_tx_def insert_workspace_def, intro quiet_rules, simp add: quiet_def add_workspace_def approved_def)

lemma rename_workspace_tx_sound: "obeys (sound a) (rename_workspace_tx lower wid name b)"
  by (rule obeys_quiet [OF rename_workspace_tx_keeps])
    (unfold rename_workspace_tx_def, intro quiet_rules, simp add: quiet_def update_workspace_def approved_def)

lemma assign_page_tx_sound: "obeys (sound a) (assign_page_tx slug wid b)"
proof (rule obeys_quiet [OF assign_page_tx_keeps obeysI])
  fix s r s'
  assume "assign_page_tx slug wid b s = Inr (r, s')"
  then obtain p :: page and e where "s' = s \<or> s' = add_audit e (update_page (p_id p) (set_workspace (db_now s) wid) s)"
    by (metis assign_page_tx_Inr)
  moreover have "quiet s (update_page (p_id p) (set_workspace (db_now s) wid) s)"
    by (rule quiet_update_page) (simp add: control_def set_workspace_def)
  ultimately show "quiet s s'" using quiet.refl quiet.trans quiet_audit by metis
qed

lemma remove_workspace_tx_sound: "obeys (sound a) (remove_workspace_tx wid b)"
proof (rule obeys_quiet [OF remove_workspace_tx_keeps obeysI])
  fix s r s'
  assume "remove_workspace_tx wid b s = Inr (r, s')"
  then obtain rows e n where s': "s' = (delete_workspace_row wid (detach wid s))\<lparr>db_audit := db_audit s @ rows @ [e], db_next_audit := n\<rparr>"
    using remove_workspace_tx_Inr by blast
  have "map control (db_pages (detach wid s)) = map control (db_pages s)"
    by (simp add: detach_def map_update_where_id control_def)
  then show "quiet s s'" by (simp add: s' quiet_def delete_workspace_row_def approved_def) (simp add: detach_def)
qed

lemma save_gaps_quiet: "quiet s (save_gaps he found s)"
proof -
  define f :: "version \<Rightarrow> version" where "f = (\<lambda>v. case map_of found (v_id v) of
      Some g \<Rightarrow> if he_json he g \<noteq> [] \<and> stored_gaps he (v_gaps v) = None \<and> he_saved he (v_id v)
        then v\<lparr>v_gaps := Some (he_json he g)\<rparr> else v
    | None \<Rightarrow> v)"
  have f: "v_id (f v) = v_id v" "v_page (f v) = v_page v" "v_status (f v) = v_status v" "content_of (f v) = content_of v" for v
    unfolding f_def by (rule save_gaps_row)+
  have s': "save_gaps he found s = s\<lparr>db_versions := map f (db_versions s)\<rparr>" by (simp add: save_gaps_def f_def)
  have "{v \<in> f ` set (db_versions s). v_status v = Approved} = f ` {v \<in> set (db_versions s). v_status v = Approved}"
    using f(3) by auto
  then show ?thesis using f by (simp add: s' quiet_def approved_def image_image)
qed

lemma compute_gaps_quiet: "obeys quiet (compute_gaps he ids)"
  unfolding compute_gaps_def
  by (intro quiet_rules save_gaps_quiet)

lemma refresh_health_for_quiet: "obeys quiet (refresh_health_for env he slug now)"
proof -
  have "obeys quiet (resolve_gaps he rows)" for rows
    using compute_gaps_quiet by (auto simp add: resolve_gaps_def split: prod.split intro!: quiet.bind quiet.ret)
  then show ?thesis
    unfolding refresh_health_for_def Let_def split_beta by (intro quiet_rules)
qed

lemma set_schedule_tx_sound: "obeys (sound a) (set_schedule_tx env he clock slug schedule owner b)"
proof (rule obeys_quiet [OF set_schedule_tx_keeps])
  have "obeys quiet (write_schedule pid schedule owner b)" for pid
    unfolding write_schedule_def Let_def
    by (intro quiet_rules quiet_update_page) (simp add: control_def set_refresh_def)
  then show "obeys quiet (set_schedule_tx env he clock slug schedule owner b)"
    unfolding set_schedule_tx_def by (intro quiet_rules refresh_health_for_quiet)
qed

subsection \<open>Every call is sound\<close>

lemma from_prepared_sound:
  "(\<And>x. c = Inr x \<Longrightarrow> sound a s (snd (k x s))) \<Longrightarrow> sound a s (snd (from_prepared c k s))"
  by (cases c) (simp_all add: from_prepared_def sound.refl)

lemma outcome_snd: "snd (outcome r) = snd r"
  by (cases r; cases "fst r") (auto simp add: outcome_def split: sum.split)

lemma admin_guard:
  "assert_admin_action a m = Inr u \<Longrightarrow> ac_type a = audit_user"
  by (simp add: assert_admin_action_def split: if_splits)

lemma perform_sound: "sound a s (snd (perform sv rq clock a op s))"
proof (cases op)
  case (Op_Create inp)
  show ?thesis unfolding Op_Create perform.simps outcome_snd create_page_def
    by (intro from_prepared_sound)
      (auto simp add: check_create_def res_bind_Inr_iff intro!: sound.tx create_page_tx_sound normalize_slug_matches)
next
  case (Op_Deploy inp)
  show ?thesis unfolding Op_Deploy perform.simps outcome_snd deploy_def
    by (intro from_prepared_sound sound.tx deploy_tx_sound prepare_deploy_types)
next
  case (Op_Create_Deploy inp)
  show ?thesis unfolding Op_Create_Deploy perform.simps outcome_snd create_and_deploy_def
    by (intro sound.tx create_and_deploy_sound)
next
  case (Op_Save_Deck inp)
  show ?thesis unfolding Op_Save_Deck perform.simps outcome_snd save_deck_def
    by (intro from_prepared_sound)
      (auto simp add: res_bind_Inr_iff intro!: sound.tx save_deck_tx_sound dest: prepare_deploy_types)
next
  case (Op_Update_Data inp)
  show ?thesis unfolding Op_Update_Data perform.simps outcome_snd update_page_data_def
    by (intro from_prepared_sound sound.tx update_data_tx_sound)
next
  case (Op_Update_Config inp)
  show ?thesis unfolding Op_Update_Config perform.simps outcome_snd update_page_config_def
    by (intro from_prepared_sound sound.tx update_config_tx_sound)
next
  case (Op_Publish slug vid expected)
  show ?thesis unfolding Op_Publish perform.simps outcome_snd publish_def
    by (intro from_prepared_sound sound.tx publish_tx_sound)
next
  case (Op_Rollback slug vid expected nt)
  show ?thesis unfolding Op_Rollback perform.simps outcome_snd rollback_def
    by (intro from_prepared_sound sound.tx rollback_tx_sound)
next
  case (Op_Approve slug vid expected)
  show ?thesis unfolding Op_Approve perform.simps outcome_snd approve_def
    by (intro from_prepared_sound sound.tx approve_tx_sound) (auto simp add: res_bind_Inr_iff dest: admin_guard)
next
  case (Op_Reject slug vid nt)
  show ?thesis unfolding Op_Reject perform.simps outcome_snd reject_def
    by (intro from_prepared_sound sound.tx reject_tx_sound) (auto simp add: res_bind_Inr_iff dest: admin_guard)
next
  case (Op_Set_Disabled slug v)
  show ?thesis unfolding Op_Set_Disabled perform.simps outcome_snd set_disabled_def admin_bool_def
    by (intro from_prepared_sound sound.tx set_disabled_tx_sound) (auto simp add: res_bind_Inr_iff dest: admin_guard)
next
  case (Op_Set_Approval slug v)
  show ?thesis unfolding Op_Set_Approval perform.simps outcome_snd set_approval_def admin_bool_def
    by (intro from_prepared_sound sound.tx set_approval_tx_sound) (auto simp add: res_bind_Inr_iff dest: admin_guard)
next
  case (Op_Set_Theme slug th)
  show ?thesis unfolding Op_Set_Theme perform.simps outcome_snd set_theme_def
    by (intro from_prepared_sound sound.tx set_theme_tx_sound)
next
  case (Op_Set_Password slug pw)
  show ?thesis unfolding Op_Set_Password perform.simps outcome_snd set_password_def split_beta
    by (intro from_prepared_sound sound.tx set_password_tx_sound)
next
  case (Op_Reveal_Password slug)
  show ?thesis unfolding Op_Reveal_Password perform.simps outcome_snd reveal_password_def
    by (intro from_prepared_sound sound.tx reveal_password_tx_sound)
next
  case (Op_Set_Title slug title)
  show ?thesis unfolding Op_Set_Title perform.simps outcome_snd set_title_def
    by (intro from_prepared_sound sound.tx set_title_tx_sound)
next
  case (Op_Delete slug)
  show ?thesis unfolding Op_Delete perform.simps outcome_snd delete_page_def
    by (intro sound.tx delete_page_tx_sound)
next
  case (Op_Restore slug)
  show ?thesis unfolding Op_Restore perform.simps outcome_snd restore_page_def
    by (intro from_prepared_sound sound.tx restore_page_tx_sound) (auto simp add: res_bind_Inr_iff dest: admin_guard)
next
  case (Op_Refresh_Check inp)
  show ?thesis unfolding Op_Refresh_Check perform.simps outcome_snd record_refresh_check_def split_beta
    by (intro from_prepared_sound sound.tx record_check_tx_sound)
next
  case (Op_Set_Schedule slug sc ow)
  show ?thesis unfolding Op_Set_Schedule perform.simps outcome_snd set_refresh_schedule_def split_beta
    by (intro from_prepared_sound sound.tx set_schedule_tx_sound)
next
  case (Op_Create_Workspace name)
  show ?thesis unfolding Op_Create_Workspace perform.simps outcome_snd create_workspace_def
    by (intro from_prepared_sound sound.tx create_workspace_tx_sound)
next
  case (Op_Rename_Workspace wid name)
  show ?thesis unfolding Op_Rename_Workspace perform.simps outcome_snd rename_workspace_def split_beta
    by (intro from_prepared_sound sound.tx rename_workspace_tx_sound)
next
  case (Op_Remove_Workspace wid)
  show ?thesis unfolding Op_Remove_Workspace perform.simps outcome_snd remove_workspace_def
    by (intro from_prepared_sound sound.tx remove_workspace_tx_sound)
next
  case (Op_Assign_Page slug wid)
  show ?thesis unfolding Op_Assign_Page perform.simps outcome_snd assign_page_def split_beta
    by (intro from_prepared_sound sound.tx assign_page_tx_sound)
qed

end
