(* ===== verification/Version_Runs.thy ===== *)
theory Version_Runs
  imports Version_Machine
begin

text \<open>
  Runs of the version state machine: what holds of every database that calls by humans and agents
  can reach, from the empty database or from any well-formed one.
\<close>

subsection \<open>Runs\<close>

text \<open>A run: each call by some actor, at some time, in some state of the admission file.\<close>

inductive runs :: "'p services \<Rightarrow> db \<Rightarrow> (actor \<times> operation) list \<Rightarrow> db \<Rightarrow> bool" for sv where
  stop: "runs sv s [] s"
| call: "perform sv rq clock a op s = (res, s1) \<Longrightarrow> runs sv s1 calls s2 \<Longrightarrow> runs sv s ((a, op) # calls) s2"

inductive_cases runs_stopE: "runs sv s [] s'"
inductive_cases runs_callE: "runs sv s ((a, op) # calls) s'"

definition fresh_db :: "theme list \<Rightarrow> int list \<Rightarrow> db" where
  \<comment> \<open>the database the migrations leave: themes and templates, no page\<close>
  "fresh_db themes templates =
     \<lparr>db_pages = [], db_versions = [], db_workspaces = [], db_themes = themes, db_templates = templates, db_audit = [],
      db_portals = [], db_members = [], db_page_failures = [], db_portal_failures = [],
      db_next_page = 1, db_next_version = 1, db_next_workspace = 1, db_next_audit = 1, db_next_portal = 1, db_now = 0\<rparr>"

lemma runs_keeps: "runs sv s calls s' \<Longrightarrow> keeps s s'"
proof (induction rule: runs.induct)
  case (call rq clock a op s res s1 calls s2)
  have "keeps s s1" using perform_sound [of a s sv rq clock op] call.hyps(1) by (simp add: sound_def)
  then show ?case using call.IH by (rule keep.trans)
qed (rule keep.refl)

lemma call_sound: "perform sv rq clock a op s = (res, s1) \<Longrightarrow> sound a s s1"
  using perform_sound [of a s sv rq clock op] by simp

lemma call_wf: "perform sv rq clock a op s = (res, s1) \<Longrightarrow> wf_db s \<Longrightarrow> wf_db s1"
  by (drule call_sound) (simp add: sound_def keeps_def)

lemma runs_wf: "runs sv s calls s' \<Longrightarrow> wf_db s \<Longrightarrow> wf_db s'"
  by (drule runs_keeps) (simp add: keeps_def)

lemma runs_typed: "runs sv s calls s' \<Longrightarrow> wf_db s \<Longrightarrow> typed s \<Longrightarrow> typed s'"
proof (induction rule: runs.induct)
  case (call rq clock a op s res s1 calls s2)
  with call_sound [OF call.hyps(1)] call_wf [OF call.hyps(1)] show ?case by (simp add: sound_def)
qed

lemma runs_gate:
  "runs sv s calls s' \<Longrightarrow> wf_db s \<Longrightarrow> (\<And>a op. (a, op) \<in> set calls \<Longrightarrow> ac_type a \<noteq> audit_user) \<Longrightarrow> gate_kept s s'"
proof (induction rule: runs.induct)
  case (stop s)
  then show ?case by (simp add: gate_kept_def)
next
  case (call rq clock a op s res s1 calls s2)
  have "ac_type a \<noteq> audit_user" by (rule call.prems(2) [of a op]) simp
  then have "gate_kept s s1" using call_sound [OF call.hyps(1)] call.prems(1) by (simp add: sound_def)
  moreover have "gate_kept s1 s2"
  proof (rule call.IH [OF call_wf [OF call.hyps(1) call.prems(1)]])
    show "ac_type b \<noteq> audit_user" if "(b, c) \<in> set calls" for b c
      using that by (intro call.prems(2) [of b c]) simp
  qed
  ultimately show ?case by (rule gate_kept_trans)
qed

lemma new_rows_append:
  assumes "prefix (db_audit s1) (db_audit s2)" "prefix (db_audit s2) (db_audit s3)"
  shows "new_rows s1 s3 = new_rows s1 s2 @ new_rows s2 s3"
  using assms by (auto simp add: new_rows_def prefix_def)

lemma runs_audited:
  "runs sv s calls s' \<Longrightarrow> wf_db s \<Longrightarrow> pointer s' pid \<noteq> pointer s pid \<Longrightarrow>
     \<exists>row \<in> set (new_rows s s'). \<exists>(a, op) \<in> set calls. says a row pid (pointer s' pid)"
proof (induction rule: runs.induct)
  case (call rq clock a op s res s1 calls s2)
  have wf1: "wf_db s1" by (rule call_wf [OF call.hyps(1) call.prems(1)])
  have au: "audited a s s1" using call_sound [OF call.hyps(1)] call.prems(1) by (simp add: sound_def)
  then have rows: "new_rows s s2 = new_rows s s1 @ new_rows s1 s2"
    using keeps_prefix [OF runs_keeps [OF call.hyps(2)] wf1] by (intro new_rows_append) (simp_all add: audited_def)
  show ?case
  proof (cases "pointer s2 pid = pointer s1 pid")
    case True
    with au call.prems(2) show ?thesis unfolding rows by (fastforce simp add: audited_def)
  next
    case False
    from call.IH [OF wf1 False] show ?thesis unfolding rows by fastforce
  qed
qed simp

lemma fresh_db_ok: "wf_db (fresh_db themes templates)" "typed (fresh_db themes templates)"
  by (simp_all add: fresh_db_def wf_parts live_unique_def typed_def)

text \<open>Calls always answer, so every sequence of calls has a run.\<close>

lemma runs_exist: "\<exists>s'. runs sv s calls s'"
proof (induction calls arbitrary: s)
  case (Cons c calls)
  obtain a op where c: "c = (a, op)" by (cases c)
  obtain res s1 where "perform sv undefined 0 a op s = (res, s1)" by (cases "perform sv undefined 0 a op s")
  with Cons [of s1] show ?case unfolding c by (blast intro: runs.call)
qed (blast intro: runs.stop)

text \<open>A refused call has no effect.\<close>

lemma outcome_Inl: "outcome r = (Inl e, s') \<longleftrightarrow> r = (Inl e, s')"
  by (cases r; cases "fst r") (auto simp add: outcome_def)

lemma from_prepared_fails:
  assumes "from_prepared c k s = (Inl e, s')" "\<And>x. k x s = (Inl e, s') \<Longrightarrow> s' = s"
  shows "s' = s"
  using assms by (cases c) (auto simp add: from_prepared_def)

lemma with_tx_clean: "with_tx rq m s = (Inl e, s') \<Longrightarrow> s' = s"
  by (simp add: with_tx_Inl)

lemma perform_clean: "perform sv rq clock a op s = (Inl e, s') \<Longrightarrow> s' = s"
  by (cases op)
    (auto simp add: outcome_Inl create_page_def deploy_def create_and_deploy_def save_deck_def update_page_data_def
      update_page_config_def publish_def rollback_def approve_def reject_def set_disabled_def set_approval_def
      set_theme_def set_password_def reveal_password_def set_title_def delete_page_def restore_page_def
      record_refresh_check_def set_refresh_schedule_def create_workspace_def rename_workspace_def
      remove_workspace_def assign_page_def split_beta dest: with_tx_clean from_prepared_fails)

subsection \<open>Example runs\<close>

definition ex_services :: "unit services" where
  "ex_services = \<lparr>sv_deploy = ex_env, sv_data = ex_data_env, sv_secret = ex_secret, sv_health = ex_health, sv_lower = (\<lambda>x. x)\<rparr>"

definition ex_first :: "goval \<Rightarrow> operation" where
  \<comment> \<open>create a page, gated or not, and deploy to it\<close>
  "ex_first gated = Op_Create_Deploy ((ex_create VNil)\<lparr>cd_approval := gated\<rparr>)"

lemma ex_first_run:
  "\<exists>s p v. runs ex_services (fresh_db [] []) [(ex_user, ex_first (VBool gated))] s \<and> db_pages s = [p] \<and> db_versions s = [v] \<and>
     p_id p = 1 \<and> p_deleted p = None \<and> v_id v = 1 \<and> v_page v = 1 \<and> p_slug p = ''acme'' \<and>
     p_published p = (if gated then 0 else 1) \<and> v_status v = (if gated then Pending else Approved)"
proof -
  have nr: "assert_slug_not_reserved ''acme'' = Inr ()"
    by (simp add: not_reserved_iff reserved_slug_segments_def)
  have "\<exists>r s p v. create_and_deploy ex_env ex_request ((ex_create VNil)\<lparr>cd_approval := VBool gated\<rparr>) ex_user (fresh_db [] []) = (Inr r, s) \<and>
     db_pages s = [p] \<and> db_versions s = [v] \<and>
     p_id p = 1 \<and> p_deleted p = None \<and> v_id v = 1 \<and> v_page v = 1 \<and> p_slug p = ''acme'' \<and>
     p_published p = (if gated then 0 else 1) \<and> v_status v = (if gated then Pending else Approved)"
    using nr by (cases gated) (simp_all add: create_simps ex_create_def prepare_simps ex_defs run_simps fresh_db_def Let_def
      add_version_def set_status_def update_version_def update_page_def set_pointer_def, blast+)
  then obtain r s p v where "perform ex_services ex_request 0 ex_user (ex_first (VBool gated)) (fresh_db [] []) = (Inr (), s)"
    "db_pages s = [p]" "db_versions s = [v]" "p_id p = 1" "p_deleted p = None" "v_id v = 1" "v_page v = 1" "p_slug p = ''acme''"
    "p_published p = (if gated then 0 else 1)" "v_status v = (if gated then Pending else Approved)"
    by (auto simp add: ex_first_def ex_services_def outcome_def)
  then show ?thesis by (blast intro: runs.call runs.stop)
qed

subsection \<open>Properties\<close>

text \<open>
  C1: the invariant of the tables holds in every state any sequence of calls reaches from the
  migrated database, whoever makes them and whether they succeed. No two live pages share a slug; a
  page that points at a version is live and points at an approved version of its own; every
  version belongs to a page; ids identify rows.
\<close>

theorem reachable_tables_ok:
  assumes "runs sv (fresh_db themes templates) calls s"
  shows "(\<forall>p q. p \<in> set (db_pages s) \<and> q \<in> set (db_pages s) \<and> p_deleted p = None \<and> p_deleted q = None \<and> p_slug p = p_slug q \<longrightarrow> p = q) \<and>
    (\<forall>p. p \<in> set (db_pages s) \<and> p_published p \<noteq> 0 \<longrightarrow> p_deleted p = None \<and>
       (\<exists>v \<in> set (db_versions s). v_id v = p_published p \<and> v_page v = p_id p \<and> v_status v = Approved)) \<and>
    v_page ` set (db_versions s) \<subseteq> p_id ` set (db_pages s) \<and>
    distinct (map p_id (db_pages s)) \<and> distinct (map v_id (db_versions s))"
proof -
  have wf: "wf_db s" by (rule runs_wf [OF assms fresh_db_ok(1)])
  have "v_page ` set (db_versions s) \<subseteq> p_id ` set (db_pages s)"
    "distinct (map p_id (db_pages s))" "distinct (map v_id (db_versions s))"
    using wf by (simp_all add: wf_db_def refs_ok_def ids_ok_def)
  moreover have "\<forall>p q. p \<in> set (db_pages s) \<and> q \<in> set (db_pages s) \<and> p_deleted p = None \<and> p_deleted q = None \<and>
      p_slug p = p_slug q \<longrightarrow> p = q"
    using wf wf_page_unique [OF wf] unfolding wf_db_def slugs_ok_def live_unique_def by blast
  moreover have "\<forall>p. p \<in> set (db_pages s) \<and> p_published p \<noteq> 0 \<longrightarrow> p_deleted p = None \<and>
      (\<exists>v \<in> set (db_versions s). v_id v = p_published p \<and> v_page v = p_id p \<and> v_status v = Approved)"
    using wf unfolding wf_db_def pointers_ok_def points_to_def by blast
  ultimately show ?thesis by (intro conjI)
qed

theorem reachable_tables_ok_witness:
  "\<exists>s p. runs ex_services (fresh_db [] []) [(ex_user, ex_first (VBool False))] s \<and> p \<in> set (db_pages s) \<and>
     p_published p \<noteq> 0 \<and> (\<exists>v \<in> set (db_versions s). v_id v = p_published p \<and> v_page v = p_id p \<and> v_status v = Approved)"
proof -
  obtain s p where run: "runs ex_services (fresh_db [] []) [(ex_user, ex_first (VBool False))] s"
    and p: "p \<in> set (db_pages s)" "p_published p \<noteq> 0"
    using ex_first_run [of False] by force
  from reachable_tables_ok [OF run] p run show ?thesis by blast
qed

text \<open>
  C39: the columns of every stored version stay in their domains: the render mode, the source, a lower-case
  hash of 64 digits wherever one is stored, the four columns of managed data together or not at all,
  and a template binding exactly with its config hash.
\<close>

theorem reachable_versions_typed:
  assumes "runs sv (fresh_db themes templates) calls s" "v \<in> set (db_versions s)"
  shows "v_mode v \<in> {''themed'', ''raw''} \<and> v_source v \<in> {''api'', ''mcp'', ''admin''} \<and>
    (v_data_sha v = None \<longleftrightarrow> v_source_as_of v = None) \<and> (v_data_sha v = None \<longleftrightarrow> v_template_sha v = None) \<and>
    (v_data_sha v = None \<longleftrightarrow> v_refreshed_at v = None) \<and> (v_config_sha v = None \<longleftrightarrow> v_binding v = 0) \<and>
    pred_option hex64 (v_data_sha v) \<and> pred_option hex64 (v_template_sha v) \<and> pred_option hex64 (v_config_sha v)"
proof -
  have "column_types v" using runs_typed [OF assms(1) fresh_db_ok] assms(2) by (simp add: typed_def)
  then show ?thesis by (auto simp add: column_types_def split: option.splits)
qed

theorem reachable_versions_typed_witness:
  "\<exists>s v. runs ex_services (fresh_db [] []) [(ex_user, ex_first (VBool True))] s \<and> v \<in> set (db_versions s) \<and>
     v_mode v \<in> {''themed'', ''raw''}"
proof -
  obtain s v where run: "runs ex_services (fresh_db [] []) [(ex_user, ex_first (VBool True))] s" and v: "v \<in> set (db_versions s)"
    using ex_first_run [of True] by force
  from reachable_versions_typed [OF run v] run v show ?thesis by blast
qed

text \<open>
  C4: nothing is lost. Along any run from a well-formed database no version row disappears or changes
  its content, its review state only moves forward (an approval or a rejection is final), no
  audit row disappears or changes, and every page keeps its id, slug and creation time.
\<close>

theorem runs_keep_history:
  assumes "wf_db s" "runs sv s calls s'"
  shows "(\<forall>v \<in> set (db_versions s). \<exists>v' \<in> set (db_versions s'). v_id v' = v_id v \<and> v_page v' = v_page v \<and>
      v_html v' = v_html v \<and> v_sha v' = v_sha v \<and> v_created v' = v_created v \<and>
      (v_status v \<in> {Approved, Rejected} \<longrightarrow> v_status v' = v_status v)) \<and>
    (\<exists>rows. db_audit s' = db_audit s @ rows) \<and>
    (\<forall>p \<in> set (db_pages s). \<exists>p' \<in> set (db_pages s'). p_id p' = p_id p \<and> p_slug p' = p_slug p \<and> p_created p' = p_created p)"
proof -
  from runs_keeps [OF assms(2)] assms(1) have h: "history s s'" by (simp add: keeps_def)
  have "\<exists>v' \<in> set (db_versions s'). v_id v' = v_id v \<and> v_page v' = v_page v \<and> v_html v' = v_html v \<and> v_sha v' = v_sha v \<and>
      v_created v' = v_created v \<and> (v_status v \<in> {Approved, Rejected} \<longrightarrow> v_status v' = v_status v)"
    if v: "v \<in> set (db_versions s)" for v
  proof -
    from h v obtain v' where v': "v' \<in> set (db_versions s')" "content_of v' = content_of v" "v_status v \<le> v_status v'"
      unfolding history_def by blast
    from arg_cong [OF v'(2), of v_id] arg_cong [OF v'(2), of v_page] arg_cong [OF v'(2), of v_html] arg_cong [OF v'(2), of v_sha]
      arg_cong [OF v'(2), of v_created]
    have "v_id v' = v_id v" "v_page v' = v_page v" "v_html v' = v_html v" "v_sha v' = v_sha v" "v_created v' = v_created v"
      by (simp_all add: content_of_def)
    with v'(1,3) show ?thesis by (intro bexI [of _ v']) (auto simp add: less_eq_version_status_def)
  qed
  moreover have "\<exists>p' \<in> set (db_pages s'). p_id p' = p_id p \<and> p_slug p' = p_slug p \<and> p_created p' = p_created p"
    if "p \<in> set (db_pages s)" for p
  proof -
    from h that obtain p' where "p' \<in> set (db_pages s')" "page_key p' = page_key p" unfolding history_def by (metis image_iff subsetD)
    then show ?thesis by (auto simp add: page_key_def)
  qed
  moreover have "\<exists>rows. db_audit s' = db_audit s @ rows" using h by (simp add: history_def prefix_def)
  ultimately show ?thesis by blast
qed

theorem runs_keep_history_witness:
  "\<exists>s'. runs ex_services (ex_db ex_page [ex_version]) [(ex_agent, Op_Delete ''acme''), (ex_user, Op_Restore ''acme'')] s' \<and>
     (\<exists>v \<in> set (db_versions s'). v_id v = 5 \<and> v_html v = ''old'' \<and> v_status v = Approved)"
proof -
  have wf: "wf_db (ex_db ex_page [ex_version])" by (rule wf_ex_db) (simp_all add: ex_page_def ex_version_def)
  obtain s' where run: "runs ex_services (ex_db ex_page [ex_version]) [(ex_agent, Op_Delete ''acme''), (ex_user, Op_Restore ''acme'')] s'"
    using runs_exist by blast
  from runs_keep_history [OF wf run] have "\<exists>v \<in> set (db_versions s'). v_id v = 5 \<and> v_html v = ''old'' \<and> v_status v = Approved"
    by (auto simp add: ex_version_def)
  with run show ?thesis by blast
qed

text \<open>
  C2: a human's gate holds against agents. As long as only agents make calls, a live page that requires
  approval or has been taken down stays live, gated as it was and on the same published version, and
  none of its versions becomes approved, whatever they call and in whatever order.
\<close>

theorem agents_never_pass_gate:
  assumes "wf_db s" "runs sv s calls s'" "\<forall>c \<in> set calls. ac_type (fst c) \<noteq> audit_user"
    and p: "p \<in> set (db_pages s)" "p_deleted p = None" "p_disabled p \<or> p_require_approval p"
  shows "(\<exists>q \<in> set (db_pages s'). p_id q = p_id p \<and> p_deleted q = None \<and> p_published q = p_published p \<and>
      p_disabled q = p_disabled p \<and> p_require_approval q = p_require_approval p) \<and>
    (\<forall>v \<in> set (db_versions s'). v_page v = p_id p \<longrightarrow> v_status v = Approved \<longrightarrow>
      (\<exists>w \<in> set (db_versions s). v_id w = v_id v \<and> v_status w = Approved))"
proof -
  have "guarded p" using p by (simp add: guarded_def)
  moreover have "ac_type a \<noteq> audit_user" if "(a, op) \<in> set calls" for a op using assms(3) that by fastforce
  ultimately have g: "control p \<in> control ` set (db_pages s')"
    "\<And>i. (i, p_id p) \<in> approved s' \<Longrightarrow> (i, p_id p) \<in> approved s"
    using runs_gate [OF assms(2,1)] p(1) by (auto simp add: gate_kept_def)
  from g(1) p(2) have "\<exists>q \<in> set (db_pages s'). p_id q = p_id p \<and> p_deleted q = None \<and> p_published q = p_published p \<and>
      p_disabled q = p_disabled p \<and> p_require_approval q = p_require_approval p" by (auto simp add: control_def)
  moreover have "\<exists>w \<in> set (db_versions s). v_id w = v_id v \<and> v_status w = Approved"
    if "v \<in> set (db_versions s')" "v_page v = p_id p" "v_status v = Approved" for v
  proof -
    have "(v_id v, p_id p) \<in> approved s'" using that by (auto simp add: approved_def)
    from g(2) [OF this] show ?thesis by (auto simp add: approved_def)
  qed
  ultimately show ?thesis by blast
qed

theorem agents_never_pass_gate_witness:
  "\<exists>s'. runs ex_services (ex_db (ex_page\<lparr>p_require_approval := True\<rparr>) [ex_version])
       [(ex_agent, Op_Deploy (ex_input ''new'' (VBool True) VNil)), (ex_agent, Op_Publish ''acme'' 8 VNil),
        (ex_agent, Op_Set_Approval ''acme'' (VBool False)), (ex_agent, Op_Delete ''acme'')] s' \<and>
     (\<exists>q \<in> set (db_pages s'). p_id q = 1 \<and> p_deleted q = None \<and> p_published q = 5 \<and> p_require_approval q)"
proof -
  let ?p = "ex_page\<lparr>p_require_approval := True\<rparr>"
  let ?calls = "[(ex_agent, Op_Deploy (ex_input ''new'' (VBool True) VNil)), (ex_agent, Op_Publish ''acme'' 8 VNil),
        (ex_agent, Op_Set_Approval ''acme'' (VBool False)), (ex_agent, Op_Delete ''acme'')]"
  have wf: "wf_db (ex_db ?p [ex_version])" by (rule wf_ex_db) (simp_all add: ex_page_def ex_version_def)
  obtain s' where run: "runs ex_services (ex_db ?p [ex_version]) ?calls s'" using runs_exist by blast
  have agents: "\<forall>c \<in> set ?calls. ac_type (fst c) \<noteq> audit_user" by (simp add: ex_agent_def audit_user_def)
  have p: "?p \<in> set (db_pages (ex_db ?p [ex_version]))" "p_deleted ?p = None" "p_disabled ?p \<or> p_require_approval ?p"
    by (simp_all add: ex_page_def)
  from conjunct1 [OF agents_never_pass_gate [OF wf run agents p]]
  have "\<exists>q \<in> set (db_pages s'). p_id q = 1 \<and> p_deleted q = None \<and> p_published q = 5 \<and> p_require_approval q"
    by (auto simp add: ex_page_def)
  with run show ?thesis by blast
qed

text \<open>
  C3: what is live never changes silently. If a run leaves the pointer of a page elsewhere than it was,
  an audit row written in that run names the page, the version it now points at (none after a
  deletion) and the actor of one of its calls.
\<close>

theorem pointer_moves_audited:
  assumes "wf_db s" "runs sv s calls s'" "pointer s' pid \<noteq> pointer s pid"
  shows "\<exists>row \<in> set (drop (length (db_audit s)) (db_audit s')). a_page row = pid \<and> a_version row = pointer s' pid \<and>
    (\<exists>(a, op) \<in> set calls. a_actor row = ac_actor a \<and> a_actor_type row = ac_type a)"
  using runs_audited [OF assms(2,1,3)] by (fastforce simp add: new_rows_def says_def)

theorem pointer_moves_audited_witness:
  "\<exists>s. runs ex_services (fresh_db [] []) [(ex_user, ex_first (VBool False))] s \<and>
     (\<exists>row \<in> set (db_audit s). a_page row = 1 \<and> a_version row = 1 \<and> a_actor row = ''ann'')"
proof -
  obtain s p where run: "runs ex_services (fresh_db [] []) [(ex_user, ex_first (VBool False))] s"
    and p: "db_pages s = [p]" "p_id p = 1" "p_published p = 1"
    using ex_first_run [of False] by force
  have "pointer s 1 = 1" "pointer (fresh_db [] []) 1 = 0" using p by (simp_all add: pointer_def fresh_db_def)
  with pointer_moves_audited [OF fresh_db_ok(1) run, of 1]
  have "\<exists>row \<in> set (db_audit s). a_page row = 1 \<and> a_version row = 1 \<and> a_actor row = ''ann''"
    by (auto simp add: ex_user_def dest: in_set_dropD)
  with run show ?thesis by blast
qed



text \<open>
  C5: a review can always be finished. In every reachable state a human can approve any pending
  version of any live page in one call, and it is then what the page points at.
\<close>

theorem pending_can_be_approved:
  assumes "runs sv (fresh_db themes templates) calls s"
    and p: "p \<in> set (db_pages s)" "p_deleted p = None"
    and v: "v \<in> set (db_versions s)" "v_page v = p_id p" "v_status v = Pending"
    and a: "ac_type a = audit_user" "check_write_admission rq = Inr ()"
  shows "\<exists>s'. perform sv rq clock a (Op_Approve (p_slug p) (v_id v) VNil) s = (Inr (), s') \<and> pointer s' (p_id p) = v_id v"
proof -
  let ?s = "s\<lparr>db_now := rq_now rq\<rparr>"
  have wf: "wf_db s" by (rule runs_wf [OF assms(1) fresh_db_ok(1)])
  have n: "normalize_slug (VStr (p_slug p)) = Inr (p_slug p)"
    using wf p(1) by (intro normalize_slug_fixed) (simp add: wf_db_def slugs_ok_def)
  have "find_live (p_slug p) s \<noteq> None" using p by (auto simp add: find_live_None)
  then obtain q where q: "find_live (p_slug p) s = Some q" by blast
  from find_live_Some [OF q] wf p have "p_id q = p_id p" unfolding wf_db_def slugs_ok_def live_unique_def by blast
  then have "q = p" using wf_page_unique [OF wf _ p(1)] find_live_Some [OF q] by blast
  with q n have l: "locked ?s (p_slug p) p" by (simp add: locked_def find_live_def)
  have "find_version (p_id p) (v_id v) s \<noteq> None" using v by (auto simp add: find_version_def find_None_mem)
  then obtain w where w: "find_version (p_id p) (v_id v) s = Some w" by blast
  have "w = v" using wf_version_unique [OF wf _ v(1)] find_version_Some [OF w] by blast
  have vid: "v_id v \<noteq> 0" using wf v(1) by (auto simp add: wf_db_def ids_ok_def)
  let ?s' = "add_audit (actor_entry a ''approve'' (p_id p) (v_id v) (pointer_meta (locked_page_of p) (v_id v) None))
     (update_page (p_id p) (set_pointer (db_now ?s) (v_id v)) (set_review (v_id v) Approved (ac_actor a) ?s))"
  have run: "\<exists>r. approve_tx (p_slug p) (v_id v) VNil a ?s = Inr (r, ?s')"
    using l w \<open>w = v\<close> v(3) by (auto simp add: approve_tx_Inr expected_version_iff is_nullish_def)
  then have "perform sv rq clock a (Op_Approve (p_slug p) (v_id v) VNil) s = (Inr (), ?s')"
    using a vid by (auto simp add: approve_def from_prepared_def assert_admin_action_def version_id_required_def with_tx_def outcome_def)
  moreover have "pointer ?s' (p_id p) = v_id v"
    using pointer_update [OF wf p(1), of "set_pointer (db_now ?s) (v_id v)" ?s' "p_id p"]
    by (simp add: set_pointer_def update_page_def)
  ultimately show ?thesis by blast
qed

theorem pending_can_be_approved_witness:
  "\<exists>s s'. runs ex_services (fresh_db [] []) [(ex_user, ex_first (VBool True))] s \<and>
     perform ex_services ex_request 0 ex_user (Op_Approve ''acme'' 1 VNil) s = (Inr (), s') \<and> pointer s' 1 = 1"
proof -
  obtain s p v where run: "runs ex_services (fresh_db [] []) [(ex_user, ex_first (VBool True))] s"
    and p: "p \<in> set (db_pages s)" "p_deleted p = None" "p_slug p = ''acme''" "p_id p = 1"
    and v: "v \<in> set (db_versions s)" "v_page v = p_id p" "v_status v = Pending" "v_id v = 1"
    using ex_first_run [of True] by force
  have "ac_type ex_user = audit_user" "check_write_admission ex_request = Inr ()"
    by (simp_all add: ex_user_def audit_user_def ex_request_def check_write_admission_def)
  from pending_can_be_approved [OF run p(1,2) v(1-3) this, where clock = 0] p(3,4) v(4) run show ?thesis by auto
qed

end
