(* ===== verification/Doubles.thy ===== *)
theory Doubles
  imports Args Complex_Main
begin

text \<open>
  Decimal to double and back, the two functions of \<open>strconv\<close> that \<open>internal/jsonv/jsonv.go\<close> rests on:
  \<open>ParseFloat(s, 64)\<close> rounds a decimal to the nearest double, ties to even, and
  \<open>FormatFloat(f, 'e', -1, 64)\<close> answers the shortest decimal that rounds back. A finite double is
  \<open>m * 2 ^ x\<close> with a mantissa below \<open>2 ^ 53\<close>; a decimal is a run of digits and a scale.
\<close>

subsection \<open>Rounding to a double\<close>

fun bits :: "nat \<Rightarrow> nat" where
  "bits n = (if n = 0 then 0 else Suc (bits (n div 2)))"

declare bits.simps [simp del]

definition log2_ratio :: "nat \<Rightarrow> nat \<Rightarrow> int" where
  \<comment> \<open>the greatest \<open>k\<close> with \<open>2 ^ k \<le> n / d\<close>\<close>
  "log2_ratio n d =
     (let k = int (bits n) - int (bits d) in
      if d * 2 ^ nat k \<le> n * 2 ^ nat (- k) then k else k - 1)"

definition round_even :: "nat \<Rightarrow> nat \<Rightarrow> nat" where
  "round_even n d =
     (let q = n div d; r = n mod d in
      if 2 * r < d \<or> 2 * r = d \<and> even q then q else q + 1)"

definition to_binary :: "nat \<times> nat \<Rightarrow> (nat \<times> int) option" where
  \<comment> \<open>the double nearest to \<open>n / d\<close>; \<open>None\<close> beyond the greatest one\<close>
  "to_binary = (\<lambda>(n, d).
     if n = 0 then Some (0, - 1074)
     else
       let x = max (- 1074) (log2_ratio n d - 52);
           m = round_even (n * 2 ^ nat (- x)) (d * 2 ^ nat x);
           (m', x') = (if m = 2 ^ 53 then (2 ^ 52, x + 1) else (m, x)) in
       if 971 < x' then None else Some (m', x'))"

definition dec_ratio :: "string \<Rightarrow> int \<Rightarrow> nat \<times> nat" where
  \<comment> \<open>the digits times a power of ten\<close>
  "dec_ratio ds scale = (dec_value ds * 10 ^ nat scale, 10 ^ nat (- scale))"

definition binary_ratio :: "nat \<times> int \<Rightarrow> nat \<times> nat" where
  "binary_ratio = (\<lambda>(m, x). (m * 2 ^ nat x, 2 ^ nat (- x)))"

subsection \<open>The shortest decimal\<close>

definition strip_zeros :: "string \<Rightarrow> string" where
  "strip_zeros ds = rev (dropWhile (\<lambda>c. c = CHR ''0'') (rev ds))"

definition decimal :: "nat \<Rightarrow> int \<Rightarrow> string \<times> int" where
  \<comment> \<open>\<open>q * 10 ^ scale\<close> as \<open>d1.d2... * 10 ^ e\<close>\<close>
  "decimal q scale = (strip_zeros (nat_digits q), scale + int (length (nat_digits q)) - 1)"

definition decimal_ratio :: "string \<times> int \<Rightarrow> nat \<times> nat" where
  "decimal_ratio = (\<lambda>(ds, e). dec_ratio ds (e + 1 - int (length ds)))"

definition log10_ratio :: "nat \<Rightarrow> nat \<Rightarrow> int" where
  "log10_ratio n d =
     (if d \<le> n then int (length (nat_digits (n div d))) - 1 else - int (length (nat_digits ((d - 1) div n))))"

definition candidates :: "nat \<times> nat \<Rightarrow> nat \<Rightarrow> (string \<times> int) list" where
  \<comment> \<open>the two decimals of \<open>k\<close> digits around \<open>n / d\<close>, the nearer first\<close>
  "candidates = (\<lambda>(n, d) k.
     let scale = log10_ratio n d - (int k - 1);
         n' = n * 10 ^ nat (- scale); d' = d * 10 ^ nat scale;
         q = n' div d'; r = n' mod d' in
     map (\<lambda>q. decimal q scale)
       (if 2 * r < d' \<or> 2 * r = d' \<and> even q then [q, q + 1] else [q + 1, q]))"

definition exact_decimal :: "nat \<times> int \<Rightarrow> string \<times> int" where
  "exact_decimal = (\<lambda>(m, x). decimal (m * 2 ^ nat x * 5 ^ nat (- x)) (min 0 x))"

definition shortest :: "nat \<times> int \<Rightarrow> string \<times> int" where
  \<comment> \<open>17 digits are always enough; the exact expansion stands for the end of the search\<close>
  "shortest b =
     (case find (\<lambda>c. to_binary (decimal_ratio c) = Some b) (concat (map (candidates (binary_ratio b)) [1..<18])) of
        Some c \<Rightarrow> c
      | None \<Rightarrow> exact_decimal b)"

definition to_float :: "bool \<Rightarrow> (nat \<times> int) option \<Rightarrow> float64" where
  "to_float neg b =
     (case b of
        None \<Rightarrow> FInf neg
      | Some (m, x) \<Rightarrow> if m = 0 then FZero neg else (case shortest (m, x) of (ds, e) \<Rightarrow> FFin neg ds e))"

definition float_of_decimal :: "bool \<Rightarrow> string \<Rightarrow> int \<Rightarrow> float64" where
  "float_of_decimal neg ds scale = to_float neg (to_binary (dec_ratio ds scale))"

definition is_double :: "float64 \<Rightarrow> bool" where
  \<comment> \<open>the digits are those \<open>FormatFloat\<close> answers for the double they round to\<close>
  "is_double f =
     (case f of
        FFin neg ds e \<Rightarrow> wf_float f \<and> float_of_decimal neg ds (e + 1 - int (length ds)) = f
      | _ \<Rightarrow> True)"


subsection \<open>The exponent of two\<close>

lemma bits_bounds: "0 < n \<Longrightarrow> 2 ^ (bits n - 1) \<le> n \<and> n < 2 ^ bits n"
proof (induction n rule: bits.induct)
  case (1 n)
  show ?case
  proof (cases "n = 1")
    case False
    with "1.prems" have h: "0 < n div 2" by simp
    with "1.IH" "1.prems" have IH: "2 ^ (bits (n div 2) - 1) \<le> n div 2" "n div 2 < 2 ^ bits (n div 2)" by simp_all
    have b: "bits n = Suc (bits (n div 2))" using "1.prems" by (simp add: bits.simps)
    have "bits (n div 2) = Suc (bits (n div 2) - 1)" using h by (simp add: bits.simps [of "n div 2"])
    then have "(2::nat) ^ bits (n div 2) = 2 * 2 ^ (bits (n div 2) - 1)" by (metis power_Suc)
    moreover have "2 * (n div 2) \<le> n" "n \<le> 2 * (n div 2) + 1" by simp_all
    ultimately show ?thesis using IH by (auto simp only: b diff_Suc_1 power_Suc)
  qed (simp add: bits.simps)
qed

definition ratio :: "nat \<times> nat \<Rightarrow> real" where
  "ratio = (\<lambda>(n, d). real n / real d)"

lemma powi_nat: "(2::real) powi k = 2 ^ nat k / 2 ^ nat (- k)"
  by (cases "0 \<le> k") (simp_all add: power_int_def inverse_eq_divide power_one_over)

lemma powi_le_ratio:
  "0 < d \<Longrightarrow> d * 2 ^ nat k \<le> n * 2 ^ nat (- k) \<longleftrightarrow> 2 powi k \<le> ratio (n, d)"
proof -
  assume d: "0 < d"
  have "2 powi k \<le> ratio (n, d) \<longleftrightarrow> real d * 2 ^ nat k \<le> real n * 2 ^ nat (- k)"
    using d by (simp add: powi_nat ratio_def field_simps)
  also have "\<dots> \<longleftrightarrow> real (d * 2 ^ nat k) \<le> real (n * 2 ^ nat (- k))" by simp
  finally show ?thesis using of_nat_le_iff by blast
qed

lemma powi_bits:
  "0 < b \<Longrightarrow> (2::real) powi (int b - 1) \<le> real n \<longleftrightarrow> 2 ^ (b - 1) \<le> n"
  "real n < 2 powi int b \<longleftrightarrow> n < 2 ^ b"
proof -
  have "real (2 ^ (b - 1)) \<le> real n \<longleftrightarrow> 2 ^ (b - 1) \<le> n" "real n < real (2 ^ b) \<longleftrightarrow> n < 2 ^ b"
    by (rule of_nat_le_iff, rule of_nat_less_iff)
  then show "0 < b \<Longrightarrow> (2::real) powi (int b - 1) \<le> real n \<longleftrightarrow> 2 ^ (b - 1) \<le> n" "real n < 2 powi int b \<longleftrightarrow> n < 2 ^ b"
    by (simp_all add: power_int_def nat_diff_distrib)
qed

lemma log2_ratio_bounds:
  assumes "0 < n" "0 < d"
  shows "2 powi log2_ratio n d \<le> ratio (n, d)" "ratio (n, d) < 2 powi (log2_ratio n d + 1)"
proof -
  define k where "k = int (bits n) - int (bits d)"
  have pos: "0 < bits n" "0 < bits d" using assms by (simp_all add: bits.simps)
  have n: "2 powi (int (bits n) - 1) \<le> real n" "real n < 2 powi int (bits n)"
    using bits_bounds [OF assms(1)] pos by (simp_all add: powi_bits)
  have d: "2 powi (int (bits d) - 1) \<le> real d" "real d < 2 powi int (bits d)"
    using bits_bounds [OF assms(2)] pos by (simp_all add: powi_bits)
  have lo: "2 powi (k - 1) \<le> ratio (n, d)"
  proof -
    have "(2::real) powi (k - 1) * 2 powi int (bits d) = 2 powi (k - 1 + int (bits d))" by (subst power_int_add) simp_all
    then have "(2::real) powi (k - 1) * 2 powi int (bits d) = 2 powi (int (bits n) - 1)" by (simp add: k_def)
    then have "2 powi (k - 1) * real d \<le> real n"
      using n(1) mult_left_mono [OF less_imp_le [OF d(2)], of "2 powi (k - 1)"] by simp
    then show ?thesis using assms by (simp add: ratio_def field_simps)
  qed
  have hi: "ratio (n, d) < 2 powi (k + 1)"
  proof -
    have "(2::real) powi (k + 1) * 2 powi (int (bits d) - 1) = 2 powi (k + 1 + (int (bits d) - 1))" by (subst power_int_add) simp_all
    then have "(2::real) powi (k + 1) * 2 powi (int (bits d) - 1) = 2 powi int (bits n)" by (simp add: k_def)
    then have "2 powi int (bits n) \<le> 2 powi (k + 1) * real d"
      using mult_left_mono [OF d(1), of "2 powi (k + 1)"] by simp
    with n(2) have "real n < 2 powi (k + 1) * real d" by (rule less_le_trans)
    then show ?thesis using assms by (simp add: ratio_def field_simps)
  qed
  have c: "log2_ratio n d = (if 2 powi k \<le> ratio (n, d) then k else k - 1)"
    using powi_le_ratio [OF assms(2), of k n] by (simp add: log2_ratio_def Let_def k_def)
  show "2 powi log2_ratio n d \<le> ratio (n, d)" using c lo by auto
  show "ratio (n, d) < 2 powi (log2_ratio n d + 1)" using c hi by auto
qed

subsection \<open>Exact values round to themselves\<close>

definition binary_value :: "nat \<times> int \<Rightarrow> real" where
  "binary_value = (\<lambda>(m, x). real m * 2 powi x)"

definition normal_binary :: "nat \<times> int \<Rightarrow> bool" where
  \<comment> \<open>the finite doubles other than zero\<close>
  "normal_binary = (\<lambda>(m, x). 0 < m \<and> m < 2 ^ 53 \<and> - 1074 \<le> x \<and> x \<le> 971 \<and> (x = - 1074 \<or> 2 ^ 52 \<le> m))"

lemma round_even_exact: "0 < d \<Longrightarrow> round_even (m * d) d = m"
  by (simp add: round_even_def Let_def)

lemma round_even_bounds:
  assumes "0 < d"
  shows "n < a * d \<Longrightarrow> round_even n d \<le> a" and "a * d \<le> n \<Longrightarrow> a \<le> round_even n d"
proof -
  show "round_even n d \<le> a" if "n < a * d"
  proof -
    from that have "n div d < a" using assms by (simp add: div_less_iff_less_mult)
    then show ?thesis by (simp add: round_even_def Let_def)
  qed
  show "a \<le> round_even n d" if "a * d \<le> n"
  proof -
    from that have "a \<le> n div d" using assms by (simp add: less_eq_div_iff_mult_less_eq)
    then show ?thesis by (simp add: round_even_def Let_def)
  qed
qed

lemma powi_less: "(2::real) powi i < 2 powi j \<longleftrightarrow> i < j"
  using power_int_strict_increasing [of i j "2::real"] power_int_increasing [of j i "2::real"] by (cases "i < j") auto

lemma to_binary_exact:
  assumes b: "normal_binary (m, x)" and d: "0 < d" and v: "ratio (n, d) = binary_value (m, x)"
  shows "to_binary (n, d) = Some (m, x)"
proof -
  have n: "0 < n" using b d v by (cases "n = 0") (auto simp add: ratio_def binary_value_def normal_binary_def)
  let ?L = "log2_ratio n d"
  have m: "real m < 2 powi 53" "x = - 1074 \<or> 2 powi 52 \<le> real m" using b by (auto simp add: normal_binary_def power_int_def)
  have "real m * 2 powi x < 2 powi 53 * 2 powi x" using m(1) by simp
  then have "ratio (n, d) < 2 powi (53 + x)" by (simp add: v binary_value_def power_int_add)
  with log2_ratio_bounds(1) [OF n d] have "2 powi ?L < (2::real) powi (53 + x)" by (rule le_less_trans)
  then have hi: "?L < 53 + x" by (simp only: powi_less)
  have lo: "x = - 1074 \<or> x + 52 \<le> ?L"
  proof -
    have "x + 52 < ?L + 1" if "2 powi 52 \<le> real m"
    proof -
      have "(2::real) powi 52 * 2 powi x \<le> real m * 2 powi x" using that by simp
      then have "2 powi (52 + x) \<le> ratio (n, d)" by (simp add: v binary_value_def power_int_add)
      from this log2_ratio_bounds(2) [OF n d] have "(2::real) powi (52 + x) < 2 powi (?L + 1)" by (rule le_less_trans)
      then show ?thesis by (simp add: powi_less)
    qed
    with m(2) show ?thesis by linarith
  qed
  have x: "max (- 1074) (?L - 52) = x" using hi lo b by (auto simp add: normal_binary_def)
  have "real n * 2 ^ nat (- x) = real m * (real d * 2 ^ nat x)"
    using v d by (simp add: ratio_def binary_value_def powi_nat field_simps)
  then have "real (n * 2 ^ nat (- x)) = real (m * (d * 2 ^ nat x))" by simp
  then have eq: "n * 2 ^ nat (- x) = m * (d * 2 ^ nat x)" using of_nat_eq_iff by blast
  have "round_even (n * 2 ^ nat (- x)) (d * 2 ^ nat x) = m"
    unfolding eq by (rule round_even_exact) (use d in simp)
  with n x b show ?thesis by (simp add: to_binary_def Let_def normal_binary_def)
qed

lemma to_binary_normal:
  assumes "to_binary (n, d) = Some (m, x)" "0 < d"
  shows "m = 0 \<or> normal_binary (m, x)"
proof (cases "n = 0")
  case True
  with assms show ?thesis by (simp add: to_binary_def)
next
  case False
  then have n: "0 < n" by simp
  let ?L = "log2_ratio n d"
  define y where "y = max (- 1074) (?L - 52)"
  define k where "k = round_even (n * 2 ^ nat (- y)) (d * 2 ^ nat y)"
  have dy: "0 < d * 2 ^ nat y" using assms(2) by simp
  have split: "(2::real) powi (53 + y) = 2 ^ 53 * (2 ^ nat y / 2 ^ nat (- y))"
    "(2::real) powi (52 + y) = 2 ^ 52 * (2 ^ nat y / 2 ^ nat (- y))"
    by (subst power_int_add, simp, simp add: powi_nat)+
  have "ratio (n, d) < 2 powi (53 + y)"
  proof -
    have "2 powi (?L + 1) \<le> (2::real) powi (53 + y)" by (rule power_int_increasing) (auto simp add: y_def)
    with log2_ratio_bounds(2) [OF n assms(2)] show ?thesis by (rule less_le_trans)
  qed
  then have "real (n * 2 ^ nat (- y)) < real (2 ^ 53 * (d * 2 ^ nat y))"
    using assms(2) unfolding split by (simp add: ratio_def field_simps)
  then have "n * 2 ^ nat (- y) < 2 ^ 53 * (d * 2 ^ nat y)" by (simp only: of_nat_less_iff)
  then have k: "k \<le> 2 ^ 53" unfolding k_def by (rule round_even_bounds(1) [OF dy])
  have low: "2 ^ 52 \<le> k" if "y = ?L - 52"
  proof -
    have "2 powi (52 + y) \<le> ratio (n, d)" using log2_ratio_bounds(1) [OF n assms(2)] that by simp
    then have "real (2 ^ 52 * (d * 2 ^ nat y)) \<le> real (n * 2 ^ nat (- y))"
      using assms(2) unfolding split by (simp add: ratio_def field_simps)
    then have "2 ^ 52 * (d * 2 ^ nat y) \<le> n * 2 ^ nat (- y)" by (simp only: of_nat_le_iff)
    then show ?thesis unfolding k_def by (rule round_even_bounds(2) [OF dy])
  qed
  have y: "- 1074 \<le> y" "y = - 1074 \<or> y = ?L - 52" by (auto simp add: y_def)
  have "(m, x) = (if k = 2 ^ 53 then (2 ^ 52, y + 1) else (k, y)) \<and> x \<le> 971"
    using assms(1) n by (auto simp add: to_binary_def Let_def y_def [symmetric] k_def [symmetric] split: if_splits)
  with k low y show ?thesis by (auto simp add: normal_binary_def split: if_splits)
qed

subsection \<open>What \<open>FormatFloat\<close> prints is read back\<close>

lemma strip_zeros_append: "\<exists>k. ds = strip_zeros ds @ zeros k"
proof -
  have "rev ds = takeWhile (\<lambda>c. c = CHR ''0'') (rev ds) @ dropWhile (\<lambda>c. c = CHR ''0'') (rev ds)" by simp
  moreover have "takeWhile (\<lambda>c. c = CHR ''0'') (rev ds) = zeros (length (takeWhile (\<lambda>c. c = CHR ''0'') (rev ds)))"
    by (auto simp add: zeros_def list_eq_iff_nth_eq dest: set_takeWhileD nth_mem)
  ultimately have "rev (rev ds) = strip_zeros ds @ rev (zeros (length (takeWhile (\<lambda>c. c = CHR ''0'') (rev ds))))"
    by (metis rev_append strip_zeros_def)
  then show ?thesis by (auto simp add: zeros_def)
qed

lemma ratio_dec_ratio: "ratio (dec_ratio ds scale) = real (dec_value ds) * 10 powi scale"
  by (cases "0 \<le> scale") (simp_all add: ratio_def dec_ratio_def power_int_def inverse_eq_divide power_one_over)

lemma ratio_decimal: "ratio (decimal_ratio (decimal q scale)) = real q * 10 powi scale"
proof -
  let ?ds = "nat_digits q"
  obtain k where k: "?ds = strip_zeros ?ds @ zeros k" using strip_zeros_append by blast
  have l: "int (length ?ds) = int (length (strip_zeros ?ds)) + int k" by (subst k) (simp add: zeros_def)
  have "q = dec_value (strip_zeros ?ds @ zeros k)" by (simp flip: k)
  then have "real q = real (dec_value (strip_zeros ?ds) * 10 ^ k)" unfolding dec_value_zeros by (rule arg_cong)
  then have q: "real q = real (dec_value (strip_zeros ?ds)) * 10 ^ k" by simp
  have "scale + int (length ?ds) - 1 + 1 - int (length (strip_zeros ?ds)) = scale + int k" using l by simp
  then show ?thesis unfolding decimal_ratio_def decimal_def q
    by (simp only: prod.case ratio_dec_ratio) (simp add: power_int_add)
qed

lemma nat_digits_hd: "0 < n \<Longrightarrow> hd (nat_digits n) \<noteq> CHR ''0''"
proof (induction n rule: nat_digits.induct)
  case (1 n)
  show ?case
  proof (cases "n < 10")
    case True
    with "1.prems" have "byte (hd (nat_digits n)) = 48 + n" by (simp add: nat_digits.simps [of n] byte_digit_char)
    with "1.prems" show ?thesis by auto
  next
    case False
    with "1.IH" show ?thesis by (simp add: nat_digits.simps [of n] hd_append)
  qed
qed

lemma decimal_wf: "0 < q \<Longrightarrow> decimal q scale = (ds, e) \<Longrightarrow> wf_float (FFin neg ds e)"
proof -
  assume q: "0 < q" and d: "decimal q scale = (ds, e)"
  let ?ds = "nat_digits q"
  obtain k where k: "?ds = ds @ zeros k" using strip_zeros_append [of ?ds] d by (auto simp add: decimal_def)
  have ne: "ds \<noteq> []"
  proof
    assume "ds = []"
    with k have "dec_value ?ds = 0" using dec_value_zeros [of "[]" k] by (simp add: dec_value_def)
    with q show False by simp
  qed
  have "hd ?ds \<noteq> CHR ''0''" by (rule nat_digits_hd [OF q])
  moreover have "list_all is_digit ?ds" by (simp add: list_all_iff nat_digits_all_digits)
  ultimately show ?thesis using ne unfolding k by (simp add: wf_float_def)
qed

lemma ratio_exact_decimal: "ratio (decimal_ratio (exact_decimal (m, x))) = binary_value (m, x)"
proof (cases "0 \<le> x")
  case False
  then have "(5::real) ^ nat (- x) * 10 powi x = 2 powi x"
    by (simp add: power_int_def flip: power_mult_distrib)
  with False show ?thesis by (simp add: exact_decimal_def ratio_decimal binary_value_def)
qed (simp add: exact_decimal_def ratio_decimal binary_value_def power_int_def)

lemma candidates_decimal: "c \<in> set (candidates r k) \<Longrightarrow> \<exists>q scale. c = decimal q scale"
  by (auto simp add: candidates_def Let_def split: prod.splits if_splits)

lemma dec_ratio_pos: "0 < snd (dec_ratio ds scale)"
  by (simp add: dec_ratio_def)

lemma strip_digit_0: "strip_zeros (nat_digits 0) = []"
  by code_simp

lemma shortest_decimal: "\<exists>q scale. shortest b = decimal q scale"
proof (cases "find (\<lambda>c. to_binary (decimal_ratio c) = Some b) (concat (map (candidates (binary_ratio b)) [1..<18]))")
  case None
  then show ?thesis by (auto simp add: shortest_def exact_decimal_def split: prod.split)
next
  case (Some c)
  from find_Some_mem [OF this] obtain k where "c \<in> set (candidates (binary_ratio b) k)" by auto
  from candidates_decimal [OF this] Some show ?thesis by (simp add: shortest_def)
qed

lemma shortest_rounds: "normal_binary b \<Longrightarrow> to_binary (decimal_ratio (shortest b)) = Some b"
proof (cases "find (\<lambda>c. to_binary (decimal_ratio c) = Some b) (concat (map (candidates (binary_ratio b)) [1..<18]))")
  case None
  assume n: "normal_binary b"
  obtain m x where b: "b = (m, x)" by force
  obtain n d where r: "decimal_ratio (exact_decimal b) = (n, d)" by force
  have "0 < snd (decimal_ratio (exact_decimal b))" by (simp add: decimal_ratio_def dec_ratio_def split: prod.split)
  with r have "0 < d" by simp
  from to_binary_exact [OF n [unfolded b] this] ratio_exact_decimal [of m x] r b
  show ?thesis using None by (simp add: shortest_def)
next
  case (Some c)
  with find_Some_mem [OF this] show ?thesis by (simp add: shortest_def)
qed

lemma float_of_decimal_double: "is_double (float_of_decimal neg ds scale)"
proof (cases "to_binary (dec_ratio ds scale)")
  case (Some b)
  obtain m x where b: "b = (m, x)" by force
  obtain n d where nd: "dec_ratio ds scale = (n, d)" by force
  have d: "0 < d" using dec_ratio_pos [of ds scale] nd by simp
  show ?thesis
  proof (cases "m = 0")
    case False
    with to_binary_normal [of n d m x] Some b nd d have n: "normal_binary (m, x)" by simp
    obtain es e where s: "shortest (m, x) = (es, e)" by force
    then have rb: "to_binary (dec_ratio es (e + 1 - int (length es))) = Some (m, x)"
      using shortest_rounds [OF n] by (simp add: decimal_ratio_def)
    obtain q sc where q: "shortest (m, x) = decimal q sc" using shortest_decimal by blast
    have "q \<noteq> 0"
    proof
      assume "q = 0"
      then have "es = []" using q s by (simp add: decimal_def strip_digit_0)
      then have "to_binary (dec_ratio es (e + 1 - int (length es))) = Some (0, - 1074)"
        by (simp add: dec_ratio_def dec_value_def to_binary_def)
      with rb False show False by simp
    qed
    with decimal_wf q s have "wf_float (FFin neg es e)" by simp
    with rb s False Some b show ?thesis
      by (simp add: is_double_def float_of_decimal_def to_float_def)
  qed (use Some b in \<open>simp add: is_double_def float_of_decimal_def to_float_def\<close>)
qed (simp add: is_double_def float_of_decimal_def to_float_def)

subsection \<open>A decimal has one double\<close>

lemma log2_ratio_scale: "0 < c \<Longrightarrow> 0 < n \<Longrightarrow> 0 < d \<Longrightarrow> log2_ratio (n * c) (d * c) = log2_ratio n d"
proof -
  assume pos: "0 < c" "0 < n" "0 < d"
  have r: "ratio (n * c, d * c) = ratio (n, d)" using pos by (simp add: ratio_def)
  have "(2::real) powi log2_ratio (n * c) (d * c) < 2 powi (log2_ratio n d + 1)"
    "(2::real) powi log2_ratio n d < 2 powi (log2_ratio (n * c) (d * c) + 1)"
    using log2_ratio_bounds [of "n * c" "d * c"] log2_ratio_bounds [of n d] pos r by (simp_all add: le_less_trans)
  then show ?thesis by (simp add: powi_less)
qed

lemma round_even_scale: "0 < c \<Longrightarrow> round_even (n * c) (d * c) = round_even n d"
proof -
  assume c: "0 < c"
  have "n * c div (d * c) = n div d" "n * c mod (d * c) = n mod d * c" using c by (simp_all add: mod_mult_mult2)
  moreover have "2 * (n mod d * c) < d * c \<longleftrightarrow> 2 * (n mod d) < d" "2 * (n mod d * c) = d * c \<longleftrightarrow> 2 * (n mod d) = d"
    using c by (simp_all flip: mult.assoc)
  ultimately show ?thesis by (simp only: round_even_def Let_def)
qed

lemma to_binary_scale: "0 < c \<Longrightarrow> 0 < d \<Longrightarrow> to_binary (n * c, d * c) = to_binary (n, d)"
proof (cases "n = 0")
  case False
  assume "0 < c" "0 < d"
  have "round_even (n * c * 2 ^ i) (d * c * 2 ^ j) = round_even (n * 2 ^ i) (d * 2 ^ j)" for i j
    using round_even_scale [OF \<open>0 < c\<close>, of "n * 2 ^ i" "d * 2 ^ j"] by (simp only: ac_simps)
  with False \<open>0 < c\<close> \<open>0 < d\<close> show ?thesis
    by (simp add: to_binary_def log2_ratio_scale)
qed (simp add: to_binary_def)

lemma to_binary_ratio:
  assumes "n * d' = n' * d" "0 < d" "0 < d'"
  shows "to_binary (n, d) = to_binary (n', d')"
proof -
  have "to_binary (n, d) = to_binary (n * d', d * d')" using assms(2,3) by (simp add: to_binary_scale)
  also have "\<dots> = to_binary (n' * d, d' * d)" by (simp only: assms(1) mult.commute [of d d'])
  also have "\<dots> = to_binary (n', d')" using assms(2,3) by (simp add: to_binary_scale)
  finally show ?thesis .
qed

lemma dec_value_append_zeros: "dec_value (zeros j @ ds @ zeros k) = dec_value ds * 10 ^ k"
proof -
  have "dec_value (zeros j @ es) = dec_value es" for es
    by (induction j) (simp_all add: zeros_def dec_value_def)
  then show ?thesis by (simp add: dec_value_zeros)
qed

lemma float_of_decimal_zeros:
  "float_of_decimal neg (zeros j @ ds @ zeros k) scale = float_of_decimal neg ds (scale + int k)"
proof -
  have p: "10 ^ k * 10 ^ nat scale * 10 ^ nat (- (scale + int k)) = (10::nat) ^ nat (scale + int k) * 10 ^ nat (- scale)"
  proof -
    have "k + nat scale + nat (- (scale + int k)) = nat (scale + int k) + nat (- scale)" by linarith
    then show ?thesis by (simp flip: power_add)
  qed
  have "to_binary (dec_ratio (zeros j @ ds @ zeros k) scale) = to_binary (dec_ratio ds (scale + int k))"
    unfolding dec_ratio_def dec_value_append_zeros
    by (rule to_binary_ratio) (use p in \<open>simp_all add: mult.assoc\<close>)
  then show ?thesis by (simp add: float_of_decimal_def)
qed

lemma is_doubleD: "is_double (FFin neg ds e) \<Longrightarrow> float_of_decimal neg ds (e + 1 - int (length ds)) = FFin neg ds e"
  by (simp add: is_double_def)


subsection \<open>An example: 1.5\<close>

lemma to_binary_eq:
  "to_binary (n, d) =
     (if n = 0 then Some (0, - 1074)
      else
        let x = max (- 1074) (log2_ratio n d - 52);
            m = round_even (n * 2 ^ nat (- x)) (d * 2 ^ nat x);
            (m', x') = (if m = 2 ^ 53 then (2 ^ 52, x + 1) else (m, x)) in
        if 971 < x' then None else Some (m', x'))"
  by (simp add: to_binary_def)

lemma bits_numeral:
  "bits 0 = 0" "bits (Suc 0) = 1" "bits 1 = 1" "bits (numeral (num.Bit0 m)) = Suc (bits (numeral m))"
  "bits (numeral (num.Bit1 m)) = Suc (bits (numeral m))"
  by (simp_all add: bits.simps [of 0] bits.simps [of 1] bits.simps [of "Suc 0"] bits.simps [of "numeral (num.Bit0 m)"]
      bits.simps [of "numeral (num.Bit1 m)"])

lemma double_1_5: "is_double (FFin False ''15'' 0)"
proof -
  let ?r = "binary_ratio (6755399441055744, - 52)"
  have nd: "nat_digits 15 = ''15''" "nat_digits (Suc (Suc 0)) = ''2''" "nat_digits (Suc 0) = ''1''" by code_simp+
  have r: "?r = (6755399441055744, 2 ^ 52)" by (simp add: binary_ratio_def)
  have c: "candidates ?r 1 = [decimal (Suc (Suc 0)) 0, decimal 1 0]" "candidates ?r 2 = [decimal 15 (-1), decimal 16 (-1)]"
    unfolding r by (simp_all add: candidates_def log10_ratio_def nd Let_def)
  have d: "decimal (Suc (Suc 0)) 0 = (''2'', 0)" "decimal 1 0 = (''1'', 0)" "decimal 15 (-1) = (''15'', 0)"
    by (simp_all add: decimal_def nd strip_zeros_def)
  have "[1..<18] = 1 # 2 # [3..<18]" by (simp add: upt_rec)
  then obtain cs where l: "concat (map (candidates ?r) [1..<18]) =
      decimal (Suc (Suc 0)) 0 # decimal 1 0 # decimal 15 (-1) # decimal 16 (-1) # cs"
    using c by (simp only: list.map concat.simps append_Cons append_Nil)
  note eval = dec_ratio_def dec_value_def to_binary_eq log2_ratio_def bits_numeral round_even_def Let_def
  have b: "to_binary (decimal_ratio (''2'', 0)) = Some (2 ^ 52, - 51)" "to_binary (decimal_ratio (''1'', 0)) = Some (2 ^ 52, - 52)"
    "to_binary (decimal_ratio (''15'', 0)) = Some (6755399441055744, - 52)"
    by (simp_all add: decimal_ratio_def eval)
  then have "shortest (6755399441055744, - 52) = (''15'', 0)"
    unfolding shortest_def l using d by simp
  moreover have "to_binary (dec_ratio ''15'' (- 1)) = Some (6755399441055744, - 52)" using b(3) by (simp add: decimal_ratio_def)
  ultimately have "float_of_decimal False ''15'' (- 1) = FFin False ''15'' 0" by (simp add: float_of_decimal_def to_float_def)
  then show ?thesis by (simp add: is_double_def wf_float_def is_digit_def)
qed

end
