(* ===== verification/Json_Parser.thy ===== *)
theory Json_Parser
  imports Doubles
begin

text \<open>
  The reading half of \<open>internal/jsonv/jsonv.go\<close>: \<open>Parse\<close> and \<open>ParseLossless\<close>. The parser is a position
  in the input; here it is the rest of the input, and an offset is what has been read of it. A
  step answers the message and the rest where it failed, or a value and what is left.
\<close>

type_synonym 'a parsed = "string \<times> string + 'a \<times> string"

record syntax_error =
  se_offset :: nat
  se_msg :: string

definition skip_ws :: "string \<Rightarrow> string" where
  "skip_ws = dropWhile (\<lambda>c. c \<in> {CHR '' '', CHR 0x09, CHR 0x0A, CHR 0x0D})"

definition parse_lit :: "string \<Rightarrow> goval \<Rightarrow> string \<Rightarrow> goval parsed" where
  "parse_lit word v s =
     (if has_prefix word s then Inr (v, drop (length word) s) else Inl (''Unexpected token'', s))"

subsection \<open>Strings\<close>

definition hex_val :: "char \<Rightarrow> nat option" where
  "hex_val c =
     (let b = byte c in
      if 48 \<le> b \<and> b \<le> 57 then Some (b - 48)
      else if 97 \<le> b \<and> b \<le> 102 then Some (b - 87)
      else if 65 \<le> b \<and> b \<le> 70 then Some (b - 55)
      else None)"

fun hex4 :: "string \<Rightarrow> (nat \<times> string) option" where
  "hex4 (a # b # c # d # s) =
     (case (hex_val a, hex_val b, hex_val c, hex_val d) of
        (Some x, Some y, Some z, Some w) \<Rightarrow> Some (((x * 16 + y) * 16 + z) * 16 + w, s)
      | _ \<Rightarrow> None)"
| "hex4 _ = None"

definition is_surrogate :: "nat \<Rightarrow> bool" where
  "is_surrogate r = (0xD800 \<le> r \<and> r \<le> 0xDFFF)"

definition append_wtf8 :: "nat \<Rightarrow> string" where
  "append_wtf8 r =
     (if is_surrogate r then [char_of (0xED::nat), char_of (0x80 + r div 64 mod 64), char_of (0x80 + r mod 64)]
      else utf8_encode r)"

definition low_surrogate :: "string \<Rightarrow> (nat \<times> string) option" where
  \<comment> \<open>the second half of a pair of escapes\<close>
  "low_surrogate s =
     (if has_prefix [CHR 0x5C, CHR ''u''] s then
        (case hex4 (drop 2 s) of
           Some (lo, r) \<Rightarrow> if 0xDC00 \<le> lo \<and> lo \<le> 0xDFFF then Some (lo, r) else None
         | None \<Rightarrow> None)
      else None)"

definition unicode_escape :: "bool \<Rightarrow> string \<Rightarrow> (string \<times> string) option" where
  \<comment> \<open>the bytes of a \<open>\u\<close> escape, and what follows it\<close>
  "unicode_escape wtf8 s =
     (case hex4 s of
        None \<Rightarrow> None
      | Some (r, t) \<Rightarrow>
          if is_surrogate r then
            (case (if r < 0xDC00 then low_surrogate t else None) of
               Some (lo, u) \<Rightarrow> Some (utf8_encode (0x10000 + (r - 0xD800) * 1024 + (lo - 0xDC00)), u)
             | None \<Rightarrow> Some (if wtf8 then append_wtf8 r else utf8_encode 0xFFFD, t))
          else Some (utf8_encode r, t))"

definition simple_escape :: "char \<Rightarrow> char option" where
  "simple_escape e =
     (if e \<in> {CHR 0x22, CHR 0x5C, CHR ''/''} then Some e
      else if e = CHR ''b'' then Some (CHR 0x08)
      else if e = CHR ''f'' then Some (CHR 0x0C)
      else if e = CHR ''n'' then Some (CHR 0x0A)
      else if e = CHR ''r'' then Some (CHR 0x0D)
      else if e = CHR ''t'' then Some (CHR 0x09)
      else None)"

text \<open>\<open>strings.ToValidUTF8(s, "\uFFFD")\<close>: one replacement for each run of invalid bytes.\<close>

function to_valid :: "bool \<Rightarrow> string \<Rightarrow> string" where
  "to_valid run s =
     (if s = [] then []
      else if decode_rune s = (0xFFFD, 1) then (if run then [] else replacement) @ to_valid True (tl s)
      else take (snd (decode_rune s)) s @ to_valid False (drop (snd (decode_rune s)) s))"
  by pat_completeness auto
termination
  by (relation "measure (\<lambda>(_, s). length s)") (auto simp add: decode_rune_width)

declare to_valid.simps [simp del]

definition to_valid_utf8 :: "string \<Rightarrow> string" where
  "to_valid_utf8 s = to_valid False s"

lemma hex4_length: "hex4 s = Some (r, t) \<Longrightarrow> length t < length s"
  by (induction s rule: hex4.induct) (auto split: option.splits)

lemma unicode_escape_length: "unicode_escape w s = Some (b, t) \<Longrightarrow> length t < length s"
  by (auto simp add: unicode_escape_def low_surrogate_def dest!: hex4_length split: option.splits if_splits)

function str_loop :: "bool \<Rightarrow> string \<Rightarrow> string \<Rightarrow> string parsed" where
  \<comment> \<open>the slow path, with the builder as accumulator\<close>
  "str_loop w acc s =
     (case s of
        [] \<Rightarrow> Inl (''Unterminated string in JSON'', [])
      | c # cs \<Rightarrow>
          if c = CHR 0x22 then Inr (if \<not> w \<and> \<not> valid_utf8 acc then to_valid_utf8 acc else acc, cs)
          else if byte c < 0x20 then Inl (''Bad control character in string literal'', s)
          else if c \<noteq> CHR 0x5C then str_loop w (acc @ [c]) cs
          else
            (case cs of
               [] \<Rightarrow> Inl (''Unterminated string in JSON'', [])
             | e # es \<Rightarrow>
                 (case simple_escape e of
                    Some b \<Rightarrow> str_loop w (acc @ [b]) es
                  | None \<Rightarrow>
                      if e = CHR ''u'' then
                        (case unicode_escape w es of
                           None \<Rightarrow> Inl (''Bad Unicode escape in JSON'', es)
                         | Some (bs, r) \<Rightarrow> str_loop w (acc @ bs) r)
                      else Inl (''Bad escaped character in JSON'', cs))))"
  by pat_completeness auto
termination
  by (relation "measure (\<lambda>(_, _, s). length s)") (auto dest: unicode_escape_length)

declare str_loop.simps [simp del]

definition plain :: "char \<Rightarrow> bool" where
  "plain c = (c \<noteq> CHR 0x22 \<and> c \<noteq> CHR 0x5C \<and> 0x20 \<le> byte c)"

definition parse_str :: "bool \<Rightarrow> string \<Rightarrow> string parsed" where
  \<comment> \<open>after the opening quote: the fast path while there is nothing to unescape\<close>
  "parse_str w s =
     (let p = takeWhile plain s; r = dropWhile plain s in
      case r of
        c # cs \<Rightarrow>
          if c = CHR 0x22 then Inr (if valid_utf8 p then p else to_valid_utf8 p, cs) else str_loop w p r
      | [] \<Rightarrow> str_loop w p r)"

subsection \<open>Numbers\<close>

definition digit_run :: "string \<Rightarrow> string \<times> string" where
  "digit_run s = (takeWhile is_digit s, dropWhile is_digit s)"

definition int_part :: "string \<Rightarrow> string parsed" where
  "int_part s =
     (case s of
        [] \<Rightarrow> Inl (''No number after minus sign in JSON'', s)
      | c # cs \<Rightarrow>
          if c = CHR ''0'' then Inr ([c], cs)
          else if is_digit c then Inr (digit_run s)
          else Inl (''No number after minus sign in JSON'', s))"

definition frac_part :: "string \<Rightarrow> string parsed" where
  "frac_part s =
     (case s of
        c # t \<Rightarrow>
          if c = CHR ''.'' then
            (if fst (digit_run t) = [] then Inl (''Unterminated fractional number in JSON'', t) else Inr (digit_run t))
          else Inr ([], s)
      | [] \<Rightarrow> Inr ([], s))"

definition exp_sign :: "string \<Rightarrow> bool \<times> string" where
  "exp_sign s =
     (case s of
        c # t \<Rightarrow> if c = CHR ''+'' then (False, t) else if c = CHR ''-'' then (True, t) else (False, s)
      | [] \<Rightarrow> (False, s))"

definition exp_part :: "string \<Rightarrow> int parsed" where
  "exp_part s =
     (case s of
        c # t \<Rightarrow>
          if c = CHR ''e'' \<or> c = CHR ''E'' then
            (case exp_sign t of (neg, t') \<Rightarrow>
             case digit_run t' of (ds, u) \<Rightarrow>
               if ds = [] then Inl (''Exponent part is missing a number in JSON'', t')
               else Inr ((if neg then - int (dec_value ds) else int (dec_value ds)), u))
          else Inr (0, s)
      | [] \<Rightarrow> Inr (0, s))"

definition parse_number :: "string \<Rightarrow> goval parsed" where
  \<comment> \<open>the literal, and \<open>ParseFloat\<close> of it\<close>
  "parse_number s =
     (let neg = (s \<noteq> [] \<and> hd s = CHR ''-'') in
      res_bind (int_part (if neg then tl s else s)) (\<lambda>(i, s1).
      res_bind (frac_part s1) (\<lambda>(f, s2).
      res_bind (exp_part s2) (\<lambda>(e, s3).
      Inr (VFloat (float_of_decimal neg (i @ f) (e - int (length f))), s3)))))"

subsection \<open>Values\<close>

definition max_depth :: nat where "max_depth = 10000"

datatype task = Value nat | Members nat "(string \<times> goval) list" | Elements nat "goval list"

text \<open>
  \<open>value\<close> at a depth, and the loops of \<open>object\<close> and \<open>array\<close> with what they have collected. An object
  is its entries: \<open>Set\<close> on the representation is \<^const>\<open>alist_set\<close> on them.
\<close>

function (sequential) parse_task :: "bool \<Rightarrow> task \<Rightarrow> string \<Rightarrow> goval parsed" where
  "parse_task w (Value d) s =
     (if max_depth < d then Inl (''JSON nested too deeply'', s)
      else
        (case s of
           [] \<Rightarrow> Inl (''Unexpected end of JSON input'', s)
         | c # cs \<Rightarrow>
             if c = CHR ''{'' then
               (if has_prefix ''}'' (skip_ws cs) then Inr (VObj [], tl (skip_ws cs))
                else parse_task w (Members d []) (skip_ws cs))
             else if c = CHR ''['' then
               (if has_prefix '']'' (skip_ws cs) then Inr (VList [], tl (skip_ws cs))
                else parse_task w (Elements d []) (skip_ws cs))
             else if c = CHR 0x22 then res_bind (parse_str w cs) (\<lambda>(x, r). Inr (VStr x, r))
             else if c = CHR ''t'' then parse_lit ''true'' (VBool True) s
             else if c = CHR ''f'' then parse_lit ''false'' (VBool False) s
             else if c = CHR ''n'' then parse_lit ''null'' VNil s
             else if c = CHR ''-'' \<or> is_digit c then parse_number s
             else Inl (''Unexpected token'', s)))"
| "parse_task w (Members d es) s =
     (case skip_ws s of
        [] \<Rightarrow> Inl (''Expected property name'', [])
      | q # t \<Rightarrow>
          if q \<noteq> CHR 0x22 then Inl (''Expected property name'', q # t)
          else
            (case parse_str w t of
               Inl e \<Rightarrow> Inl e
             | Inr (k, r) \<Rightarrow>
                 if \<not> has_prefix '':'' (skip_ws r) then Inl (''Expected ':' after property name'', skip_ws r)
                 else
                   (case parse_task w (Value (d + 1)) (skip_ws (tl (skip_ws r))) of
                      Inl e \<Rightarrow> Inl e
                    | Inr (v, r') \<Rightarrow>
                        (case skip_ws r' of
                           [] \<Rightarrow> Inl (''Unexpected end of JSON input'', [])
                         | c # u \<Rightarrow>
                             if c = CHR '','' then parse_task w (Members d (alist_set k v es)) u
                             else if c = CHR ''}'' then Inr (VObj (alist_set k v es), u)
                             else Inl (''Expected ',' or '}' after property value'', c # u)))))"
| "parse_task w (Elements d vs) s =
     (case parse_task w (Value (d + 1)) (skip_ws s) of
        Inl e \<Rightarrow> Inl e
      | Inr (v, r) \<Rightarrow>
          (case skip_ws r of
             [] \<Rightarrow> Inl (''Unexpected end of JSON input'', [])
           | c # u \<Rightarrow>
               if c = CHR '','' then parse_task w (Elements d (vs @ [v])) u
               else if c = CHR '']'' then Inr (VList (vs @ [v]), u)
               else Inl (''Expected ',' or ']' after array element'', c # u)))"
  by pat_completeness auto

lemma skip_ws_length: "length (skip_ws s) \<le> length s"
  by (simp add: skip_ws_def length_dropWhile_le)

lemma skip_ws_Cons_length: "skip_ws s = c # t \<Longrightarrow> length t < length s"
  using skip_ws_length [of s] by simp

lemma str_loop_length: "str_loop w acc s = Inr (x, r) \<Longrightarrow> length r < length s"
proof (induction s arbitrary: acc rule: length_induct)
  case (1 s)
  from "1.prems" show ?case
    by (subst (asm) str_loop.simps)
      (auto split: list.splits if_splits option.splits dest!: unicode_escape_length "1.IH" [rule_format, rotated])
qed

lemma parse_str_length: "parse_str w s = Inr (x, r) \<Longrightarrow> length r < length s"
proof -
  assume p: "parse_str w s = Inr (x, r)"
  have "length (dropWhile plain s) \<le> length s" by (rule length_dropWhile_le)
  with p show ?thesis
    by (auto simp add: parse_str_def Let_def simp del: dropWhile_eq_Nil_conv split: list.splits if_splits dest!: str_loop_length)
qed

lemma digit_run_length: "digit_run s = (ds, r) \<Longrightarrow> length s = length ds + length r"
  by (auto simp add: digit_run_def) (metis length_append takeWhile_dropWhile_id)

lemma parse_number_length: "parse_number s = Inr (v, r) \<Longrightarrow> length r < length s"
proof -
  assume p: "parse_number s = Inr (v, r)"
  have i: "length u < length t" if "int_part t = Inr (ds, u)" for t ds u
    using that by (auto simp add: int_part_def digit_run_def le_imp_less_Suc length_dropWhile_le split: list.splits if_splits)
  have f: "length u \<le> length t" if "frac_part t = Inr (ds, u)" for t ds u
    using that by (auto simp add: frac_part_def split: list.splits if_splits dest!: digit_run_length)
  have e: "length u \<le> length t" if "exp_part t = Inr (n, u)" for t n u
    using that by (auto simp add: exp_part_def exp_sign_def split: list.splits if_splits prod.splits dest!: digit_run_length)
  from p i e f show ?thesis
    by (fastforce simp add: parse_number_def Let_def res_iffs split: if_splits prod.splits dest: i f e)
qed

text \<open>What holds of every answer of a step, by the shape of the step.\<close>

definition answers :: "('a \<Rightarrow> string \<Rightarrow> bool) \<Rightarrow> 'a parsed \<Rightarrow> bool" where
  "answers Q p \<longleftrightarrow> (\<forall>x r. p = Inr (x, r) \<longrightarrow> Q x r)"

lemma answers_Inl: "answers Q (Inl e)"
  by (simp add: answers_def)

lemma answers_Inr: "Q x r \<Longrightarrow> answers Q (Inr (x, r))"
  by (simp add: answers_def)

lemma answers_if: "(b \<Longrightarrow> answers Q p) \<Longrightarrow> (\<not> b \<Longrightarrow> answers Q q) \<Longrightarrow> answers Q (if b then p else q)"
  by simp

lemma answers_list:
  "(s = [] \<Longrightarrow> answers Q p) \<Longrightarrow> (\<And>c cs. s = c # cs \<Longrightarrow> answers Q (q c cs)) \<Longrightarrow>
     answers Q (case s of [] \<Rightarrow> p | c # cs \<Rightarrow> q c cs)"
  by (cases s) simp_all

lemma answers_sum:
  "(\<And>x r. p = Inr (x, r) \<Longrightarrow> answers Q (k x r)) \<Longrightarrow> answers Q (case p of Inl e \<Rightarrow> Inl e | Inr (x, r) \<Rightarrow> k x r)"
  by (cases p) (auto simp add: answers_Inl)

lemma answers_bind:
  "(\<And>x r. p = Inr (x, r) \<Longrightarrow> answers Q (k x r)) \<Longrightarrow> answers Q (res_bind p (\<lambda>(x, r). k x r))"
  by (cases p) (auto simp add: answers_Inl)

lemma answersD: "answers Q p \<Longrightarrow> p = Inr (x, r) \<Longrightarrow> Q x r"
  by (simp add: answers_def)

lemma answers_mono: "answers Q p \<Longrightarrow> (\<And>x r. Q x r \<Longrightarrow> Q' x r) \<Longrightarrow> answers Q' p"
  by (simp add: answers_def)

lemmas answers_intros = answers_if answers_list answers_Inl answers_bind answers_sum

text \<open>A step that succeeds leaves less than it was given.\<close>

abbreviation consumes :: "nat \<Rightarrow> 'a parsed \<Rightarrow> bool" where
  "consumes n \<equiv> answers (\<lambda>_ r. length r < n)"

lemma consumes_lit: "word \<noteq> [] \<Longrightarrow> consumes (length s) (parse_lit word x s)"
  by (auto simp add: answers_def parse_lit_def has_prefix_def simp flip: length_greater_0_conv split: if_splits
        dest!: prefix_length_le)

lemma consumes_number: "consumes (length s) (parse_number s)"
  by (auto simp add: answers_def dest: parse_number_length)

lemma has_prefix_single: "has_prefix [c] s \<longleftrightarrow> (\<exists>t. s = c # t)"
  by (cases s) (auto simp add: has_prefix_def)

lemma tl_skip_ws_length: "length (tl (skip_ws cs)) < Suc (length cs)"
  using skip_ws_length [of cs] by (simp add: le_imp_less_Suc)

lemma consumes_skip: "consumes (length (skip_ws cs)) p \<Longrightarrow> length cs < n \<Longrightarrow> consumes n p"
  using skip_ws_length [of cs] by (auto elim: answers_mono)

lemma member_length:
  assumes "skip_ws s = q # t" "parse_str w t = Inr (k, r)"
  shows "length (skip_ws (tl (skip_ws r))) < length s"
  using skip_ws_Cons_length [OF assms(1)] parse_str_length [OF assms(2)]
    skip_ws_length [of "tl (skip_ws r)"] skip_ws_length [of r] by simp

lemma parse_task_consumes: "parse_task_dom (w, k, s) \<Longrightarrow> consumes (length s) (parse_task w k s)"
proof (induction w k s rule: parse_task.pinduct)
  case (1 w d s)
  show ?case unfolding parse_task.psimps(1) [OF "1.hyps"]
  proof (intro answers_intros, goal_cases)
    case (2 c cs)
    with "1.IH"(1) [OF this] show ?case by (auto intro: consumes_skip)
  next
    case (4 c cs)
    with "1.IH"(2) [OF this] show ?case by (auto intro: consumes_skip)
  next
    case (5 c cs x r)
    then show ?case using parse_str_length [of w cs x r] by (simp add: answers_Inr)
  qed ((rule consumes_number | rule consumes_lit, simp | simp only: length_Cons answers_Inr tl_skip_ws_length)+)
next
  case (2 w d es s)
  show ?case unfolding parse_task.psimps(2) [OF "2.hyps"]
  proof (intro answers_intros, goal_cases)
    case (1 q t k r v r' c u)
    have "length r' < length (skip_ws (tl (skip_ws r)))"
      using "2.IH"(1) [OF 1(1,2,3) refl] 1(4,5) by (simp add: answers_def)
    moreover have "length u < length r'" using skip_ws_Cons_length [OF 1(6)] .
    moreover have "consumes (length u) (parse_task w (Members d (alist_set k v es)) u)"
      using "2.IH"(2) [OF 1(1,2,3) refl] 1(4-7) by simp
    ultimately show ?case using member_length [OF 1(1,3)] by (auto elim: answers_mono)
  next
    case (2 q t k r v r' c u)
    have "length r' < length (skip_ws (tl (skip_ws r)))"
      using "2.IH"(1) [OF 2(1,2,3) refl] 2(4,5) by (simp add: answers_def)
    moreover have "length u < length r'" using skip_ws_Cons_length [OF 2(6)] .
    ultimately show ?case using member_length [OF 2(1,3)] by (simp add: answers_Inr)
  qed
next
  case (3 w d vs s)
  show ?case unfolding parse_task.psimps(3) [OF "3.hyps"]
  proof (intro answers_intros, goal_cases)
    case (1 v r c u)
    have "length r < length s"
      using "3.IH"(1) 1(1) skip_ws_length [of s] by (auto simp add: answers_def)
    moreover have "length u < length r" using skip_ws_Cons_length [OF 1(2)] .
    moreover have "consumes (length u) (parse_task w (Elements d (vs @ [v])) u)"
      using "3.IH"(2) 1 by simp
    ultimately show ?case by (auto elim: answers_mono)
  next
    case (2 v r c u)
    have "length r < length s"
      using "3.IH"(1) 2(1) skip_ws_length [of s] by (auto simp add: answers_def)
    moreover have "length u < length r" using skip_ws_Cons_length [OF 2(2)] .
    ultimately show ?case by (simp add: answers_Inr)
  qed
qed

lemma value_length: "parse_task_dom (w, Value d, s) \<Longrightarrow> parse_task w (Value d) s = Inr (v, r) \<Longrightarrow> length r < length s"
  using parse_task_consumes by (auto simp add: answers_def)

termination parse_task
proof (relation "measure (\<lambda>(w, k, s). 2 * length s + (case k of Value d \<Rightarrow> 0 | _ \<Rightarrow> 1))", goal_cases)
  case (4 w d es s q t r k s')
  then show ?case using member_length [of s q t w k s'] by simp
next
  case (5 w d es s q t r k s' v r' c u)
  then show ?case using member_length [of s q t w k s'] by (auto dest!: value_length skip_ws_Cons_length)
next
  case (7 w d vs s p v r c u)
  then show ?case using skip_ws_length [of s] by (auto dest!: value_length skip_ws_Cons_length)
qed (auto simp add: skip_ws_length le_imp_less_Suc)

declare parse_task.simps [simp del]

subsection \<open>The documents\<close>

definition json_parse :: "bool \<Rightarrow> string \<Rightarrow> syntax_error + goval" where
  "json_parse w s =
     (case parse_task w (Value 0) (skip_ws s) of
        Inl (msg, r) \<Rightarrow> Inl \<lparr>se_offset = length s - length r, se_msg = msg\<rparr>
      | Inr (v, r) \<Rightarrow>
          if skip_ws r \<noteq> []
          then Inl \<lparr>se_offset = length s - length (skip_ws r), se_msg = ''Unexpected non-whitespace character after JSON''\<rparr>
          else Inr v)"

definition json_of :: "string \<Rightarrow> syntax_error + goval" where
  \<comment> \<open>\<open>Parse\<close>\<close>
  "json_of s = json_parse False s"

text \<open>
  \<open>DecodeUTF8\<close>: each maximal part of an encoding that cannot be continued becomes one U+FFFD. The
  lead byte says how many bytes follow and in which range the first of them lies.
\<close>

definition utf8_lead :: "nat \<Rightarrow> (nat \<times> nat \<times> nat) option" where
  "utf8_lead b =
     (if 0xC2 \<le> b \<and> b \<le> 0xDF then Some (1, 0x80, 0xBF)
      else if 0xE0 \<le> b \<and> b \<le> 0xEF then
        Some (2, if b = 0xE0 then 0xA0 else 0x80, if b = 0xED then 0x9F else 0xBF)
      else if 0xF0 \<le> b \<and> b \<le> 0xF4 then
        Some (3, if b = 0xF0 then 0x90 else 0x80, if b = 0xF4 then 0x8F else 0xBF)
      else None)"

fun continuation :: "nat \<Rightarrow> nat \<Rightarrow> nat \<Rightarrow> string \<Rightarrow> nat" where
  \<comment> \<open>how many of the bytes that should follow do\<close>
  "continuation need lo hi s =
     (case (need, s) of
        (Suc k, c # cs) \<Rightarrow> if lo \<le> byte c \<and> byte c \<le> hi then Suc (continuation k 0x80 0xBF cs) else 0
      | _ \<Rightarrow> 0)"

function decode_loop :: "string \<Rightarrow> string" where
  "decode_loop s =
     (case s of
        [] \<Rightarrow> []
      | c # cs \<Rightarrow>
          if byte c < 0x80 then c # decode_loop cs
          else
            (case utf8_lead (byte c) of
               None \<Rightarrow> replacement @ decode_loop cs
             | Some (need, lo, hi) \<Rightarrow>
                 let k = continuation need lo hi cs in
                 (if k < need then replacement else take (Suc k) s) @ decode_loop (drop k cs)))"
  by pat_completeness auto
termination
  by (relation "measure length") auto

definition decode_utf8 :: "string \<Rightarrow> string" where
  "decode_utf8 s = (if valid_utf8 s then s else decode_loop s)"

definition json_lossless :: "string \<Rightarrow> syntax_error + goval" where
  \<comment> \<open>\<open>ParseLossless\<close>\<close>
  "json_lossless s = json_parse True (if valid_utf8 s then s else decode_utf8 s)"

end
