(* ===== verification/Json_Roundtrip.thy ===== *)
theory Json_Roundtrip
  imports Json_Parser
begin

text \<open>
  What \<^const>\<open>stringify\<close> writes, the parser reads back: numbers, strings and values.
\<close>

subsection \<open>Numbers are read as they are written\<close>

definition ends :: "string \<Rightarrow> bool" where
  \<comment> \<open>what may follow a value\<close>
  "ends r = (case r of [] \<Rightarrow> True | c # _ \<Rightarrow> c \<in> {CHR '','', CHR '']'', CHR ''}''})"

lemma digit_run_append: "list_all is_digit ds \<Longrightarrow> (r = [] \<or> \<not> is_digit (hd r)) \<Longrightarrow> digit_run (ds @ r) = (ds, r)"
proof -
  assume "list_all is_digit ds" and r: "r = [] \<or> \<not> is_digit (hd r)"
  then have "\<forall>c \<in> set ds. is_digit c" by (simp add: list_all_iff)
  moreover have "takeWhile is_digit r = []" "dropWhile is_digit r = r" using r by (cases r; simp)+
  ultimately show ?thesis by (simp add: digit_run_def)
qed

definition stops :: "string \<Rightarrow> bool" where
  "stops r \<longleftrightarrow> (case r of [] \<Rightarrow> True | c # _ \<Rightarrow> \<not> is_digit c \<and> c \<notin> {CHR ''.'', CHR ''e'', CHR ''E''})"

lemma ends_stops: "ends r \<Longrightarrow> stops r"
  by (auto simp add: ends_def stops_def is_digit_def split: list.splits)

lemma exp_part_none: "stops r \<Longrightarrow> exp_part r = Inr (0, r)"
  by (auto simp add: exp_part_def stops_def split: list.splits)

lemma frac_part_none: "(r = [] \<or> hd r \<noteq> CHR ''.'') \<Longrightarrow> frac_part r = Inr ([], r)"
  by (auto simp add: frac_part_def split: list.splits)

lemma frac_part_some: "list_all is_digit f \<Longrightarrow> f \<noteq> [] \<Longrightarrow> (r = [] \<or> \<not> is_digit (hd r)) \<Longrightarrow> frac_part (CHR ''.'' # f @ r) = Inr (f, r)"
  by (simp add: frac_part_def digit_run_append)

lemma int_part_digits:
  "list_all is_digit i \<Longrightarrow> i \<noteq> [] \<Longrightarrow> hd i \<noteq> CHR ''0'' \<Longrightarrow> (r = [] \<or> \<not> is_digit (hd r)) \<Longrightarrow> int_part (i @ r) = Inr (i, r)"
  using digit_run_append [of i r] by (cases i) (auto simp add: int_part_def)

lemma exp_part_some:
  "stops r \<Longrightarrow> exp_part (CHR ''e'' # (if x < 0 then CHR ''-'' else CHR ''+'') # itoa \<bar>x\<bar> @ r) = Inr (x, r)"
proof -
  assume "stops r"
  then have r: "r = [] \<or> \<not> is_digit (hd r)" by (auto simp add: stops_def split: list.splits)
  have i: "itoa \<bar>x\<bar> = nat_digits (nat \<bar>x\<bar>)" by (simp add: itoa_def)
  have d: "digit_run (nat_digits (nat \<bar>x\<bar>) @ r) = (nat_digits (nat \<bar>x\<bar>), r)"
    by (rule digit_run_append [OF _ r]) (simp add: list_all_iff nat_digits_all_digits)
  show ?thesis unfolding i by (cases "x < 0") (use d in \<open>simp_all add: exp_part_def exp_sign_def\<close>)
qed

lemma parse_number_parts:
  assumes "int_part t = Inr (i, s1)" "frac_part s1 = Inr (f, s2)" "exp_part s2 = Inr (x, s3)" "t = [] \<or> hd t \<noteq> CHR ''-''"
  shows "parse_number ((if neg then ''-'' else []) @ t) = Inr (VFloat (float_of_decimal neg (i @ f) (x - int (length f))), s3)"
  using assms by (cases neg) (auto simp add: parse_number_def)

lemma hd_digits: "list_all is_digit i \<Longrightarrow> i \<noteq> [] \<Longrightarrow> i @ u = [] \<or> hd (i @ u) \<noteq> CHR ''-''"
  by (cases i) (auto simp add: is_digit_def)

lemma zeros_digits: "list_all is_digit (zeros k)"
  by (simp add: zeros_def list_all_iff is_digit_def)

lemma parse_number_finite:
  assumes d: "is_double (FFin neg ds e)" and r: "stops r"
  shows "parse_number (format_number (FFin neg ds e) @ r) = Inr (VFloat (FFin neg ds e), r)"
proof -
  define n where "n = e + 1"
  define k where "k = length ds"
  have ds: "ds \<noteq> []" "list_all is_digit ds" "hd ds \<noteq> CHR ''0''" using d by (simp_all add: is_double_def wf_float_def)
  have f: "float_of_decimal neg ds (n - int k) = FFin neg ds e"
    using is_doubleD [OF d] by (simp add: n_def k_def)
  have r': "r = [] \<or> \<not> is_digit (hd r)" "r = [] \<or> hd r \<noteq> CHR ''.''" "exp_part r = Inr (0, r)"
    using r exp_part_none [OF r] by (auto simp add: stops_def split: list.splits)
  have dot: "\<not> is_digit (CHR ''.'')" "\<not> is_digit (CHR ''e'')" by (simp_all add: is_digit_def)
  let ?out = "drop (if neg then 1 else 0) (format_number (FFin neg ds e))"
  have fmt: "format_number (FFin neg ds e) @ r = (if neg then ''-'' else []) @ ?out @ r"
    by (simp add: format_number_def Let_def)
  consider (whole) "int k \<le> n" "n \<le> 21" | (point) "n < int k" "0 < n" "n \<le> 21" | (small) "n \<le> 0" "- 6 < n"
    | (one) "n \<le> - 6 \<or> 21 < n" "k = 1" | (exp) "n \<le> - 6 \<or> 21 < n" "k \<noteq> 1"
    by linarith
  then show ?thesis
  proof cases
    case whole
    let ?i = "ds @ zeros (nat (n - int k))"
    have o: "?out = ?i" using whole by (simp add: format_number_def Let_def n_def k_def)
    have i: "int_part (?i @ r) = Inr (?i, r)"
      by (rule int_part_digits) (use ds r' in \<open>simp_all add: zeros_digits\<close>)
    have "float_of_decimal neg ?i 0 = FFin neg ds e"
      using float_of_decimal_zeros [of neg 0 ds "nat (n - int k)" 0] f whole by (simp add: zeros_def)
    moreover have "list_all is_digit ?i" "?i \<noteq> []" using ds by (simp_all add: zeros_digits)
    ultimately show ?thesis
      using parse_number_parts [OF i frac_part_none [OF r'(2)] r'(3) hd_digits, of neg] o fmt by simp
  next
    case point
    let ?i = "take (nat n) ds" and ?f = "drop (nat n) ds"
    have o: "?out = ?i @ ''.'' @ ?f" using point by (simp add: format_number_def Let_def n_def k_def)
    have p: "?i \<noteq> []" "?f \<noteq> []" "list_all is_digit ?i" "list_all is_digit ?f" "hd ?i \<noteq> CHR ''0''"
      using point ds by (auto simp add: k_def list_all_iff hd_take dest: in_set_takeD in_set_dropD)
    have i: "int_part (?i @ CHR ''.'' # ?f @ r) = Inr (?i, CHR ''.'' # ?f @ r)"
      by (rule int_part_digits) (use p dot in simp_all)
    have "0 - int (length ?f) = n - int k" using point by (simp add: k_def)
    with parse_number_parts [OF i frac_part_some [OF p(4,2) r'(1)] r'(3) hd_digits [OF p(3,1)], of neg] o fmt f
    show ?thesis by simp
  next
    case small
    let ?f = "zeros (nat (- n)) @ ds"
    have "\<not> int k \<le> n" using small ds(1) by (cases ds) (simp_all add: k_def)
    then have o: "?out = ''0.'' @ ?f" using small by (simp add: format_number_def Let_def flip: n_def k_def)
    have i: "int_part (''0.'' @ ?f @ r) = Inr (''0'', CHR ''.'' # ?f @ r)" by (simp add: int_part_def)
    have fr: "frac_part (CHR ''.'' # ?f @ r) = Inr (?f, r)"
      by (rule frac_part_some) (use ds r' in \<open>simp_all add: zeros_digits\<close>)
    have "''0'' @ ?f = zeros (Suc (nat (- n))) @ ds @ zeros 0" by (simp add: zeros_def)
    moreover have "0 - int (length ?f) + int 0 = n - int k" using small by (simp add: k_def zeros_def)
    ultimately have "float_of_decimal neg (''0'' @ ?f) (0 - int (length ?f)) = FFin neg ds e"
      using float_of_decimal_zeros [of neg "Suc (nat (- n))" ds 0 "0 - int (length ?f)"] f by (simp only:)
    with parse_number_parts [OF i fr r'(3), of neg] o fmt show ?thesis by simp
  next
    case one
    let ?x = "(if n - 1 < 0 then CHR ''-'' else CHR ''+'') # itoa \<bar>n - 1\<bar>"
    have o: "?out = ds @ CHR ''e'' # ?x" using one by (auto simp add: format_number_def Let_def n_def k_def)
    have i: "int_part (ds @ CHR ''e'' # ?x @ r) = Inr (ds, CHR ''e'' # ?x @ r)"
      by (rule int_part_digits) (use ds dot in simp_all)
    have fr: "frac_part (CHR ''e'' # ?x @ r) = Inr ([], CHR ''e'' # ?x @ r)" by (simp add: frac_part_def)
    have x: "exp_part (CHR ''e'' # ?x @ r) = Inr (n - 1, r)" using exp_part_some [OF r, of "n - 1"] by simp
    from parse_number_parts [OF i fr x hd_digits [OF ds(2,1)], of neg] o fmt f one show ?thesis by simp
  next
    case exp
    let ?x = "(if n - 1 < 0 then CHR ''-'' else CHR ''+'') # itoa \<bar>n - 1\<bar>"
    let ?i = "take 1 ds" and ?f = "drop 1 ds"
    have o: "?out = ?i @ ''.'' @ ?f @ CHR ''e'' # ?x" using exp by (auto simp add: format_number_def Let_def n_def k_def)
    have p: "?i \<noteq> []" "?f \<noteq> []" "list_all is_digit ?i" "list_all is_digit ?f" "hd ?i \<noteq> CHR ''0''"
      using exp ds by (cases ds; auto simp add: k_def)+
    have i: "int_part (?i @ CHR ''.'' # ?f @ CHR ''e'' # ?x @ r) = Inr (?i, CHR ''.'' # ?f @ CHR ''e'' # ?x @ r)"
      by (rule int_part_digits) (use p dot in simp_all)
    have fr: "frac_part (CHR ''.'' # ?f @ CHR ''e'' # ?x @ r) = Inr (?f, CHR ''e'' # ?x @ r)"
      by (rule frac_part_some) (use p dot in simp_all)
    have x: "exp_part (CHR ''e'' # ?x @ r) = Inr (n - 1, r)" using exp_part_some [OF r, of "n - 1"] by simp
    have s: "n - 1 - int (length ?f) = n - int k" using ds(1) by (cases ds) (simp_all add: k_def)
    with parse_number_parts [OF i fr x hd_digits [OF p(3,1)], of neg, unfolded s] o fmt f show ?thesis by simp
  qed
qed

subsection \<open>Strings are read as they are written\<close>

lemma str_loop_quote: "valid_utf8 acc \<Longrightarrow> str_loop w acc (CHR 0x22 # r) = Inr (acc, r)"
  by (simp add: str_loop.simps)

lemma hex_val_digit: "h < 16 \<Longrightarrow> hex_val (hex_digit h) = Some h"
  by (auto simp add: hex_val_def hex_digit_def Let_def)

lemma str_loop_control:
  assumes "byte c < 32"
  shows "str_loop w acc ([CHR 0x5C, CHR ''u'', CHR ''0'', CHR ''0'', hex_digit (byte c div 16), hex_digit (byte c mod 16)] @ r) =
    str_loop w (acc @ [c]) r"
proof -
  have "hex_val (CHR ''0'') = Some 0" by (simp add: hex_val_def Let_def)
  then have "hex4 (CHR ''0'' # CHR ''0'' # hex_digit (byte c div 16) # hex_digit (byte c mod 16) # r) = Some (byte c, r)"
    using assms by (simp add: hex_val_digit)
  then have "unicode_escape w (CHR ''0'' # CHR ''0'' # hex_digit (byte c div 16) # hex_digit (byte c mod 16) # r) = Some ([c], r)"
    using assms by (simp add: unicode_escape_def is_surrogate_def utf8_encode_def)
  then show ?thesis
    by (subst str_loop.simps) (simp add: simple_escape_def)
qed

lemma byte_eqD: "byte c = byte d \<Longrightarrow> c = d"
  by simp

lemma str_loop_escape: "str_loop w acc (escape_byte c @ r) = str_loop w (acc @ [c]) r"
proof (cases "byte c < 32 \<and> byte c \<notin> {8, 9, 10, 12, 13}")
  case True
  then have "escape_byte c = [CHR 0x5C, CHR ''u'', CHR ''0'', CHR ''0'', hex_digit (byte c div 16), hex_digit (byte c mod 16)]"
    by (auto simp add: escape_byte_def)
  with str_loop_control [of c] True show ?thesis by simp
next
  case False
  consider "c = CHR 0x22" | "c = CHR 0x5C" | "c = CHR 0x08" | "c = CHR 0x09" | "c = CHR 0x0A" | "c = CHR 0x0C" | "c = CHR 0x0D"
    | (plain) "32 \<le> byte c" "c \<noteq> CHR 0x22" "c \<noteq> CHR 0x5C"
  proof -
    have "char_of (8::nat) = CHR 0x08" "char_of (9::nat) = CHR 0x09" "char_of (10::nat) = CHR 0x0A"
      "char_of (12::nat) = CHR 0x0C" "char_of (13::nat) = CHR 0x0D" by code_simp+
    then have "byte c = 8 \<Longrightarrow> c = CHR 0x08" "byte c = 9 \<Longrightarrow> c = CHR 0x09" "byte c = 10 \<Longrightarrow> c = CHR 0x0A"
      "byte c = 12 \<Longrightarrow> c = CHR 0x0C" "byte c = 13 \<Longrightarrow> c = CHR 0x0D"
      using byte_eqD [of c] by (metis char_of_char)+
    moreover have "32 \<le> byte c \<or> byte c = 8 \<or> byte c = 9 \<or> byte c = 10 \<or> byte c = 12 \<or> byte c = 13"
      using False by fastforce
    ultimately show thesis using that by blast
  qed
  then show ?thesis
  proof cases
    case plain
    then have "escape_byte c = [c]" by (auto simp add: escape_byte_def)
    with plain show ?thesis by (simp add: str_loop.simps [of w acc "c # r"])
  qed (simp_all add: escape_byte_def str_loop.simps [of w acc "_ # _"] simple_escape_def)
qed

lemma str_loop_escapes: "str_loop w acc (concat (map escape_byte s) @ r) = str_loop w (acc @ s) r"
  by (induction s arbitrary: acc) (simp_all add: str_loop_escape)

lemma str_loop_plain: "\<forall>c \<in> set p. plain c \<Longrightarrow> str_loop w acc (p @ r) = str_loop w (acc @ p) r"
  by (induction p arbitrary: acc) (simp_all add: plain_def str_loop.simps [of w _ "_ # _"])

lemma parse_str_loop:
  assumes "str_loop w [] s = Inr (x, r)" "valid_utf8 x"
  shows "parse_str w s = Inr (x, r)"
proof -
  have "str_loop w [] (takeWhile plain s @ dropWhile plain s) = str_loop w ([] @ takeWhile plain s) (dropWhile plain s)"
    by (rule str_loop_plain) (auto dest: set_takeWhileD)
  then have l: "str_loop w (takeWhile plain s) (dropWhile plain s) = Inr (x, r)" using assms(1) by simp
  show ?thesis
  proof (cases "dropWhile plain s")
    case Nil
    with l show ?thesis by (simp add: parse_str_def Let_def del: dropWhile_eq_Nil_conv)
  next
    case (Cons c cs)
    with l assms(2) show ?thesis
      by (auto simp add: parse_str_def Let_def str_loop.simps [of w _ "CHR 0x22 # _"] split: if_splits)
  qed
qed

lemma parse_str_quote: "valid_utf8 s \<Longrightarrow> parse_str w (tl (json_quote s) @ r) = Inr (s, r)"
  by (rule parse_str_loop) (simp_all add: json_quote_def str_loop_escapes str_loop_quote)

subsection \<open>Values are read as they are written\<close>

text \<open>
  The values of the JSON model, what \<open>JSON.parse(JSON.stringify(v))\<close> makes of them, and the values
  that stay within the parser's nesting limit.
\<close>

fun json_value :: "goval \<Rightarrow> bool" where
  "json_value (VFloat f) = is_double f"
| "json_value (VStr s) = valid_utf8 s"
| "json_value (VList vs) = (\<forall>v \<in> set vs. json_value v)"
| "json_value (VObj es) = (distinct (map fst es) \<and> (\<forall>e \<in> set es. valid_utf8 (fst e) \<and> json_value (snd e)))"
| "json_value v = (v \<in> {VNil, VNull, VBool True, VBool False})"

fun json_canon :: "goval \<Rightarrow> goval" where
  "json_canon VNull = VNil"
| "json_canon (VFloat f) =
     (case f of FNaN \<Rightarrow> VNil | FInf neg \<Rightarrow> VNil | FZero neg \<Rightarrow> VFloat (FZero False) | _ \<Rightarrow> VFloat f)"
| "json_canon (VList vs) = VList (map json_canon vs)"
| "json_canon (VObj es) = VObj (js_entries (map (\<lambda>(k, v). (k, json_canon v)) es))"
| "json_canon v = v"

fun fits :: "nat \<Rightarrow> goval \<Rightarrow> bool" where
  "fits d (VList vs) = (d \<le> max_depth \<and> (\<forall>v \<in> set vs. fits (d + 1) v))"
| "fits d (VObj es) = (d \<le> max_depth \<and> (\<forall>e \<in> set es. fits (d + 1) (snd e)))"
| "fits d v = (d \<le> max_depth)"

lemma js_entries_map: "js_entries (map (\<lambda>(k, v). (k, f k v)) es) = map (\<lambda>(k, v). (k, f k v)) (js_entries es)"
proof -
  have k: "dec_value \<circ> fst \<circ> (\<lambda>(k, v). (k, f k v)) = dec_value \<circ> fst" by auto
  have "filter (\<lambda>e. P (fst e)) (map (\<lambda>(k, v). (k, f k v)) es) = map (\<lambda>(k, v). (k, f k v)) (filter (\<lambda>e. P (fst e)) es)" for P
    by (induction es) auto
  moreover have "sort_key (\<lambda>e. dec_value (fst e)) (map (\<lambda>(k, v). (k, f k v)) xs) =
      map (\<lambda>(k, v). (k, f k v)) (sort_key (\<lambda>e. dec_value (fst e)) xs)" for xs
    using sort_key_map [of "\<lambda>e. dec_value (fst e)" "\<lambda>(k, v). (k, f k v)" xs] by (simp add: case_prod_unfold)
  ultimately show ?thesis by (simp add: js_entries_def)
qed

lemma distinct_js_entries: "distinct (map fst es) \<Longrightarrow> distinct (map fst (js_entries es))"
proof -
  assume d: "distinct (map fst es)"
  then have "distinct es" by (simp add: distinct_map)
  then have "distinct (js_entries es)" by (auto simp add: js_entries_def)
  moreover have "inj_on fst (set (js_entries es))" using d by (simp add: set_js_entries distinct_map)
  ultimately show ?thesis by (simp add: distinct_map)
qed

text \<open>Nothing \<open>Stringify\<close> writes starts with white space or a closing bracket.\<close>

definition starts :: "string \<Rightarrow> bool" where
  "starts s = (case s of [] \<Rightarrow> False | c # _ \<Rightarrow> 0x20 < byte c \<and> c \<notin> {CHR '']'', CHR ''}''})"

lemma skip_ws_starts: "starts s \<Longrightarrow> skip_ws (s @ r) = s @ r"
  by (cases s) (auto simp add: starts_def skip_ws_def)

lemma skip_ws_Cons: "0x20 < byte c \<Longrightarrow> skip_ws (c # r) = c # r"
  by (auto simp add: skip_ws_def)

lemma starts_quote: "starts (json_quote s)"
  by (simp add: starts_def json_quote_def)

lemma starts_digits: "list_all is_digit ds \<Longrightarrow> ds \<noteq> [] \<Longrightarrow> starts (ds @ u)"
  by (cases ds) (auto simp add: starts_def is_digit_def)


lemma parse_number_starts: "parse_number (s @ r) = Inr (v, r) \<Longrightarrow> s \<noteq> [] \<and> (hd s = CHR ''-'' \<or> is_digit (hd s))"
proof -
  assume p: "parse_number (s @ r) = Inr (v, r)"
  from parse_number_length [OF p] have s: "s \<noteq> []" by auto
  with p have "hd s \<noteq> CHR ''-'' \<Longrightarrow> is_digit (hd s)"
    by (cases s) (auto simp add: parse_number_def int_part_def is_digit_def split: if_splits)
  with s show ?thesis by blast
qed

lemma number_starts: "s \<noteq> [] \<Longrightarrow> hd s = CHR ''-'' \<or> is_digit (hd s) \<Longrightarrow> starts s"
  by (cases s) (auto simp add: starts_def is_digit_def)

lemma parse_write_number:
  assumes "is_double f" "stops r" "f \<noteq> FNaN" "\<And>neg. f \<noteq> FInf neg"
  shows "parse_number (write_number f @ r) = Inr (json_canon (VFloat f), r)"
proof (cases f)
  case (FZero neg)
  have "float_of_decimal False ''0'' 0 = FZero False"
    by (simp add: float_of_decimal_def dec_ratio_def dec_value_def to_binary_def to_float_def)
  moreover have "int_part (''0'' @ r) = Inr (''0'', r)" by (simp add: int_part_def)
  moreover have "frac_part r = Inr ([], r)" using assms(2) by (intro frac_part_none) (auto simp add: stops_def split: list.splits)
  ultimately show ?thesis
    using parse_number_parts [of "''0'' @ r" "''0''" r "[]" r 0 r False] exp_part_none [OF assms(2)] FZero
    by (simp add: write_number_def format_number_def)
next
  case (FFin neg ds e)
  with parse_number_finite [of neg ds e r] assms show ?thesis by (simp add: write_number_def)
qed (use assms in auto)

lemma starts_stringify: "json_value v \<Longrightarrow> starts (stringify v)"
proof (cases v)
  case (VFloat f)
  assume "json_value v"
  show ?thesis
  proof (cases "f = FNaN \<or> (\<exists>neg. f = FInf neg)")
    case True
    with VFloat show ?thesis by (auto simp add: write_number_def starts_def)
  next
    case False
    have "stops []" by (simp add: stops_def)
    with \<open>json_value v\<close> False VFloat have "parse_number (write_number f @ []) = Inr (json_canon (VFloat f), [])"
      by (intro parse_write_number) auto
    from number_starts [OF conjunct1 [OF parse_number_starts [OF this]] conjunct2 [OF parse_number_starts [OF this]]]
    show ?thesis using VFloat by simp
  qed
qed (auto simp add: starts_def starts_quote [unfolded starts_def] id_json_def ref_json_def)

lemma alist_set_new: "k \<notin> fst ` set es \<Longrightarrow> alist_set k v es = es @ [(k, v)]"
  by (induction es) auto

text \<open>The loops of \<open>array\<close> and \<open>object\<close>, once their elements are read.\<close>

lemma parse_elements:
  assumes "\<And>v r. v \<in> set vs \<Longrightarrow> ends r \<Longrightarrow> parse_task w (Value (d + 1)) (stringify v @ r) = Inr (json_canon v, r)"
    and "\<And>v. v \<in> set vs \<Longrightarrow> json_value v" "vs \<noteq> []"
  shows "parse_task w (Elements d us) (join '','' (map stringify vs) @ '']'' @ r) = Inr (VList (us @ map json_canon vs), r)"
  using assms
proof (induction vs arbitrary: us)
  case (Cons v vs)
  note el = Cons.prems(1) [of v, simplified] skip_ws_starts [OF starts_stringify [OF Cons.prems(2) [of v, simplified]]]
  show ?case
  proof (cases vs)
    case Nil
    with el show ?thesis by (simp add: parse_task.simps(3) [of w d us "_ @ _"] ends_def skip_ws_Cons)
  next
    case (Cons v' vs')
    then have "parse_task w (Elements d (us @ [json_canon v])) (join '','' (map stringify vs) @ '']'' @ r) =
        Inr (VList ((us @ [json_canon v]) @ map json_canon vs), r)"
      using Cons.prems by (intro Cons.IH) auto
    with el Cons show ?thesis
      by (simp add: parse_task.simps(3) [of w d us "_ @ _"] ends_def skip_ws_Cons)
  qed
qed simp


lemma parse_members:
  assumes "\<And>e r. e \<in> set es \<Longrightarrow> ends r \<Longrightarrow>
      parse_task w (Value (d + 1)) (stringify (snd e) @ r) = Inr (json_canon (snd e), r)"
    and "\<And>e. e \<in> set es \<Longrightarrow> valid_utf8 (fst e) \<and> json_value (snd e)"
    and "distinct (map fst es)" "fst ` set es \<inter> fst ` set fs = {}" "es \<noteq> []"
  shows "parse_task w (Members d fs) (join '','' (map (\<lambda>(k, v). json_quote k @ '':'' @ stringify v) es) @ ''}'' @ r) =
    Inr (VObj (fs @ map (\<lambda>(k, v). (k, json_canon v)) es), r)"
  using assms
proof (induction es arbitrary: fs)
  case (Cons e es)
  obtain k v where e: "e = (k, v)" by force
  have k: "valid_utf8 k" "json_value v" using Cons.prems(2) [of e] e by simp_all
  have el: "ends u \<Longrightarrow> parse_task w (Value (d + 1)) (stringify v @ u) = Inr (json_canon v, u)"
    "skip_ws (stringify v @ u) = stringify v @ u" for u
    using Cons.prems(1) [of e u] e skip_ws_starts [OF starts_stringify [OF k(2)]] by simp_all
  have q: "json_quote k = CHR 0x22 # tl (json_quote k)" by (simp add: json_quote_def)
  have new: "alist_set k (json_canon v) fs = fs @ [(k, json_canon v)]"
    using Cons.prems(4) e by (intro alist_set_new) auto
  have step: "parse_task w (Members d fs) (json_quote k @ '':'' @ stringify v @ u) =
     (case parse_task w (Value (d + 1)) (stringify v @ u) of
        Inl e \<Rightarrow> Inl e
      | Inr (v, r') \<Rightarrow>
          (case skip_ws r' of
             [] \<Rightarrow> Inl (''Unexpected end of JSON input'', [])
           | c # u \<Rightarrow>
               if c = CHR '','' then parse_task w (Members d (alist_set k v fs)) u
               else if c = CHR ''}'' then Inr (VObj (alist_set k v fs), u)
               else Inl (''Expected ',' or '}' after property value'', c # u)))" for u
    by (subst q) (simp add: parse_task.simps(2) parse_str_quote [OF k(1)] skip_ws_Cons has_prefix_def el(2))
  show ?case
  proof (cases es)
    case Nil
    with step [of "''}'' @ r"] el(1) e new show ?thesis by (simp add: ends_def skip_ws_Cons)
  next
    case (Cons e' es')
    then have "parse_task w (Members d (fs @ [(k, json_canon v)]))
        (join '','' (map (\<lambda>(k, v). json_quote k @ '':'' @ stringify v) es) @ ''}'' @ r) =
      Inr (VObj ((fs @ [(k, json_canon v)]) @ map (\<lambda>(k, v). (k, json_canon v)) es), r)"
      using Cons.prems e by (intro Cons.IH) auto
    with step [of "'','' @ join '','' (map (\<lambda>(k, v). json_quote k @ '':'' @ stringify v) es) @ ''}'' @ r"] el(1) e new Cons
    show ?thesis by (simp add: ends_def skip_ws_Cons)
  qed
qed simp

lemma stringify_obj:
  "stringify (VObj es) = ''{'' @ join '','' (map (\<lambda>(k, v). json_quote k @ '':'' @ stringify v) (js_entries es)) @ ''}''"
proof -
  have "js_entries (map (\<lambda>(k, v). (k, json_quote k @ '':'' @ stringify v)) es) =
      map (\<lambda>(k, v). (k, json_quote k @ '':'' @ stringify v)) (js_entries es)"
    by (rule js_entries_map)
  then show ?thesis by (simp add: o_def case_prod_unfold)
qed

lemma number_char:
  "c = CHR ''-'' \<or> is_digit c \<Longrightarrow> c \<noteq> CHR ''{'' \<and> c \<noteq> CHR ''['' \<and> c \<noteq> CHR 0x22 \<and> c \<noteq> CHR ''t'' \<and> c \<noteq> CHR ''f'' \<and> c \<noteq> CHR ''n''"
  by (auto simp add: is_digit_def)

lemma parse_value_dispatch:
  assumes "s \<noteq> []" "hd s = CHR ''-'' \<or> is_digit (hd s)" "d \<le> max_depth"
  shows "parse_task w (Value d) (s @ r) = parse_number (s @ r)"
proof -
  obtain c cs where s: "s = c # cs" using assms(1) by (cases s) auto
  with number_char [of c] assms show ?thesis by (simp add: parse_task.simps(1))
qed

lemma parse_stringify:
  "json_value v \<Longrightarrow> fits d v \<Longrightarrow> ends r \<Longrightarrow> parse_task w (Value d) (stringify v @ r) = Inr (json_canon v, r)"
proof (induction v arbitrary: d r)
  case (VFloat f)
  show ?case
  proof (cases "f = FNaN \<or> (\<exists>neg. f = FInf neg)")
    case True
    with VFloat.prems show ?thesis by (auto simp add: write_number_def parse_task.simps(1) parse_lit_def has_prefix_def)
  next
    case False
    with VFloat.prems have "parse_number (write_number f @ r) = Inr (json_canon (VFloat f), r)"
      by (intro parse_write_number ends_stops) auto
    with parse_value_dispatch [of "write_number f" d w r] parse_number_starts [OF this] VFloat.prems show ?thesis by simp
  qed
next
  case (VStr s)
  then have "parse_str w (tl (json_quote s) @ r) = Inr (s, r)" by (intro parse_str_quote) simp
  moreover have q: "stringify (VStr s) @ r = CHR 0x22 # tl (json_quote s) @ r" by (simp add: json_quote_def)
  ultimately show ?case using VStr.prems unfolding q by (simp add: parse_task.simps(1))
next
  case (VList vs)
  show ?case
  proof (cases "vs = []")
    case True
    with VList.prems show ?thesis by (simp add: parse_task.simps(1) skip_ws_Cons has_prefix_def)
  next
    case False
    have l: "parse_task w (Elements d []) (join '','' (map stringify vs) @ '']'' @ r) = Inr (VList ([] @ map json_canon vs), r)"
      by (rule parse_elements) (use VList False in auto)
    obtain v us where vs: "vs = v # us" using False by (cases vs) auto
    with VList.prems have st: "starts (join '','' (map stringify vs) @ '']'' @ r)"
      using starts_stringify [of v] by (cases us) (auto simp add: starts_def split: list.splits)
    from skip_ws_starts [OF this, of "[]"]
    have "skip_ws (join '','' (map stringify vs) @ '']'' @ r) = join '','' (map stringify vs) @ '']'' @ r" by simp
    moreover have "\<not> has_prefix '']'' s" if "starts s" for s
      using that by (cases s) (auto simp add: starts_def has_prefix_def)
    note this [OF st]
    ultimately have "skip_ws (join '','' (map stringify vs) @ '']'' @ r) = join '','' (map stringify vs) @ '']'' @ r"
      "\<not> has_prefix '']'' (join '','' (map stringify vs) @ '']'' @ r)" by blast+
    with l VList.prems show ?thesis by (simp add: parse_task.simps(1))
  qed
next
  case (VObj es)
  show ?case
  proof (cases "es = []")
    case True
    with VObj.prems show ?thesis by (simp add: parse_task.simps(1) skip_ws_Cons has_prefix_def js_entries_def)
  next
    case False
    let ?es = "js_entries es" and ?body = "join '','' (map (\<lambda>(k, v). json_quote k @ '':'' @ stringify v) (js_entries es)) @ ''}'' @ r"
    have "?es \<noteq> []" using False set_js_entries [of es] by auto
    then obtain k v us where es: "?es = (k, v) # us" by (cases ?es) auto
    have l: "parse_task w (Members d []) ?body = Inr (VObj ([] @ map (\<lambda>(k, v). (k, json_canon v)) ?es), r)"
    proof (rule parse_members)
      show "distinct (map fst ?es)" using VObj.prems by (intro distinct_js_entries) simp
    next
      fix e r
      assume "e \<in> set ?es" "ends r"
      then have "e \<in> set es" "snd e \<in> Basic_BNFs.snds e" by (auto simp add: set_js_entries snds.simps)
      with VObj.IH [OF this] VObj.prems \<open>ends r\<close>
      show "parse_task w (Value (d + 1)) (stringify (snd e) @ r) = Inr (json_canon (snd e), r)" by simp
    next
      fix e
      assume "e \<in> set ?es"
      then have "e \<in> set es" by (simp only: set_js_entries)
      with VObj.prems show "valid_utf8 (fst e) \<and> json_value (snd e)" by simp
    qed (simp_all add: es)
    have "\<exists>u. ?body = json_quote k @ u" using es by (cases us) auto
    then obtain u where u: "?body = CHR 0x22 # u" by (auto simp add: json_quote_def)
    then have "skip_ws ?body = ?body" "\<not> has_prefix ''}'' ?body" by (simp_all add: skip_ws_Cons has_prefix_def)
    moreover have "stringify (VObj es) @ r = CHR ''{'' # ?body" by (simp add: stringify_obj del: stringify.simps)
    ultimately show ?thesis using l VObj.prems by (simp add: parse_task.simps(1) js_entries_map del: stringify.simps)
  qed
qed (auto simp add: parse_task.simps(1) parse_lit_def has_prefix_def)

subsection \<open>What the parser answers\<close>

lemma decode_rune_take:
  assumes "decode_rune s = (r, k)" "r \<noteq> 0xFFFD \<or> k \<noteq> 1" "s \<noteq> []"
  shows "k \<le> length s" "decode_rune (take k s @ t) = (r, k)"
proof -
  obtain c cs where s: "s = c # cs" using assms(3) by (cases s) auto
  show "k \<le> length s" "decode_rune (take k s @ t) = (r, k)"
    using assms(1,2) unfolding s by (auto simp add: decode_rune_def Let_def cont_def low6_def nth_append Suc_le_eq split: if_splits)
qed


lemma valid_utf8_append: "valid_utf8 s \<Longrightarrow> valid_utf8 (s @ t) \<longleftrightarrow> valid_utf8 t"
proof (induction s rule: valid_utf8.induct)
  case (1 s)
  show ?case
  proof (cases "s = []")
    case False
    obtain r k where rk: "decode_rune s = (r, k)" by force
    from "1.prems" False rk have ne: "r \<noteq> 0xFFFD \<or> k \<noteq> 1" and v: "valid_utf8 (drop k s)"
      by (simp_all add: valid_utf8.simps [of s])
    from decode_rune_take(1) [OF rk ne False] have k: "k \<le> length s" .
    have "decode_rune (take k s @ drop k s @ t) = (r, k)" by (rule decode_rune_take(2) [OF rk ne False])
    then have d: "decode_rune (s @ t) = (r, k)" by (simp flip: append_assoc)
    have "valid_utf8 (s @ t) \<longleftrightarrow> valid_utf8 (drop k s @ t)"
      using False d ne k by (subst valid_utf8.simps) auto
    with "1.IH" False v rk ne show ?thesis by (simp add: "1.IH" ne)
  qed simp
qed

lemma valid_utf8_take: "decode_rune s = (r, k) \<Longrightarrow> r \<noteq> 0xFFFD \<or> k \<noteq> 1 \<Longrightarrow> s \<noteq> [] \<Longrightarrow> valid_utf8 (take k s)"
proof -
  assume a: "decode_rune s = (r, k)" "r \<noteq> 0xFFFD \<or> k \<noteq> 1" "s \<noteq> []"
  have "decode_rune (take k s) = (r, k)" using decode_rune_take(2) [OF a, of "[]"] by simp
  moreover have "drop k (take k s) = []" by simp
  ultimately show ?thesis using a(2) by (subst valid_utf8.simps) (auto simp add: valid_utf8.simps [of "[]"])
qed

lemma valid_replacement: "valid_utf8 replacement"
  by (simp add: replacement_def valid_utf8.simps decode_rune_def cont_def)

lemma to_valid_valid: "valid_utf8 (to_valid run s)"
proof (induction run s rule: to_valid.induct)
  case (1 run s)
  obtain r k where rk: "decode_rune s = (r, k)" by force
  show ?case
  proof (cases "s = []")
    case True
    then show ?thesis by (simp add: to_valid.simps valid_utf8.simps [of "[]"])
  next
    case False
    show ?thesis
    proof (cases "(r, k) = (0xFFFD, 1)")
      case True
      with False rk "1.IH"(1) show ?thesis
        by (simp add: to_valid.simps [of run s] valid_utf8_append valid_replacement)
    next
      case ne: False
      with False rk "1.IH"(2) valid_utf8_take [OF rk _ False] show ?thesis
        by (auto simp add: to_valid.simps [of run s] valid_utf8_append)
    qed
  qed
qed

lemma str_loop_valid: "answers (\<lambda>x _. valid_utf8 x) (str_loop False acc s)"
proof (induction s arbitrary: acc rule: length_induct)
  case (1 s)
  have "answers (\<lambda>x _. valid_utf8 x) (str_loop False acc' u)" if "length u < length s" for acc' u
    using 1 that by blast
  then show ?case
    by (subst str_loop.simps)
      (auto simp add: answers_Inl to_valid_utf8_def to_valid_valid split: list.split option.split
        intro!: answers_Inr dest: unicode_escape_length)
qed

lemma parse_str_valid: "parse_str False s = Inr (x, r) \<Longrightarrow> valid_utf8 x"
proof -
  have "answers (\<lambda>x _. valid_utf8 x) (parse_str False s)"
    unfolding parse_str_def Let_def
    by (intro answers_intros str_loop_valid answers_Inr) (simp add: to_valid_utf8_def to_valid_valid)
  then show "parse_str False s = Inr (x, r) \<Longrightarrow> valid_utf8 x" by (rule answersD)
qed

lemma parse_number_double: "answers (\<lambda>v _. \<exists>f. v = VFloat f \<and> is_double f) (parse_number s)"
  unfolding parse_number_def Let_def by (intro answers_intros answers_Inr) (simp add: float_of_decimal_double)

definition entries_ok :: "nat \<Rightarrow> (string \<times> goval) list \<Rightarrow> bool" where
  "entries_ok d es \<longleftrightarrow> distinct (map fst es) \<and> (\<forall>e \<in> set es. valid_utf8 (fst e) \<and> json_value (snd e) \<and> fits (d + 1) (snd e))"

fun task_ok :: "task \<Rightarrow> bool" where
  "task_ok (Value d) = True"
| "task_ok (Members d es) = (d \<le> max_depth \<and> entries_ok d es)"
| "task_ok (Elements d vs) = (d \<le> max_depth \<and> (\<forall>v \<in> set vs. json_value v \<and> fits (d + 1) v))"

fun task_depth :: "task \<Rightarrow> nat" where
  "task_depth (Value d) = d" | "task_depth (Members d es) = d" | "task_depth (Elements d vs) = d"

lemma set_alist_set: "set (alist_set k v es) \<subseteq> insert (k, v) (set es)"
proof (induction es)
  case (Cons e es)
  then show ?case by (cases e) (auto split: if_splits)
qed simp

lemma distinct_alist_set: "distinct (map fst es) \<Longrightarrow> distinct (map fst (alist_set k v es))"
proof (induction es)
  case (Cons e es)
  have "fst ` set (alist_set k v es) \<subseteq> insert k (fst ` set es)" using set_alist_set [of k v es] by auto
  with Cons show ?case by (cases e) auto
qed simp

lemma entries_ok_set:
  "entries_ok d es \<Longrightarrow> valid_utf8 k \<Longrightarrow> json_value v \<Longrightarrow> fits (d + 1) v \<Longrightarrow> entries_ok d (alist_set k v es)"
  using set_alist_set [of k v es] by (fastforce simp add: entries_ok_def distinct_alist_set)

lemma parse_task_typed:
  "task_ok k \<Longrightarrow> answers (\<lambda>v _. json_value v \<and> fits (task_depth k) v) (parse_task False k s)"
proof (induction "False" k s rule: parse_task.induct)
  case (1 d s)
  let ?Q = "\<lambda>v (_::string). json_value v \<and> fits d v"
  have lit: "answers ?Q (parse_lit word v s)" if "json_value v" "fits d v" for word v
    using that by (simp add: parse_lit_def answers_def)
  have num: "answers ?Q (parse_number s)" if "\<not> max_depth < d"
    by (rule answers_mono [OF parse_number_double]) (use that in auto)
  show ?case unfolding task_depth.simps
  proof (subst parse_task.simps(1), intro answers_intros, goal_cases)
    case (2 c cs)
    from "1.hyps"(1) [OF this] 2(1) show ?case by (simp add: entries_ok_def)
  next
    case (4 c cs)
    from "1.hyps"(2) [OF this] 4(1) show ?case by simp
  next
    case (5 c cs x r)
    from parse_str_valid [OF 5(6)] 5(1) show ?case by (simp add: answers_Inr)
  qed ((rule lit; simp) | (rule num, assumption) | simp add: answers_Inr)+
next
  case (2 d es s)
  have ok: "entries_ok d (alist_set k v es) \<and> d \<le> max_depth"
    if "skip_ws s = q # t" "\<not> q \<noteq> CHR 0x22" "parse_str False t = Inr (k, r)" "\<not> \<not> has_prefix '':'' (skip_ws r)"
      "parse_task False (Value (d + 1)) (skip_ws (tl (skip_ws r))) = Inr (v, r')" for q t k r v r'
    using answersD [OF "2.hyps"(1) [OF that(1-3) refl that(4)] that(5)] parse_str_valid [OF that(3)] "2.prems"
    by (simp add: entries_ok_set)
  show ?case unfolding task_depth.simps
  proof (subst parse_task.simps(2), intro answers_intros, goal_cases)
    case (1 q t k r v r' c u)
    from "2.hyps"(2) [OF 1(1-3) refl 1(4,5) refl 1(6,7)] ok [OF 1(1-5)] show ?case by simp
  next
    case (2 q t k r v r' c u)
    from ok [OF 2(1-5)] show ?case by (simp add: answers_Inr entries_ok_def)
  qed
next
  case (3 d vs s)
  have ok: "json_value v \<and> fits (d + 1) v" if "parse_task False (Value (d + 1)) (skip_ws s) = Inr (v, r)" for v r
    using answersD [OF "3.hyps"(1) that] by simp
  show ?case unfolding task_depth.simps
  proof (subst parse_task.simps(3), intro answers_intros, goal_cases)
    case (1 v r c u)
    from "3.hyps"(2) [OF 1(1) refl 1(2,3)] ok [OF 1(1)] "3.prems" show ?case by auto
  next
    case (2 v r c u)
    from ok [OF 2(1)] "3.prems" show ?case by (auto intro: answers_Inr)
  qed
qed

lemma json_of_typed: "json_of s = Inr v \<Longrightarrow> json_value v \<and> fits 0 v"
proof -
  assume "json_of s = Inr v"
  then obtain r where "parse_task False (Value 0) (skip_ws s) = Inr (v, r)"
    by (auto simp add: json_of_def json_parse_def split: sum.splits if_splits)
  with answersD [OF parse_task_typed [of "Value 0"] this] show ?thesis by simp
qed

subsection \<open>The canonical value\<close>

lemma js_entries_idem: "js_entries (js_entries es) = js_entries es"
proof -
  let ?s = "sort_key (\<lambda>e. dec_value (fst e)) (filter (\<lambda>e. is_array_index (fst e)) es)"
  have "filter (\<lambda>e. is_array_index (fst e)) ?s = ?s" "filter (\<lambda>e. \<not> is_array_index (fst e)) ?s = []"
    by (auto simp add: filter_id_conv filter_empty_conv)
  moreover have "sort_key (\<lambda>e. dec_value (fst e)) ?s = ?s" by (rule sort_key_id_if_sorted) simp
  ultimately show ?thesis by (simp add: js_entries_def)
qed

lemma stringify_canon: "json_value v \<Longrightarrow> stringify (json_canon v) = stringify v"
proof (induction v)
  case (VFloat f)
  then show ?case by (cases f) (simp_all add: write_number_def format_number_def)
next
  case (VList vs)
  then have "map stringify (map json_canon vs) = map stringify vs" by simp
  then show ?case by (simp only: stringify.simps json_canon.simps)
next
  case (VObj es)
  have v: "stringify (json_canon v) = stringify v" if "(k, v) \<in> set es" for k v
    using VObj.IH [OF that, of v] VObj.prems that by (force simp add: snds.simps)
  have "js_entries (js_entries (map (\<lambda>(k, v). (k, json_canon v)) es)) = map (\<lambda>(k, v). (k, json_canon v)) (js_entries es)"
    by (simp add: js_entries_idem js_entries_map)
  moreover have "map (\<lambda>(k, v). json_quote k @ '':'' @ stringify v) (map (\<lambda>(k, v). (k, json_canon v)) (js_entries es)) =
      map (\<lambda>(k, v). json_quote k @ '':'' @ stringify v) (js_entries es)"
    using v by (auto simp add: set_js_entries)
  ultimately show ?case by (simp only: json_canon.simps stringify_obj)
qed simp_all

lemma stringify_parse:
  assumes "json_value v" "fits 0 v"
  shows "json_parse w (stringify v) = Inr (json_canon v) \<and> stringify (json_canon v) = stringify v"
proof -
  have "parse_task w (Value 0) (stringify v @ []) = Inr (json_canon v, [])"
    by (rule parse_stringify [OF assms]) (simp add: ends_def)
  moreover have "skip_ws (stringify v @ []) = stringify v @ []" by (rule skip_ws_starts [OF starts_stringify [OF assms(1)]])
  ultimately show ?thesis using stringify_canon [OF assms(1)] by (simp add: json_parse_def skip_ws_def)
qed

subsection \<open>What \<open>Stringify\<close> writes is UTF-8\<close>

lemma take_high:
  assumes "\<And>i. i < k \<Longrightarrow> i < length s \<Longrightarrow> 0x80 \<le> byte (s ! i)"
  shows "\<forall>c \<in> set (take k s). 0x80 \<le> byte c"
  using assms by (metis in_set_conv_nth length_take min_less_iff_conj nth_take)

lemma decode_rune_bytes:
  assumes "decode_rune s = (r, k)" "r \<noteq> 0xFFFD \<or> k \<noteq> 1" "s \<noteq> []"
  shows "if k = 1 then byte (hd s) < 0x80 else (\<forall>c \<in> set (take k s). 0x80 \<le> byte c)"
proof -
  obtain c cs where s: "s = c # cs" using assms(3) by (cases s) auto
  define lo where "lo = (if byte c = 0xE0 then 0xA0 else if byte c = 0xF0 then 0x90 else (0x80::nat))"
  have lo: "0x80 \<le> lo" by (simp add: lo_def)
  consider "k = 1" "byte c < 0x80" | "k = 2" "0xC2 \<le> byte c" "0x80 \<le> byte (s ! 1)"
    | "k = 3" "0xE0 \<le> byte c" "lo \<le> byte (s ! 1)" "0x80 \<le> byte (s ! 2)"
    | "k = 4" "0xF0 \<le> byte c" "lo \<le> byte (s ! 1)" "0x80 \<le> byte (s ! 2)" "0x80 \<le> byte (s ! 3)"
    using assms(1,2) unfolding s decode_rune_def Let_def list.case cont_def by (fold lo_def) (auto split: if_splits)
  then show ?thesis
  proof cases
    case 2
    have "0x80 \<le> byte (s ! i)" if "i < 2" for i
    proof -
      from that have "i = 0 \<or> i = 1" by linarith
      then show ?thesis using 2 s by auto
    qed
    with take_high [of 2 s] 2 show ?thesis by simp
  next
    case 3
    have "0x80 \<le> byte (s ! i)" if "i < 3" for i
    proof -
      from that have "i = 0 \<or> i = 1 \<or> i = 2" by linarith
      then show ?thesis using 3 s lo by auto
    qed
    with take_high [of 3 s] 3 show ?thesis by simp
  next
    case 4
    have "0x80 \<le> byte (s ! i)" if "i < 4" for i
    proof -
      from that have "i = 0 \<or> i = 1 \<or> i = 2 \<or> i = 3" by linarith
      then show ?thesis using 4 s lo by auto
    qed
    with take_high [of 4 s] 4 show ?thesis by simp
  qed (simp add: s)
qed

lemma escape_high: "0x80 \<le> byte c \<Longrightarrow> escape_byte c = [c]"
  by (auto simp add: escape_byte_def)

lemma escape_ascii: "byte c < 0x80 \<Longrightarrow> valid_utf8 (escape_byte c)"
  by (rule valid_utf8_ascii) (auto simp add: escape_byte_def hex_digit_def)

lemma valid_escapes: "valid_utf8 s \<Longrightarrow> valid_utf8 (concat (map escape_byte s))"
proof (induction s rule: valid_utf8.induct)
  case (1 s)
  show ?case
  proof (cases "s = []")
    case True
    then show ?thesis by (simp add: valid_utf8.simps [of "[]"])
  next
    case False
    obtain r k where rk: "decode_rune s = (r, k)" by force
    from "1.prems" False rk have ne: "r \<noteq> 0xFFFD \<or> k \<noteq> 1" and v: "valid_utf8 (drop k s)"
      by (simp_all add: valid_utf8.simps [of s])
    have IH: "valid_utf8 (concat (map escape_byte (drop k s)))"
      using "1.IH" [OF False] v rk ne by simp
    have h: "valid_utf8 (concat (map escape_byte (take k s)))"
    proof (cases "k = 1")
      case True
      then have "byte (hd s) < 0x80" "take k s = [hd s]" using decode_rune_bytes [OF rk ne False] False by (cases s; simp)+
      then show ?thesis by (simp add: escape_ascii)
    next
      case high: False
      then have "map escape_byte (take k s) = map (\<lambda>c. [c]) (take k s)"
        using decode_rune_bytes [OF rk ne False] by (auto simp add: escape_high)
      then have "concat (map escape_byte (take k s)) = take k s" by (simp only: concat_map_singleton list.map_ident)
      with valid_utf8_take [OF rk ne False] show ?thesis by simp
    qed
    have "concat (map escape_byte s) = concat (map escape_byte (take k s)) @ concat (map escape_byte (drop k s))"
      by (simp flip: concat_append map_append)
    with valid_utf8_append [OF h] IH show ?thesis by simp
  qed
qed

lemma valid_ascii_append: "\<forall>c \<in> set u. byte c < 0x80 \<Longrightarrow> valid_utf8 (u @ s) \<longleftrightarrow> valid_utf8 s"
  by (rule valid_utf8_append) (rule valid_utf8_ascii)

lemma valid_quote: "valid_utf8 s \<Longrightarrow> valid_utf8 (json_quote s)"
  using valid_ascii_append [of "[CHR 0x22]"] by (simp add: json_quote_def valid_utf8_append valid_escapes valid_utf8_ascii)

lemma valid_join: "\<forall>w \<in> set ws. valid_utf8 w \<Longrightarrow> valid_utf8 sep \<Longrightarrow> valid_utf8 (join sep ws)"
  by (induction sep ws rule: join.induct) (auto simp add: valid_utf8_append valid_utf8.simps [of "[]"])


lemma ascii_digits: "list_all is_digit ds \<Longrightarrow> \<forall>c \<in> set ds. byte c < 0x80"
  by (auto simp add: list_all_iff is_digit_def)

lemma ascii_itoa: "\<forall>c \<in> set (itoa i). byte c < 0x80"
  using ascii_digits [of "nat_digits n" for n] by (auto simp add: itoa_def list_all_iff nat_digits_all_digits)

lemma ascii_write_number: "is_double f \<Longrightarrow> \<forall>c \<in> set (write_number f). byte c < 0x80"
proof (cases f)
  case (FFin neg ds e)
  assume "is_double f"
  with FFin have "list_all is_digit ds" by (simp add: is_double_def wf_float_def)
  from ascii_digits [OF this] FFin show ?thesis
    by (auto simp add: write_number_def format_number_def Let_def zeros_def dest: in_set_takeD in_set_dropD ascii_itoa [THEN bspec])
qed (auto simp add: write_number_def format_number_def)

lemma valid_stringify: "json_value v \<Longrightarrow> valid_utf8 (stringify v)"
proof (induction v)
  case (VFloat f)
  then show ?case using valid_utf8_ascii [OF ascii_write_number] by simp
next
  case (VStr s)
  then show ?case by (simp add: valid_quote)
next
  case (VList vs)
  have "valid_utf8 (join '','' (map stringify vs))" by (rule valid_join) (use VList in \<open>auto intro: valid_utf8_ascii\<close>)
  then show ?case
    using valid_ascii_append [of "''[''"] valid_utf8_append [of "join '','' (map stringify vs)" "'']''"] by (simp add: valid_utf8_ascii)
next
  case (VObj es)
  let ?member = "\<lambda>(k, v). json_quote k @ '':'' @ stringify v"
  have "valid_utf8 (?member e)" if "e \<in> set es" for e
  proof -
    from that VObj.prems have "valid_utf8 (fst e)" "json_value (snd e)" by auto
    moreover have "valid_utf8 (stringify (snd e))" using VObj.IH [OF that, of "snd e"] calculation by (simp add: snds.simps)
    ultimately show ?thesis using valid_ascii_append [of "'':''"] by (cases e) (simp add: valid_utf8_append valid_quote)
  qed
  then have "valid_utf8 (join '','' (map ?member (js_entries es)))"
    by (intro valid_join) (auto simp add: set_js_entries intro: valid_utf8_ascii)
  then show ?case unfolding stringify_obj
    using valid_ascii_append [of "''{''"] valid_utf8_append [of "join '','' (map ?member (js_entries es))" "''}''"]
    by (simp add: valid_utf8_ascii)
qed (simp_all add: valid_utf8_ascii)

subsection \<open>The round trip\<close>

text \<open>
  C12: a value is read back as it was written. For every value of the JSON model that nests no deeper
  than the limit, \<open>Parse\<close> and \<open>ParseLossless\<close> of \<open>Stringify(v)\<close> answer \<open>v\<close> with its keys in JavaScript
  order, \<open>-0\<close> as \<open>0\<close> and the numbers that are not finite as null; every other number comes back digit
  for digit. What they answer is written as the same text, so a hash over the text is stable.
\<close>

theorem json_roundtrip:
  assumes "json_value v" "fits 0 v"
  shows "json_parse w (stringify v) = Inr (json_canon v) \<and> stringify (json_canon v) = stringify v"
  by (rule stringify_parse [OF assms])

text \<open>
  C40: the parser is typed. Whatever text it is given, what \<open>Parse\<close> answers is a value of the JSON
  model within the nesting limit: every string and key is valid UTF-8, the keys of an object are
  distinct, every number is a double or an infinity. Written and parsed again it is the canonical
  value, and the text is the same from then on.
\<close>

theorem parsed_values_typed:
  assumes "json_of s = Inr v"
  shows "json_value v \<and> fits 0 v \<and> json_of (stringify v) = Inr (json_canon v) \<and> stringify (json_canon v) = stringify v"
  using json_of_typed [OF assms] stringify_parse [of v False] by (simp add: json_of_def)

theorem json_roundtrip_witness:
  "json_parse True (stringify (VObj [(''b'', VFloat (FFin False ''15'' 0)), (''7'', VList [VNull, VStr ''x''])])) =
     Inr (VObj [(''7'', VList [VNil, VStr ''x'']), (''b'', VFloat (FFin False ''15'' 0))])"
proof -
  let ?v = "VObj [(''b'', VFloat (FFin False ''15'' 0)), (''7'', VList [VNull, VStr ''x''])]"
  have "valid_utf8 [c]" if "byte c < 0x80" for c using that by (intro valid_utf8_ascii) simp
  then have "json_value ?v" "fits 0 ?v" by (simp_all add: double_1_5 max_depth_def)
  moreover have "js_entries [(''b'', VFloat (FFin False ''15'' 0)), (''7'', VList [VNil, VStr ''x''])] =
      [(''7'', VList [VNil, VStr ''x'']), (''b'', VFloat (FFin False ''15'' 0))]"
    by (simp add: js_entries_def is_array_index_def is_digit_def dec_value_def)
  ultimately show ?thesis using json_roundtrip [of ?v True] by simp
qed

theorem parsed_values_typed_witness:
  "\<exists>v. json_of '' [1.50, null ]'' = Inr v \<and> v = VList [VFloat (FFin False ''15'' 0), VNil] \<and> json_value v"
proof -
  have "float_of_decimal False ''150'' (- 2) = FFin False ''15'' 0"
    using float_of_decimal_zeros [of False 0 "''15''" 1 "- 2"] is_doubleD [OF double_1_5] by (simp add: zeros_def)
  then have "json_of '' [1.50, null ]'' = Inr (VList [VFloat (FFin False ''15'' 0), VNil])"
    by (simp add: json_of_def json_parse_def parse_task.simps skip_ws_def max_depth_def has_prefix_def is_digit_def
      parse_number_def int_part_def frac_part_def exp_part_def digit_run_def parse_lit_def)
  with parsed_values_typed [OF this] show ?thesis by blast
qed
end
