(* ===== verification/Base64.thy ===== *)
theory Base64
  imports Go_Strings
begin

text \<open>
  Base64 as the cursors and signed credentials use it: \<open>base64.RawURLEncoding.EncodeToString\<close> of the
  standard library and \<open>internal/nodebuf/nodebuf.go\<close>, Node's lenient decoder. The decoder's \<open>acc\<close> is a
  \<open>uint32\<close> that keeps what falls out of it until it wraps; the wrap-around is written out.
\<close>

definition url_char :: "nat \<Rightarrow> char" where
  \<comment> \<open>the URL alphabet\<close>
  "url_char v =
     (if v < 26 then char_of (65 + v) else if v < 52 then char_of (71 + v) else if v < 62 then char_of (v - 4)
      else if v = 62 then CHR ''-'' else CHR ''_'')"

fun url_encode :: "string \<Rightarrow> string" where
  "url_encode [] = []"
| "url_encode [a] = [url_char (byte a div 4), url_char (byte a mod 4 * 16)]"
| "url_encode [a, b] =
     [url_char (byte a div 4), url_char (byte a mod 4 * 16 + byte b div 16), url_char (byte b mod 16 * 4)]"
| "url_encode (a # b # c # r) =
     url_char (byte a div 4) # url_char (byte a mod 4 * 16 + byte b div 16) #
     url_char (byte b mod 16 * 4 + byte c div 64) # url_char (byte c mod 64) # url_encode r"

fun clean_base64 :: "string \<Rightarrow> string" where
  \<comment> \<open>both alphabets become the standard one, other bytes are skipped, \<open>=\<close> ends the input\<close>
  "clean_base64 [] = []"
| "clean_base64 (c # cs) =
     (let b = byte c in
      if 65 \<le> b \<and> b \<le> 90 \<or> 97 \<le> b \<and> b \<le> 122 \<or> 48 \<le> b \<and> b \<le> 57 \<or> c = CHR ''+'' \<or> c = CHR ''/'' then c # clean_base64 cs
      else if c = CHR ''-'' then CHR ''+'' # clean_base64 cs
      else if c = CHR ''_'' then CHR ''/'' # clean_base64 cs
      else if c = CHR ''='' then []
      else clean_base64 cs)"

definition base64_val :: "char \<Rightarrow> nat" where
  \<comment> \<open>the position in the alphabet; the table is zero elsewhere\<close>
  "base64_val c =
     (let b = byte c in
      if 65 \<le> b \<and> b \<le> 90 then b - 65
      else if 97 \<le> b \<and> b \<le> 122 then b - 71
      else if 48 \<le> b \<and> b \<le> 57 then b + 4
      else if c = CHR ''+'' then 62 else if c = CHR ''/'' then 63 else 0)"

definition wrap32 :: "nat \<Rightarrow> nat" where
  \<comment> \<open>\<open>uint32\<close>\<close>
  "wrap32 x = x mod 2 ^ 32"

fun decode_bits :: "nat \<Rightarrow> nat \<Rightarrow> string \<Rightarrow> string" where
  "decode_bits acc bits [] = []"
| "decode_bits acc bits (c # cs) =
     (let acc' = wrap32 (acc * 64 + base64_val c) in
      if 8 \<le> bits + 6 then char_of (acc' div 2 ^ (bits + 6 - 8) mod 256) # decode_bits acc' (bits + 6 - 8) cs
      else decode_bits acc' (bits + 6) cs)"

definition base64_decode :: "string \<Rightarrow> string" where
  "base64_decode s = decode_bits 0 0 (clean_base64 s)"

subsection \<open>The decoder reads what the encoder writes\<close>

definition std_char :: "nat \<Rightarrow> char" where
  "std_char v = (if v = 62 then CHR ''+'' else if v = 63 then CHR ''/'' else url_char v)"

lemma byte_url_char:
  "v < 64 \<Longrightarrow> byte (url_char v) =
     (if v < 26 then 65 + v else if v < 52 then 71 + v else if v < 62 then v - 4 else if v = 62 then 45 else 95)"
  by (auto simp add: url_char_def)

lemma clean_url_char: "v < 64 \<Longrightarrow> clean_base64 (url_char v # cs) = std_char v # clean_base64 cs"
proof -
  assume v: "v < 64"
  consider "v < 62" | "v = 62" | "v = 63" using v by linarith
  then show ?thesis
  proof cases
    case 1
    then show ?thesis using byte_url_char [OF v] by (auto simp add: std_char_def Let_def)
  qed (simp_all add: url_char_def std_char_def)
qed

lemma base64_val_std_char: "v < 64 \<Longrightarrow> base64_val (std_char v) = v"
  using byte_url_char [of v] by (auto simp add: std_char_def base64_val_def Let_def)

fun sextets :: "string \<Rightarrow> nat list" where
  "sextets [] = []"
| "sextets [a] = [byte a div 4, byte a mod 4 * 16]"
| "sextets [a, b] = [byte a div 4, byte a mod 4 * 16 + byte b div 16, byte b mod 16 * 4]"
| "sextets (a # b # c # r) =
     byte a div 4 # (byte a mod 4 * 16 + byte b div 16) # (byte b mod 16 * 4 + byte c div 64) # byte c mod 64 # sextets r"

lemma byte_bound: "byte c < 256"
  using of_char_mod_256 [of c, where 'a = nat] by (metis mod_less_divisor zero_less_numeral)

lemma sextet_parts:
  "byte a div 4 < 64" "byte b div 16 < 16" "byte c div 64 < 4" "byte a mod 4 * 16 < 64" "byte b mod 16 * 4 < 64"
  "byte a mod 4 * 16 + byte b div 16 < 64" "byte b mod 16 * 4 + byte c div 64 < 64"
proof -
  show d: "byte a div 4 < 64" "byte b div 16 < 16" "byte c div 64 < 4"
    using byte_bound [of a] byte_bound [of b] byte_bound [of c] by (simp_all add: less_mult_imp_div_less)
  have "byte a mod 4 < 4" "byte b mod 16 < 16" by simp_all
  with d show "byte a mod 4 * 16 < 64" "byte b mod 16 * 4 < 64"
    "byte a mod 4 * 16 + byte b div 16 < 64" "byte b mod 16 * 4 + byte c div 64 < 64" by linarith+
qed

lemma sextets_bound: "\<forall>v \<in> set (sextets s). v < 64"
  by (induction s rule: sextets.induct) (simp_all add: sextet_parts)

lemma url_encode_sextets: "url_encode s = map url_char (sextets s)"
  by (induction s rule: sextets.induct) simp_all

lemma clean_map_url_char: "\<forall>v \<in> set vs. v < 64 \<Longrightarrow> clean_base64 (map url_char vs) = map std_char vs"
  by (induction vs) (simp_all add: clean_url_char del: clean_base64.simps(2))

lemma wrap32_byte:
  assumes "k \<le> 24"
  shows "wrap32 x div 2 ^ k mod 256 = x div 2 ^ k mod 256"
proof -
  have "take_bit 8 (drop_bit k (take_bit 32 x)) = take_bit 8 (drop_bit k x)"
    using assms by (auto intro: bit_eqI simp add: bit_simps)
  then show ?thesis by (simp add: take_bit_eq_mod drop_bit_eq_div wrap32_def)
qed

lemma wrap32_step: "wrap32 (wrap32 x * 64 + v) = wrap32 (x * 64 + v)"
  unfolding wrap32_def by (rule mod_add_cong) (rule mod_mult_left_eq, rule refl)

lemma decode_step:
  assumes "v < 64"
  shows "decode_bits (wrap32 x) 0 (std_char v # cs) = decode_bits (wrap32 (x * 64 + v)) 6 cs"
    "decode_bits (wrap32 x) 6 (std_char v # cs) =
       char_of ((x * 64 + v) div 2 ^ 4 mod 256) # decode_bits (wrap32 (x * 64 + v)) 4 cs"
    "decode_bits (wrap32 x) 4 (std_char v # cs) =
       char_of ((x * 64 + v) div 2 ^ 2 mod 256) # decode_bits (wrap32 (x * 64 + v)) 2 cs"
    "decode_bits (wrap32 x) 2 (std_char v # cs) =
       char_of ((x * 64 + v) div 2 ^ 0 mod 256) # decode_bits (wrap32 (x * 64 + v)) 0 cs"
  using wrap32_byte [of 4 "x * 64 + v"] wrap32_byte [of 2 "x * 64 + v"] wrap32_byte [of 0 "x * 64 + v"]
  by (simp_all add: base64_val_std_char [OF assms] wrap32_step Let_def)

text \<open>The bytes that leave the accumulator over a group of four characters.\<close>

lemma low_byte: "r < k \<Longrightarrow> a < 256 \<Longrightarrow> ((y * 256 + a) * k + r) div k mod 256 = (a::nat)"
proof -
  assume "r < k" "a < 256"
  then have "((y * 256 + a) * k + r) div k = y * 256 + a" by simp
  moreover have "(y * 256 + a) mod 256 = a" using \<open>a < 256\<close> by simp
  ultimately show ?thesis by simp
qed

lemma group_bytes:
  assumes "a < 256" "b < 256" "c < (256::nat)"
  shows "((x * 64 + a div 4) * 64 + (a mod 4 * 16 + b div 16)) div 2 ^ 4 mod 256 = a"
    "(((x * 64 + a div 4) * 64 + (a mod 4 * 16 + b div 16)) * 64 + (b mod 16 * 4 + c div 64)) div 2 ^ 2 mod 256 = b"
    "((((x * 64 + a div 4) * 64 + (a mod 4 * 16 + b div 16)) * 64 + (b mod 16 * 4 + c div 64)) * 64 + c mod 64) div 2 ^ 0 mod 256 = c"
proof -
  have "a div 4 * 4 + a mod 4 = a" "b div 16 * 16 + b mod 16 = b" "c div 64 * 64 + c mod 64 = c" by simp_all
  then have e: "(x * 64 + a div 4) * 64 + (a mod 4 * 16 + b div 16) = (x * 256 + a) * 16 + b div 16"
    "((x * 256 + a) * 16 + b div 16) * 64 + (b mod 16 * 4 + c div 64) = ((x * 256 + a) * 256 + b) * 4 + c div 64"
    "(((x * 256 + a) * 256 + b) * 4 + c div 64) * 64 + c mod 64 = ((x * 256 + a) * 256 + b) * 256 + c" by (linarith | simp)+
  have "b div 16 < 16" "c div 64 < 4" using assms by (simp_all add: less_mult_imp_div_less)
  then show "((x * 64 + a div 4) * 64 + (a mod 4 * 16 + b div 16)) div 2 ^ 4 mod 256 = a"
    "(((x * 64 + a div 4) * 64 + (a mod 4 * 16 + b div 16)) * 64 + (b mod 16 * 4 + c div 64)) div 2 ^ 2 mod 256 = b"
    "((((x * 64 + a div 4) * 64 + (a mod 4 * 16 + b div 16)) * 64 + (b mod 16 * 4 + c div 64)) * 64 + c mod 64) div 2 ^ 0 mod 256 = c"
    using low_byte [of "b div 16" 16 a x] low_byte [of "c div 64" 4 b "x * 256 + a"] low_byte [of 0 1 c "(x * 256 + a) * 256 + b"]
      assms unfolding e by (simp_all only:) simp_all
qed

lemma decode_sextets: "decode_bits (wrap32 x) 0 (map std_char (sextets s)) = s"
proof (induction s arbitrary: x rule: sextets.induct)
  case (2 a)
  from group_bytes(1) [OF byte_bound [of a], of 0 0 x] show ?case
    by (simp only: sextets.simps list.map decode_step sextet_parts decode_bits.simps(1)) simp
next
  case (3 a b)
  from group_bytes(1,2) [OF byte_bound [of a] byte_bound [of b], of 0 x] show ?case
    by (simp only: sextets.simps list.map decode_step sextet_parts decode_bits.simps(1)) simp
next
  case (4 a b c r)
  have "byte c mod 64 < 64" by simp
  with group_bytes [OF byte_bound [of a] byte_bound [of b] byte_bound [of c], of x] 4 show ?case
    by (simp only: sextets.simps list.map decode_step sextet_parts) simp
qed simp

lemma base64_decode_encode: "base64_decode (url_encode s) = s"
  using decode_sextets [of 0 s] by (simp add: wrap32_def base64_decode_def url_encode_sextets clean_map_url_char sextets_bound)

lemma url_encode_chars: "c \<in> set (url_encode s) \<Longrightarrow> \<exists>v < 64. c = url_char v"
  using sextets_bound [of s] by (auto simp add: url_encode_sextets)

end
