(* ===== verification/Client_Keys.thy ===== *)
theory Client_Keys
  imports Json_Roundtrip Base64 "HOL-Library.Word"
begin

unbundle bit_operations_syntax

text \<open>
  The keys of \<open>internal/ratelimit\<close>: \<open>IPKey\<close> over \<open>netip.ParseAddr\<close>, and the sign-out key. An IPv6 address
  is the list of its eight 16-bit words.
\<close>

subsection \<open>Client keys: \<open>netip.ParseAddr\<close> and \<open>IPKey\<close>\<close>

definition is_hex :: "char \<Rightarrow> bool" where
  "is_hex c = (hex_val c \<noteq> None)"

definition hex_value :: "string \<Rightarrow> nat" where
  "hex_value s = foldl (\<lambda>n c. 16 * n + the (hex_val c)) 0 s"

definition v4_octet :: "string \<Rightarrow> nat option" where
  "v4_octet s =
     (if s \<noteq> [] \<and> list_all is_digit s \<and> (hd s = CHR ''0'' \<longrightarrow> length s = 1) \<and> dec_value s \<le> 255
      then Some (dec_value s) else None)"

definition v4_words :: "string \<Rightarrow> 16 word list option" where
  \<comment> \<open>\<open>parseIPv4Fields\<close>, as the last two words of an address\<close>
  "v4_words s =
     (case map v4_octet (split_on (CHR ''.'') s) of
        [Some a, Some b, Some c, Some d] \<Rightarrow> Some [word_of_nat (256 * a + b), word_of_nat (256 * c + d)]
      | _ \<Rightarrow> None)"

lemma tl_dropWhile_less:
  "dropWhile P s \<noteq> [] \<Longrightarrow> length (tl (dropWhile P s)) < length s"
  "dropWhile P s \<noteq> [] \<Longrightarrow> length (tl (tl (dropWhile P s))) < length s"
proof -
  have "length (dropWhile P s) \<le> length s" by (induction s) auto
  moreover assume "dropWhile P s \<noteq> []"
  then have "0 < length (dropWhile P s)" by blast
  ultimately show "length (tl (dropWhile P s)) < length s" "length (tl (tl (dropWhile P s))) < length s"
    unfolding length_tl by linarith+
qed

function v6_loop :: "16 word list \<Rightarrow> nat option \<Rightarrow> string \<Rightarrow> (16 word list \<times> nat option \<times> string) option" where
  "v6_loop ws ellipsis s =
     (if 8 \<le> length ws then Some (ws, ellipsis, s)
      else
        let d = takeWhile is_hex s; r = dropWhile is_hex s in
        if d = [] \<or> 4 < length d then None
        else if r \<noteq> [] \<and> hd r = CHR ''.'' then
          (if (ellipsis = None \<and> length ws \<noteq> 6) \<or> 6 < length ws then None
           else map_option (\<lambda>v. (ws @ v, ellipsis, [])) (v4_words s))
        else
          let ws = ws @ [word_of_nat (hex_value d)] in
          if r = [] then Some (ws, ellipsis, [])
          else if hd r \<noteq> CHR '':'' \<or> tl r = [] then None
          else if hd (tl r) = CHR '':'' then
            (if ellipsis \<noteq> None then None
             else if tl (tl r) = [] then Some (ws, Some (length ws), [])
             else v6_loop ws (Some (length ws)) (tl (tl r)))
          else v6_loop ws ellipsis (tl r))"
  by pat_completeness auto
termination
  by (relation "measure (\<lambda>(ws, e, s). length s)") (simp_all add: tl_dropWhile_less del: length_tl)

declare v6_loop.simps [simp del]

definition expand :: "16 word list \<times> nat option \<times> string \<Rightarrow> 16 word list option" where
  "expand r =
     (case r of (ws, ellipsis, rest) \<Rightarrow>
        if rest \<noteq> [] then None
        else if length ws < 8 then
          (case ellipsis of None \<Rightarrow> None | Some e \<Rightarrow> Some (take e ws @ replicate (8 - length ws) 0 @ drop e ws))
        else if ellipsis \<noteq> None then None else Some ws)"

definition before :: "char \<Rightarrow> string \<Rightarrow> string" where
  "before c s = takeWhile (\<lambda>x. x \<noteq> c) s"

definition parse_v6 :: "string \<Rightarrow> 16 word list option" where
  \<comment> \<open>\<open>parseIPv6\<close>; the zone is dropped\<close>
  "parse_v6 s =
     (let a = before (CHR ''%'') s in
      if length a + 1 = length s then None
      else if take 2 a = ''::'' then
        (if drop 2 a = [] then Some (replicate 8 0) else Option.bind (v6_loop [] (Some 0) (drop 2 a)) expand)
      else Option.bind (v6_loop [] None a) expand)"

definition parse_addr6 :: "string \<Rightarrow> 16 word list option" where
  \<comment> \<open>\<open>ParseAddr\<close>, when the result \<open>Is6\<close>: the first of the bytes \<open>.:%\<close> is a colon\<close>
  "parse_addr6 s =
     (case dropWhile (\<lambda>c. c \<notin> set ''.:%'') s of
        [] \<Rightarrow> None
      | c # _ \<Rightarrow> if c = CHR '':'' then parse_v6 s else None)"

function hex_text :: "nat \<Rightarrow> string" where
  "hex_text n = (if n < 16 then [hex_digit n] else hex_text (n div 16) @ [hex_digit (n mod 16)])"
  by pat_completeness auto
termination by (relation "measure id") simp_all

declare hex_text.simps [simp del]

definition hex_words :: "16 word list \<Rightarrow> string" where
  "hex_words ws = join '':'' (map (\<lambda>w. hex_text (unat w)) ws)"

function zero_runs :: "16 word list \<Rightarrow> nat \<Rightarrow> nat option \<times> nat \<Rightarrow> nat option \<times> nat" where
  \<comment> \<open>the first longest run of at least two zero words: its start and its length\<close>
  "zero_runs ws i best =
     (case drop i ws of
        [] \<Rightarrow> best
      | w # _ \<Rightarrow>
          if w \<noteq> 0 then zero_runs ws (i + 1) best
          else
            let n = length (takeWhile (\<lambda>w. w = 0) (drop i ws)) in
            zero_runs ws (i + max 1 n) (if snd best < n then (Some i, n) else best))"
  by pat_completeness auto
termination
  by (relation "measure (\<lambda>(ws, i, b). length ws - i)") (auto split: list.splits dest: arg_cong [where f = length])

declare zero_runs.simps [simp del]

definition ipv6_text :: "16 word list \<Rightarrow> string" where
  "ipv6_text ws =
     (case zero_runs ws 0 (None, 1) of
        (None, _) \<Rightarrow> hex_words ws
      | (Some b, n) \<Rightarrow> hex_words (take b ws) @ ''::'' @ hex_words (drop (b + n) ws))"

definition embeds_v4 :: "string \<Rightarrow> 16 word list \<Rightarrow> bool" where
  "embeds_v4 s ws =
     (let dotted = (CHR ''.'' \<in> set (before (CHR ''%'') s)) in
      take 5 ws = replicate 5 0 \<and> (ws ! 5 = 0xFFFF \<or> (dotted \<and> ws ! 5 = 0)))"

definition v4_text :: "16 word list \<Rightarrow> string" where
  "v4_text ws =
     itoa (uint (drop_bit 8 (ws ! 6))) @ ''.'' @ itoa (uint (ws ! 6 AND 0xFF)) @ ''.'' @
     itoa (uint (drop_bit 8 (ws ! 7))) @ ''.'' @ itoa (uint (ws ! 7 AND 0xFF))"

definition network :: "nat \<Rightarrow> 16 word list \<Rightarrow> 16 word list" where
  "network subnet ws =
     map (\<lambda>(i, w). let keep = min 16 (subnet - i * 16) in if 0 < keep then w AND push_bit (16 - keep) 0xFFFF else 0)
       (enumerate 0 ws)"

definition ip_key :: "string \<Rightarrow> nat \<Rightarrow> string" where
  "ip_key ip subnet =
     (case parse_addr6 ip of
        None \<Rightarrow> ip
      | Some ws \<Rightarrow>
          if embeds_v4 ip ws then v4_text ws
          else if subnet = 0 then ip
          else ipv6_text (network subnet ws) @ ''/'' @ itoa (int subnet))"

definition session_key :: "(string \<Rightarrow> string) \<Rightarrow> string \<Rightarrow> string" where
  "session_key sha token = ''session:'' @ url_encode (sha token)"

definition default_key :: "string \<Rightarrow> string" where
  "default_key ip = ip_key ip 56"

definition signout_key :: "(string \<Rightarrow> string) \<Rightarrow> string \<Rightarrow> string \<Rightarrow> string" where
  \<comment> \<open>\<open>NewSignout\<close>: the session cookie ("" when there is none) before the address\<close>
  "signout_key sha token ip = (if token \<noteq> [] then session_key sha token else ip_key ip 56)"

subsection \<open>Keys of IPv6 clients\<close>

lemma length_expand: "expand (ws, e, rest) = Some vs \<Longrightarrow> length ws \<le> 8 \<Longrightarrow> (\<forall>x. e = Some x \<longrightarrow> x \<le> length ws) \<Longrightarrow> length vs = 8"
  by (auto simp add: expand_def split: if_splits option.splits)

lemma length_v4_words: "v4_words s = Some ws \<Longrightarrow> length ws = 2"
  by (auto simp add: v4_words_def split: list.splits option.splits)

lemma length_v6_loop:
  "v6_loop ws e s = Some (vs, e', r) \<Longrightarrow> length ws \<le> 8 \<Longrightarrow> (\<forall>x. e = Some x \<longrightarrow> x \<le> length ws) \<Longrightarrow>
     length vs \<le> 8 \<and> (\<forall>x. e' = Some x \<longrightarrow> x \<le> length vs)"
proof (induction ws e s rule: v6_loop.induct)
  case (1 ws e s)
  note IH = 1(1,2)
  have step: "v6_loop ws e s =
     (if 8 \<le> length ws then Some (ws, e, s)
      else
        let d = takeWhile is_hex s; r = dropWhile is_hex s in
        if d = [] \<or> 4 < length d then None
        else if r \<noteq> [] \<and> hd r = CHR ''.'' then
          (if (e = None \<and> length ws \<noteq> 6) \<or> 6 < length ws then None
           else map_option (\<lambda>v. (ws @ v, e, [])) (v4_words s))
        else
          let ws = ws @ [word_of_nat (hex_value d)] in
          if r = [] then Some (ws, e, [])
          else if hd r \<noteq> CHR '':'' \<or> tl r = [] then None
          else if hd (tl r) = CHR '':'' then
            (if e \<noteq> None then None
             else if tl (tl r) = [] then Some (ws, Some (length ws), [])
             else v6_loop ws (Some (length ws)) (tl (tl r)))
          else v6_loop ws e (tl r))"
    by (rule v6_loop.simps)
  show ?case
  proof (cases "8 \<le> length ws")
    case True
    with 1(3-) step show ?thesis by simp
  next
    case False
    let ?d = "takeWhile is_hex s" and ?r = "dropWhile is_hex s"
    let ?ws = "ws @ [word_of_nat (hex_value ?d)]"
    from False 1(3) step have d: "\<not> (?d = [] \<or> 4 < length ?d)" by (simp add: Let_def split: if_splits)
    show ?thesis
    proof (cases "?r \<noteq> [] \<and> hd ?r = CHR ''.''")
      case True
      with False 1(3) step d obtain v where "v4_words s = Some v" "vs = ws @ v" "e' = e" "length ws \<le> 6"
        by (auto simp add: Let_def split: if_splits)
      with 1(5) length_v4_words [of s v] show ?thesis by auto
    next
      case nodot: False
      consider "?r = []" "vs = ?ws" "e' = e" | "tl (tl ?r) = []" "vs = ?ws" "e' = Some (length ?ws)"
        | "v6_loop ?ws (Some (length ?ws)) (tl (tl ?r)) = Some (vs, e', r)" "?r \<noteq> []" "hd ?r = CHR '':''" "tl ?r \<noteq> []"
            "hd (tl ?r) = CHR '':''" "e = None" "tl (tl ?r) \<noteq> []"
        | "v6_loop ?ws e (tl ?r) = Some (vs, e', r)" "?r \<noteq> []" "hd ?r = CHR '':''" "tl ?r \<noteq> []" "hd (tl ?r) \<noteq> CHR '':''"
        using False 1(3) step d nodot by (auto simp add: Let_def split: if_splits)
      then show ?thesis
      proof cases
        case 3
        show ?thesis using IH(1) [OF False refl refl d nodot refl, of] 3 False by simp
      next
        case 4
        show ?thesis using IH(2) [OF False refl refl d nodot refl, of] 4 False 1(5) by fastforce
      qed (use False 1(5) in \<open>fastforce+\<close>)
    qed
  qed
qed

lemma length_parse_addr6: "parse_addr6 s = Some ws \<Longrightarrow> length ws = 8"
proof -
  have loop: "length vs = 8" if "Option.bind (v6_loop [] e a) expand = Some vs" "e = None \<or> e = Some 0" for e a vs
  proof -
    from that(1) obtain us e' r where u: "v6_loop [] e a = Some (us, e', r)" "expand (us, e', r) = Some vs"
      by (auto simp add: bind_eq_Some_conv)
    from length_v6_loop [OF u(1)] that(2) have "length us \<le> 8" "\<forall>x. e' = Some x \<longrightarrow> x \<le> length us" by auto
    with length_expand [OF u(2)] show ?thesis by simp
  qed
  assume "parse_addr6 s = Some ws"
  then have "parse_v6 s = Some ws" by (simp add: parse_addr6_def split: list.splits if_splits)
  then show ?thesis using loop by (auto simp add: parse_v6_def Let_def split: if_splits)
qed

lemma mask_words:
  "(w :: 16 word) AND 0xFFFF = w" "(w :: 16 word) AND push_bit 8 0xFFFF = push_bit 8 (drop_bit 8 w)"
  "(w :: 16 word) AND 16776960 = push_bit 8 (drop_bit 8 w)"
proof -
  have m: "(0xFFFF :: 16 word) = mask 16" by (simp add: mask_eq_exp_minus_1)
  show "w AND 0xFFFF = w" unfolding m by (rule bit_word_eqI) (simp add: bit_simps)
  show high: "w AND push_bit 8 0xFFFF = push_bit 8 (drop_bit 8 w)"
    unfolding m by (rule bit_word_eqI) (auto simp add: bit_simps)
  then show "w AND 16776960 = push_bit 8 (drop_bit 8 w)" by simp
qed

lemma eight_words: "length ws = 8 \<Longrightarrow> ws = [ws ! 0, ws ! 1, ws ! 2, ws ! 3, ws ! 4, ws ! 5, ws ! 6, ws ! 7]"
  by (simp add: list_eq_iff_nth_eq nth_Cons' numeral_eq_Suc less_Suc_eq)

lemma network_56:
  assumes "length ws = 8"
  shows "network 56 ws = [ws ! 0, ws ! 1, ws ! 2, push_bit 8 (drop_bit 8 (ws ! 3)), 0, 0, 0, 0]"
  by (subst eight_words [OF assms]) (simp add: network_def mask_words)

lemma hex_value_snoc: "hex_value (s @ [c]) = 16 * hex_value s + the (hex_val c)"
  by (simp add: hex_value_def)

lemma hex_value_text: "hex_value (hex_text n) = n"
proof (induction n rule: hex_text.induct)
  case (1 n)
  show ?case
  proof (cases "n < 16")
    case True
    then show ?thesis by (simp add: hex_text.simps [of n] hex_value_def hex_val_digit)
  next
    case False
    with 1 show ?thesis by (simp add: hex_text.simps [of n] hex_value_snoc hex_val_digit)
  qed
qed

lemma hex_text_chars: "c \<in> set (hex_text n) \<Longrightarrow> is_hex c"
proof (induction n rule: hex_text.induct)
  case (1 n)
  then show ?case by (cases "n < 16") (auto simp add: hex_text.simps [of n] is_hex_def hex_val_digit)
qed

lemma hex_text_not_Nil [simp]: "hex_text n \<noteq> []"
  by (simp add: hex_text.simps [of n])

lemma split_on_none: "c \<notin> set w \<Longrightarrow> split_on c w = [w]"
  by (induction w) auto

lemma split_join: "ws \<noteq> [] \<Longrightarrow> (\<And>w. w \<in> set ws \<Longrightarrow> c \<notin> set w) \<Longrightarrow> split_on c (join [c] ws) = ws"
proof (induction ws)
  case (Cons w ws)
  then show ?case by (cases ws) (simp_all add: split_on_none split_on_append)
qed simp

lemma hex_words_inj: "hex_words vs = hex_words ws \<Longrightarrow> vs = ws"
proof -
  let ?t = "\<lambda>ws :: 16 word list. map (\<lambda>w. hex_text (unat w)) ws"
  have colon: "CHR '':'' \<notin> set (hex_text n)" for n
    using hex_text_chars [of "CHR '':''" n] by (auto simp add: is_hex_def hex_val_def)
  have nil: "hex_words ws = [] \<longleftrightarrow> ws = []" for ws
    by (cases ws rule: remdups_adj.cases) (simp_all add: hex_words_def)
  assume eq: "hex_words vs = hex_words ws"
  show "vs = ws"
  proof (cases "ws = []")
    case True
    with eq nil [of vs] nil [of ws] show ?thesis by simp
  next
    case False
    with eq nil have "vs \<noteq> []" by metis
    then have "split_on (CHR '':'') (hex_words vs) = ?t vs" unfolding hex_words_def by (intro split_join) (use colon in auto)
    moreover from False have "split_on (CHR '':'') (hex_words ws) = ?t ws"
      unfolding hex_words_def by (intro split_join) (use colon in auto)
    ultimately have "?t vs = ?t ws" using eq by simp
    then have "map hex_value (?t vs) = map hex_value (?t ws)" by (simp only:)
    then have "map unat vs = map unat ws" by (simp only: map_map comp_def hex_value_text)
    then show ?thesis by (rule map_injective) (rule injI, simp only: word_unat_eq_iff)
  qed
qed

lemma zero_runs_at:
  "zero_runs ws i best =
     (case drop i ws of
        [] \<Rightarrow> best
      | w # _ \<Rightarrow>
          if w \<noteq> 0 then zero_runs ws (i + 1) best
          else
            let n = length (takeWhile (\<lambda>w. w = 0) (drop i ws)) in
            zero_runs ws (i + max 1 n) (if snd best < n then (Some i, n) else best))"
  by (rule zero_runs.simps)

lemma ipv6_text_network:
  fixes a b c d :: "16 word"
  shows "ipv6_text [a, b, c, d, 0, 0, 0, 0] = hex_words (rev (dropWhile (\<lambda>w. w = 0) (rev [a, b, c, d]))) @ ''::''"
  by (cases "a = 0"; cases "b = 0"; cases "c = 0"; cases "d = 0"; simp add: ipv6_text_def zero_runs.simps hex_words_def)

lemma strip_zeros_inj:
  fixes us vs :: "16 word list"
  assumes "dropWhile (\<lambda>w. w = 0) us = dropWhile (\<lambda>w. w = 0) vs" "length us = length vs"
  shows "us = vs"
proof -
  let ?z = "\<lambda>w :: 16 word. w = 0"
  have zeros: "takeWhile ?z ws = replicate (length ws - length (dropWhile ?z ws)) 0" for ws
    by (induction ws) (auto simp add: Suc_diff_le length_dropWhile_le)
  from assms zeros [of us] zeros [of vs] have "takeWhile ?z us = takeWhile ?z vs" by simp
  with assms(1) show ?thesis by (metis takeWhile_dropWhile_id)
qed



end
