(* ===== verification/Rate_Limit.thy ===== *)
theory Rate_Limit
  imports Prelude Complex_Main
begin

text \<open>
  \<open>internal/ratelimit/ratelimit.go\<close>: the fixed-window limiter. The float64 numbers
  of the code (limits, hits, milliseconds) are rationals here: counts and Unix milliseconds below
  \<open>2 ^ 53\<close> are exact in a float64. The mutex makes every operation on the windows one step; the
  clock is an argument of the step that reads it.
\<close>

subsection \<open>The limiter\<close>

record window =
  wn_hits :: nat
  wn_reset :: rat                              \<comment> \<open>Unix milliseconds\<close>

record limiter =
  lm_window :: rat                             \<comment> \<open>\<open>Options.WindowMs\<close>\<close>
  lm_limit :: rat                              \<comment> \<open>\<open>Options.Limit\<close>\<close>
  lm_windows :: "string \<rightharpoonup> window"

definition new_limiter :: "rat \<Rightarrow> rat \<Rightarrow> limiter" where
  "new_limiter window limit = \<lparr>lm_window = window, lm_limit = limit, lm_windows = Map.empty\<rparr>"

definition window_seconds :: "limiter \<Rightarrow> int" where
  "window_seconds l = \<lceil>lm_window l / 1000\<rceil>"

definition sweep :: "int \<Rightarrow> limiter \<Rightarrow> limiter" where
  "sweep now l = l\<lparr>lm_windows := (\<lambda>k. case lm_windows l k of
       Some w \<Rightarrow> if wn_reset w \<le> of_int now then None else Some w
     | None \<Rightarrow> None)\<rparr>"

definition reset_key :: "string \<Rightarrow> limiter \<Rightarrow> limiter" where
  "reset_key key l = l\<lparr>lm_windows := (lm_windows l)(key := None)\<rparr>"

text \<open>The headers of a response, as numbers: \<open>RateLimit-Policy\<close>, \<open>RateLimit\<close> and \<open>Retry-After\<close>.\<close>

record limit_headers =
  rh_limit :: rat
  rh_window :: int
  rh_remaining :: rat
  rh_reset :: int
  rh_retry_after :: "int option"

definition hit_window :: "limiter \<Rightarrow> string \<Rightarrow> int \<Rightarrow> window" where
  "hit_window l key now =
     (let fresh = \<lparr>wn_hits = 0, wn_reset = of_int now + lm_window l\<rparr>;
          entry = (case lm_windows l key of None \<Rightarrow> fresh | Some w \<Rightarrow> if wn_reset w \<le> of_int now then fresh else w) in
      entry\<lparr>wn_hits := wn_hits entry + 1\<rparr>)"

definition hit :: "string \<Rightarrow> int \<Rightarrow> int \<Rightarrow> limiter \<Rightarrow> (bool \<times> limit_headers) \<times> limiter" where
  \<comment> \<open>the clock is read before the lock (\<open>now\<close>) and after it (\<open>now'\<close>)\<close>
  "hit key now now' l =
     (let w = hit_window l key now;
          hits = of_nat (wn_hits w);
          reset = max 0 \<lceil>(wn_reset w - of_int now') / 1000\<rceil>;
          over = lm_limit l < hits in
      ((\<not> over,
        \<lparr>rh_limit = lm_limit l, rh_window = window_seconds l, rh_remaining = max (lm_limit l - hits) 0, rh_reset = reset,
         rh_retry_after = (if over then Some reset else None)\<rparr>),
       l\<lparr>lm_windows := (lm_windows l)(key \<mapsto> w)\<rparr>))"

datatype 'r answer = Passed_On | Refused limit_headers | Key_Failed 'r

definition middleware :: "'r + string \<Rightarrow> int \<Rightarrow> int \<Rightarrow> limiter \<Rightarrow> 'r answer \<times> limiter" where
  "middleware key now now' l =
     (case key of
        Inl e \<Rightarrow> (Key_Failed e, l)
      | Inr k \<Rightarrow> (case hit k now now' l of ((ok, h), l') \<Rightarrow> (if ok then Passed_On else Refused h, l')))"

subsection \<open>Runs and fixed windows\<close>

datatype event = Hit string int int | Sweep int

fun event_time :: "event \<Rightarrow> int" where
  "event_time (Hit k t t') = t"
| "event_time (Sweep t) = t"

fun run_limiter :: "limiter \<Rightarrow> event list \<Rightarrow> (string \<times> int \<times> bool) list" where
  \<comment> \<open>the answers: the key, when the clock was read, whether the request passed\<close>
  "run_limiter l [] = []"
| "run_limiter l (Hit k t t' # es) = (case hit k t t' l of ((ok, h), l') \<Rightarrow> (k, t, ok) # run_limiter l' es)"
| "run_limiter l (Sweep t # es) = run_limiter (sweep t l) es"

fun hit_times :: "string \<Rightarrow> event list \<Rightarrow> int list" where
  "hit_times k [] = []"
| "hit_times k (Hit k' t t' # es) = (if k' = k then t # hit_times k es else hit_times k es)"
| "hit_times k (Sweep t # es) = hit_times k es"

text \<open>
  The reference: the hits of one key fall into windows, each opened by the first hit after the one
  before has passed; the first hits of a window, up to the limit, pass.
\<close>

function fixed_windows :: "rat \<Rightarrow> int list \<Rightarrow> int list list" where
  "fixed_windows w [] = []"
| "fixed_windows w (t # ts) =
     (t # takeWhile (\<lambda>u. of_int u < of_int t + w) ts) # fixed_windows w (dropWhile (\<lambda>u. of_int u < of_int t + w) ts)"
  by pat_completeness auto
termination
proof (relation "measure (\<lambda>(w, ts). length ts)")
  show "((w, dropWhile P ts), (w, t # ts)) \<in> measure (\<lambda>(w, ts). length ts)" for w :: rat and t :: int and ts and P
    by (induction ts) auto
qed simp

definition within_limit :: "rat \<Rightarrow> nat \<Rightarrow> bool" where
  "within_limit limit n = (of_nat n \<le> limit)"

definition window_answers :: "rat \<Rightarrow> nat \<Rightarrow> int list \<Rightarrow> bool list" where
  "window_answers limit h ts = map (\<lambda>i. within_limit limit (h + i + 1)) [0..<length ts]"

definition spec_answers :: "rat \<Rightarrow> rat \<Rightarrow> int list \<Rightarrow> bool list" where
  "spec_answers w limit ts = concat (map (window_answers limit 0) (fixed_windows w ts))"

text \<open>What is still to come for a key whose window is open.\<close>

definition pending_answers :: "rat \<Rightarrow> rat \<Rightarrow> window option \<Rightarrow> int list \<Rightarrow> bool list" where
  "pending_answers w limit entry ts =
     (case entry of
        None \<Rightarrow> spec_answers w limit ts
      | Some e \<Rightarrow>
          window_answers limit (wn_hits e) (takeWhile (\<lambda>u. of_int u < wn_reset e) ts) @
          spec_answers w limit (dropWhile (\<lambda>u. of_int u < wn_reset e) ts))"

lemma window_answers_Cons:
  "window_answers limit h (t # ts) = within_limit limit (h + 1) # window_answers limit (h + 1) ts"
  by (simp add: window_answers_def upt_conv_Cons map_Suc_upt [symmetric] comp_def del: upt_Suc)

lemma window_answers_Nil [simp]: "window_answers limit h [] = []"
  by (simp add: window_answers_def)

lemma spec_answers_Cons:
  "spec_answers w limit (t # ts) =
     within_limit limit 1 # pending_answers w limit (Some \<lparr>wn_hits = 1, wn_reset = of_int t + w\<rparr>) ts"
  by (simp add: spec_answers_def pending_answers_def window_answers_Cons)

lemma pending_expired:
  assumes "\<And>u. u \<in> set ts \<Longrightarrow> wn_reset e \<le> of_int u"
  shows "pending_answers w limit (Some e) ts = spec_answers w limit ts"
proof (cases ts)
  case (Cons t us)
  with assms [of t] have "\<not> of_int t < wn_reset e" by simp
  with Cons show ?thesis by (simp add: pending_answers_def)
qed (simp add: pending_answers_def)

lemma hit_answer:
  assumes "hit k t t' l = ((ok, h), l')" "0 < lm_window l"
  shows "pending_answers (lm_window l) (lm_limit l) (lm_windows l k) (t # ts) =
      ok # pending_answers (lm_window l) (lm_limit l) (lm_windows l' k) ts"
proof -
  let ?w = "hit_window l k t"
  have ok: "ok = within_limit (lm_limit l) (wn_hits ?w)" and l': "lm_windows l' k = Some ?w"
    using assms(1) by (auto simp add: hit_def Let_def within_limit_def not_less)
  show ?thesis
  proof (cases "\<exists>e. lm_windows l k = Some e \<and> of_int t < wn_reset e")
    case True
    then obtain e where e: "lm_windows l k = Some e" "of_int t < wn_reset e" by blast
    then have w: "?w = e\<lparr>wn_hits := wn_hits e + 1\<rparr>" by (simp add: hit_window_def Let_def)
    with e show ?thesis unfolding ok l' by (simp add: pending_answers_def window_answers_Cons)
  next
    case False
    then have w: "?w = \<lparr>wn_hits = 1, wn_reset = of_int t + lm_window l\<rparr>"
      by (auto simp add: hit_window_def Let_def split: option.split)
    from False have "pending_answers (lm_window l) (lm_limit l) (lm_windows l k) (t # ts) = spec_answers (lm_window l) (lm_limit l) (t # ts)"
      by (cases "lm_windows l k") (auto simp add: pending_answers_def)
    then show ?thesis unfolding ok l' w spec_answers_Cons by simp
  qed
qed

lemma hit_other:
  assumes "hit k t t' l = ((ok, h), l')"
  shows "lm_window l' = lm_window l" "lm_limit l' = lm_limit l" "j \<noteq> k \<Longrightarrow> lm_windows l' j = lm_windows l j"
  using assms by (auto simp add: hit_def Let_def)

lemma hit_times_later: "u \<in> set (hit_times k es) \<Longrightarrow> \<exists>e \<in> set es. event_time e = u"
  by (induction k es rule: hit_times.induct) (auto split: if_splits)

definition answers_to :: "string \<Rightarrow> (string \<times> int \<times> bool) list \<Rightarrow> bool list" where
  "answers_to key rs = map (\<lambda>r. snd (snd r)) (filter (\<lambda>r. fst r = key) rs)"

lemma sorted_hit_times: "sorted (map event_time es) \<Longrightarrow> sorted (hit_times k es)"
  by (induction k es rule: hit_times.induct) (auto dest: hit_times_later)

lemma run_limiter_answers:
  assumes "0 < lm_window l" "sorted (map event_time es)"
  shows "answers_to key (run_limiter l es) =
    pending_answers (lm_window l) (lm_limit l) (lm_windows l key) (hit_times key es)"
  using assms
proof (induction l es rule: run_limiter.induct)
  case (1 l)
  then show ?case by (simp add: pending_answers_def spec_answers_def answers_to_def split: option.split)
next
  case (2 l k t t' es)
  obtain ok h l' where h: "hit k t t' l = ((ok, h), l')" by (metis surj_pair)
  note same = hit_other [OF h]
  from 2 h same have IH: "answers_to key (run_limiter l' es) =
      pending_answers (lm_window l) (lm_limit l) (lm_windows l' key) (hit_times key es)"
    by simp
  show ?case
  proof (cases "k = key")
    case True
    with IH h hit_answer [OF h 2(2), of "hit_times key es"] show ?thesis by (simp add: answers_to_def)
  next
    case False
    with IH h same(3) [of key] show ?thesis by (simp add: answers_to_def)
  qed
next
  case (3 l t es)
  have IH: "answers_to key (run_limiter (sweep t l) es) =
      pending_answers (lm_window l) (lm_limit l) (lm_windows (sweep t l) key) (hit_times key es)"
    using 3 by (simp add: sweep_def)
  have later: "t \<le> u" if "u \<in> set (hit_times key es)" for u
    using hit_times_later [OF that] 3(3) by auto
  have "pending_answers (lm_window l) (lm_limit l) (lm_windows (sweep t l) key) (hit_times key es) =
      pending_answers (lm_window l) (lm_limit l) (lm_windows l key) (hit_times key es)"
  proof (cases "\<exists>e. lm_windows l key = Some e \<and> wn_reset e \<le> of_int t")
    case True
    then obtain e where e: "lm_windows l key = Some e" "wn_reset e \<le> of_int t" by blast
    have "wn_reset e \<le> of_int u" if "u \<in> set (hit_times key es)" for u
      using later [OF that] e(2) by (meson of_int_le_iff order_trans)
    from pending_expired [OF this] e show ?thesis by (simp add: sweep_def pending_answers_def)
  next
    case False
    then have "lm_windows (sweep t l) key = lm_windows l key" by (auto simp add: sweep_def split: option.split)
    then show ?thesis by simp
  qed
  with IH show ?case by simp
qed

lemma run_limiter_times:
  "map (\<lambda>r. fst (snd r)) (filter (\<lambda>r. fst r = key) (run_limiter l es)) = hit_times key es"
  by (induction l es rule: run_limiter.induct) (auto split: prod.split)

subsection \<open>How many requests pass\<close>

definition passed :: "rat \<Rightarrow> rat \<Rightarrow> (int \<times> bool) list \<Rightarrow> nat" where
  \<comment> \<open>the hits from \<open>T\<close> on and before \<open>T + w\<close> that pass\<close>
  "passed w T rs = length (filter (\<lambda>(t, ok). ok \<and> T \<le> of_int t \<and> of_int t < T + w) rs)"

lemma passed_append: "passed w T (xs @ ys) = passed w T xs + passed w T ys"
  by (simp add: passed_def)

lemma passed_none: "(\<And>t ok. (t, ok) \<in> set rs \<Longrightarrow> of_int t < T \<or> T + w \<le> of_int t) \<Longrightarrow> passed w T rs = 0"
  by (fastforce simp add: passed_def filter_empty_conv)

lemma length_window_answers [simp]: "length (window_answers limit h ts) = length ts"
  by (simp add: window_answers_def)

lemma length_filter_mono: "(\<And>x. P x \<Longrightarrow> Q x) \<Longrightarrow> length (filter P xs) \<le> length (filter Q xs)"
  by (induction xs) auto

lemma passed_window: "passed w T (zip win (window_answers limit 0 win)) \<le> nat \<lfloor>limit\<rfloor>"
proof -
  let ?ok = "\<lambda>i. within_limit limit (i + 1)"
  have snds: "length (filter snd xs) = length (filter id (map snd xs))" for xs :: "(int \<times> bool) list"
    by (induction xs) auto
  have "passed w T (zip win (window_answers limit 0 win)) \<le> length (filter snd (zip win (window_answers limit 0 win)))"
    unfolding passed_def by (rule length_filter_mono) auto
  also have "length (filter snd (zip win (window_answers limit 0 win))) = length (filter id (map snd (zip win (window_answers limit 0 win))))"
    by (rule snds)
  also have "\<dots> = length (filter ?ok [0..<length win])"
    by (simp add: window_answers_def filter_map comp_def)
  also have "\<dots> = card (set (filter ?ok [0..<length win]))" by (simp only: distinct_card distinct_filter distinct_upt)
  also have "\<dots> \<le> card {..<nat \<lfloor>limit\<rfloor>}"
  proof (intro card_mono subsetI)
    fix i
    assume "i \<in> set (filter ?ok [0..<length win])"
    then have "of_int (int (i + 1)) \<le> limit" by (simp add: within_limit_def)
    then have "int (i + 1) \<le> \<lfloor>limit\<rfloor>" by (simp only: le_floor_iff)
    then show "i \<in> {..<nat \<lfloor>limit\<rfloor>}" by simp
  qed simp
  finally show ?thesis by simp
qed

lemma zip_spec_answers:
  "zip (t # ts) (spec_answers w limit (t # ts)) =
     (let win = t # takeWhile (\<lambda>u. of_int u < of_int t + w) ts; later = dropWhile (\<lambda>u. of_int u < of_int t + w) ts in
      zip win (window_answers limit 0 win) @ zip later (spec_answers w limit later))"
proof -
  let ?win = "t # takeWhile (\<lambda>u. of_int u < of_int t + w) ts" and ?later = "dropWhile (\<lambda>u. of_int u < of_int t + w) ts"
  have "t # ts = ?win @ ?later" by simp
  moreover have "spec_answers w limit (t # ts) = window_answers limit 0 ?win @ spec_answers w limit ?later"
    by (simp add: spec_answers_def)
  ultimately show ?thesis unfolding Let_def by (metis length_window_answers zip_append)
qed

lemma later_window:
  assumes "sorted (t # ts)" "u \<in> set (dropWhile (\<lambda>u. of_int u < of_int t + (w :: rat)) ts)"
  shows "of_int t + w \<le> of_int u"
proof -
  let ?P = "\<lambda>u. of_int u < of_int t + w"
  have s: "sorted (dropWhile ?P ts)" using assms(1) by (simp add: sorted_dropWhile)
  from assms(2) have ne: "dropWhile ?P ts \<noteq> []" by (metis empty_iff empty_set)
  then have "\<not> ?P (hd (dropWhile ?P ts))" by (rule hd_dropWhile)
  moreover have "hd (dropWhile ?P ts) \<le> u" using s ne assms(2) by (cases "dropWhile ?P ts") auto
  ultimately show ?thesis by (meson not_less of_int_le_iff order_trans)
qed

lemma passed_from:
  assumes "sorted (t # ts)" "T \<le> of_int t" "0 < w"
  shows "passed w T (zip (t # ts) (spec_answers w limit (t # ts))) \<le> nat \<lfloor>limit\<rfloor>"
proof -
  let ?later = "dropWhile (\<lambda>u. of_int u < of_int t + w) ts"
  have "passed w T (zip ?later (spec_answers w limit ?later)) = 0"
  proof (rule passed_none)
    fix u ok
    assume "(u, ok) \<in> set (zip ?later (spec_answers w limit ?later))"
    then have "u \<in> set ?later" by (rule set_zip_leftD)
    from later_window [OF assms(1) this] assms(2) show "of_int u < T \<or> T + w \<le> of_int u" by linarith
  qed
  then show ?thesis unfolding zip_spec_answers Let_def passed_append using passed_window by simp
qed

lemma passed_twice:
  assumes "sorted ts" "0 < w"
  shows "passed w T (zip ts (spec_answers w limit ts)) \<le> 2 * nat \<lfloor>limit\<rfloor>"
  using assms
proof (induction w ts rule: fixed_windows.induct)
  case (2 w t ts)
  let ?P = "\<lambda>u. of_int u < of_int t + w"
  let ?win = "t # takeWhile ?P ts" and ?later = "dropWhile ?P ts"
  show ?case
  proof (cases "T \<le> of_int t")
    case True
    from passed_from [OF 2(2) True 2(3), of limit] show ?thesis by simp
  next
    case False
    have s: "sorted ?later" using 2(2) by (simp add: sorted_dropWhile)
    show ?thesis
    proof (cases "?later = [] \<or> T \<le> of_int (hd ?later)")
      case True
      then have "passed w T (zip ?later (spec_answers w limit ?later)) \<le> nat \<lfloor>limit\<rfloor>"
      proof (cases ?later)
        case (Cons u us)
        with True s show ?thesis unfolding Cons by (intro passed_from [OF _ _ 2(3)]) simp_all
      next
        case Nil
        show ?thesis unfolding Nil by (simp add: passed_def)
      qed
      with passed_window [of w T ?win limit] show ?thesis unfolding zip_spec_answers Let_def passed_append by linarith
    next
      case early: False
      have "passed w T (zip ?win (window_answers limit 0 ?win)) = 0"
      proof (rule passed_none)
        fix u ok
        assume "(u, ok) \<in> set (zip ?win (window_answers limit 0 ?win))"
        then have "u \<in> set ?win" by (rule set_zip_leftD)
        then have "of_int u < of_int t + w" using 2(3) by (auto dest: set_takeWhileD)
        moreover have "of_int t + w \<le> of_int (hd ?later)" using early by (intro later_window [OF 2(2)]) simp
        ultimately show "of_int u < T \<or> T + w \<le> of_int u" using early by auto
      qed
      with 2(1) [OF s 2(3)] show ?thesis unfolding zip_spec_answers Let_def passed_append by simp
    qed
  qed
qed (simp add: passed_def)

text \<open>
  C35: the limiter answers every key by itself. Over any run of requests and sweeps with a clock that does not
  go back, what the limiter answers to one key are the answers of the reference on the requests of that key
  alone: its hits fall into windows, each opened by the first hit after the one before has passed, and the
  first hits of a window up to the limit pass. No other key and no sweep makes a difference.
\<close>

theorem limiter_per_key:
  assumes "0 < window" "sorted (map event_time es)"
  shows "answers_to key (run_limiter (new_limiter window limit) es) = spec_answers window limit (hit_times key es)"
  using run_limiter_answers [of "new_limiter window limit" es key] assms by (simp add: new_limiter_def pending_answers_def)

text \<open>
  C36: a budget holds over any span. Wherever a span of one window's length begins, at most twice the limit of
  the requests of a key that arrive in it pass.
\<close>

theorem limiter_budget:
  assumes "0 < window" "sorted (map event_time es)"
  shows "length (filter (\<lambda>(k, t, ok). k = key \<and> ok \<and> T \<le> of_int t \<and> of_int t < T + window)
      (run_limiter (new_limiter window limit) es)) \<le> 2 * nat \<lfloor>limit\<rfloor>"
proof -
  let ?rs = "run_limiter (new_limiter window limit) es"
  let ?mine = "filter (\<lambda>r. fst r = key) ?rs"
  have times: "map (\<lambda>r. fst (snd r)) ?mine = hit_times key es" by (rule run_limiter_times)
  have "map snd ?mine = zip (map (\<lambda>r. fst (snd r)) ?mine) (map (\<lambda>r. snd (snd r)) ?mine)"
    by (simp add: zip_map_map zip_same_conv_map)
  also have "\<dots> = zip (hit_times key es) (spec_answers window limit (hit_times key es))"
    unfolding times using run_limiter_answers [of "new_limiter window limit" es key] assms
    by (simp add: answers_to_def new_limiter_def pending_answers_def)
  finally have mine: "map snd ?mine = zip (hit_times key es) (spec_answers window limit (hit_times key es))" .
  have "length (filter (\<lambda>(k, t, ok). k = key \<and> ok \<and> T \<le> of_int t \<and> of_int t < T + window) ?rs) =
      passed window T (map snd ?mine)"
    by (simp add: passed_def filter_map comp_def case_prod_unfold)
  moreover have "sorted (hit_times key es)"
    using assms(2) by (rule sorted_hit_times)
  ultimately show ?thesis using passed_twice [of "hit_times key es" window T limit] assms(1) mine by simp
qed

definition ex_events :: "event list" where
  "ex_events = [Hit ''a'' 5 5, Hit ''b'' 6 6, Hit ''a'' 7 7, Hit ''a'' 8 8, Sweep 70, Hit ''a'' 70 70]"

lemma ex_sorted: "sorted (map event_time ex_events)"
  by (simp add: ex_events_def)

theorem limiter_per_key_witness:
  "answers_to ''a'' (run_limiter (new_limiter 60 2) ex_events) = [True, True, False, True]"
  using limiter_per_key [OF _ ex_sorted, of 60 "''a''" 2]
  by (simp add: ex_events_def spec_answers_def window_answers_def within_limit_def upt_rec)

theorem limiter_budget_witness:
  "length (filter (\<lambda>(k, t, ok). k = ''a'' \<and> ok \<and> (7 :: rat) \<le> of_int t \<and> of_int t < 7 + (64 :: rat))
     (run_limiter (new_limiter 64 2) ex_events)) \<le> 4"
  using limiter_budget [OF _ ex_sorted, of 64 "''a''" 7 2] by simp

end
