(* ===== verification/Tokens.thy ===== *)
theory Tokens
  imports Deploy Base64 "HOL-Library.List_Lexorder"
begin

text \<open>
  \<open>internal/tokens/tokens.go\<close>: bearer tokens of agents, their grants on exact slugs, and what a token may
  call. HMAC-SHA256 under the pepper is a parameter. A statement reads the pages of the database it runs on;
  between the two statements of a lookup other transactions may commit.
\<close>

subsection \<open>Scopes\<close>

definition scope_deploy :: string where "scope_deploy = ''deploy''"
definition scope_data_update :: string where "scope_data_update = ''data_update''"
definition scope_admin :: string where "scope_admin = ''admin''"

definition scopes :: "string list" where
  "scopes = [scope_deploy, scope_data_update, scope_admin]"

definition valid_scope :: "string \<Rightarrow> bool" where
  "valid_scope s = (s \<in> set scopes)"

definition legacy_broad :: "string \<Rightarrow> bool" where
  "legacy_broad s = (s = scope_deploy \<or> s = scope_admin)"

definition data_update_tools :: "string list" where
  "data_update_tools = [''get_page_data'', ''update_page_data'', ''record_refresh_check'']"

subsection \<open>Slugs of grants\<close>

text \<open>
  \<open>strings.ToLower\<close> as far as the pattern can tell (see \<open>to_lower\<close>); U+0130 becomes a plain \<open>i\<close>, which
  \<open>NormalizeSlug\<close> refuses.
\<close>

fun undot :: "string \<Rightarrow> string" where
  "undot [] = []"
| "undot [a] = [a]"
| "undot (a # b # s) = (if [a, b] = dotted_I then CHR ''i'' # undot s else a # undot (b # s))"

definition normalize_grant_slug :: "string \<Rightarrow> go_error + string" where
  "normalize_grant_slug slug =
     (let s = to_lower (undot (js_trim slug)) in
      if matches slug_re s then Inr s else Inl (Other (''bad allowed slug: '' @ slug)))"

fun collect_slugs :: "string list \<Rightarrow> string list \<Rightarrow> go_error + string list" where
  "collect_slugs [] out = Inr out"
| "collect_slugs (s # ss) out =
     res_bind (normalize_grant_slug s) (\<lambda>n. collect_slugs ss (if n \<in> set out then out else out @ [n]))"

definition normalize_allowed_slugs :: "string \<Rightarrow> string list \<Rightarrow> go_error + string list" where
  "normalize_allowed_slugs scope allowed =
     res_bind (collect_slugs allowed []) (\<lambda>out.
       if scope \<noteq> scope_data_update \<and> out \<noteq> []
       then Inl (Other ''exact slug grants are only valid for data_update tokens'')
       else Inr (sort out))"

subsection \<open>The tables\<close>

record token_row =
  tk_id :: int
  tk_label :: string
  tk_prefix :: string
  tk_hash :: string
  tk_scope :: string
  tk_used :: "int option"
  tk_created :: int
  tk_revoked :: "int option"

record grant =
  gr_token :: int
  gr_slug :: string
  gr_page :: int                               \<comment> \<open>0: not bound to a page\<close>

record store =
  st_tokens :: "token_row list"
  st_grants :: "grant list"
  st_next :: int

definition empty_store :: store where
  "empty_store = \<lparr>st_tokens = [], st_grants = [], st_next = 1\<rparr>"

subsection \<open>Minting\<close>

record mint_params =
  mp_label :: string
  mp_scope :: string
  mp_slugs :: "string list"

record minted =
  mt_id :: int
  mt_label :: string
  mt_scope :: string
  mt_prefix :: string
  mt_slugs :: "string list"
  mt_token :: string

definition live_id :: "db \<Rightarrow> string \<Rightarrow> int" where
  \<comment> \<open>the live page of a slug; 0 when there is none\<close>
  "live_id d slug = (case find_live slug d of None \<Rightarrow> 0 | Some p \<Rightarrow> p_id p)"

definition new_token :: "(string \<Rightarrow> string) \<Rightarrow> store \<Rightarrow> mint_params \<Rightarrow> string \<Rightarrow> string \<Rightarrow> int \<Rightarrow> token_row" where
  "new_token hmac st p scope raw now =
     \<lparr>tk_id = st_next st, tk_label = mp_label p, tk_prefix = take 12 raw, tk_hash = hmac raw, tk_scope = scope,
      tk_used = None, tk_created = now, tk_revoked = None\<rparr>"

definition new_grants :: "db \<Rightarrow> int \<Rightarrow> string list \<Rightarrow> grant list" where
  "new_grants d t slugs = map (\<lambda>s. \<lparr>gr_token = t, gr_slug = s, gr_page = live_id d s\<rparr>) slugs"

definition mint_args :: "mint_params \<Rightarrow> go_error + string \<times> string list" where
  \<comment> \<open>the scope and the slugs\<close>
  "mint_args p =
     (if mp_label p = [] then Inl (Other ''label is required'')
      else
        let scope = (if mp_scope p = [] then scope_deploy else mp_scope p) in
        if \<not> valid_scope scope then Inl (Other (''bad scope: '' @ scope))
        else res_bind (normalize_allowed_slugs scope (mp_slugs p)) (\<lambda>slugs. Inr (scope, slugs)))"

definition mint ::
  "(string \<Rightarrow> string) \<Rightarrow> request \<Rightarrow> mint_params \<Rightarrow> string \<Rightarrow> db \<Rightarrow> store \<Rightarrow> (go_error + minted) \<times> store" where
  \<comment> \<open>\<open>bytes\<close>: the 24 random bytes\<close>
  "mint hmac rq p bytes d st =
     (case mint_args p of
        Inl e \<Rightarrow> (Inl e, st)
      | Inr (scope, slugs) \<Rightarrow>
          let raw = ''pgs_'' @ url_encode bytes;
              row = new_token hmac st p scope raw (rq_now rq) in
          (case check_write_admission rq of
             Inl e \<Rightarrow> (Inl e, st)
           | Inr _ \<Rightarrow>
               if tk_hash row \<in> tk_hash ` set (st_tokens st) then (Inl (Other ''duplicate token_hash''), st)
               else
                 (Inr \<lparr>mt_id = tk_id row, mt_label = mp_label p, mt_scope = scope, mt_prefix = tk_prefix row, mt_slugs = slugs,
                       mt_token = raw\<rparr>,
                  \<lparr>st_tokens = st_tokens st @ [row], st_grants = st_grants st @ new_grants d (tk_id row) slugs,
                   st_next = st_next st + 1\<rparr>)))"

subsection \<open>Looking a token up\<close>

record token =
  to_id :: int
  to_label :: string
  to_scope :: string
  to_slugs :: "string list"

definition grant_allows :: "db \<Rightarrow> grant \<Rightarrow> bool" where
  "grant_allows d g = (gr_page g = 0 \<or> live_id d (gr_slug g) = 0 \<or> gr_page g = live_id d (gr_slug g))"

definition grant_binds :: "db \<Rightarrow> grant \<Rightarrow> bool" where
  "grant_binds d g = (gr_page g = 0 \<and> live_id d (gr_slug g) \<noteq> 0)"

definition grants_of :: "int \<Rightarrow> store \<Rightarrow> grant list" where
  "grants_of t st = filter (\<lambda>g. gr_token g = t) (st_grants st)"

definition bind_grants :: "int \<Rightarrow> string list \<Rightarrow> db \<Rightarrow> store \<Rightarrow> store" where
  \<comment> \<open>the guarded UPDATE, on the pages it finds\<close>
  "bind_grants t slugs d st =
     st\<lparr>st_grants := update_where (\<lambda>g. gr_token g = t \<and> gr_slug g \<in> set slugs \<and> grant_binds d g)
          (\<lambda>g. g\<lparr>gr_page := live_id d (gr_slug g)\<rparr>) (st_grants st)\<rparr>"

definition load_active_token :: "(token_row \<Rightarrow> bool) \<Rightarrow> db \<Rightarrow> db \<Rightarrow> store \<Rightarrow> token option \<times> store" where
  "load_active_token P d d' st =
     (case find (\<lambda>t. P t \<and> tk_revoked t = None) (st_tokens st) of
        None \<Rightarrow> (None, st)
      | Some t \<Rightarrow>
          let gs = grants_of (tk_id t) st;
              bindable = map gr_slug (filter (grant_binds d) gs) in
          (Some \<lparr>to_id = tk_id t, to_label = tk_label t, to_scope = tk_scope t,
                 to_slugs = sort (map gr_slug (filter (grant_allows d) gs))\<rparr>,
           if bindable = [] then st else bind_grants (tk_id t) bindable d' st))"

definition verify :: "(string \<Rightarrow> string) \<Rightarrow> string \<Rightarrow> db \<Rightarrow> db \<Rightarrow> store \<Rightarrow> token option \<times> store" where
  "verify hmac raw d d' st =
     (if take 4 raw \<noteq> ''pgs_'' then (None, st) else load_active_token (\<lambda>t. tk_hash t = hmac raw) d d' st)"

definition verify_id :: "string \<Rightarrow> db \<Rightarrow> db \<Rightarrow> store \<Rightarrow> (go_error + token option) \<times> store" where
  \<comment> \<open>an id out of the range of a BIGINT is an error of the query\<close>
  "verify_id i d d' st =
     (if \<not> matches decimal_id_re i then (Inr None, st)
      else
        (case parse_int64 i of
           None \<Rightarrow> (Inl (Other ''value out of range''), st)
         | Some n \<Rightarrow> (case load_active_token (\<lambda>t. tk_id t = n) d d' st of (t, st') \<Rightarrow> (Inr t, st'))))"

definition touch :: "int \<Rightarrow> int \<Rightarrow> store \<Rightarrow> store" where
  \<comment> \<open>\<open>last_used_at\<close>, at most every five minutes, in the background\<close>
  "touch t now st =
     st\<lparr>st_tokens := update_where (\<lambda>r. tk_id r = t \<and>
          (case tk_used r of None \<Rightarrow> True | Some u \<Rightarrow> u < now - 5 * 60 * 1000000000))
          (\<lambda>r. r\<lparr>tk_used := Some now\<rparr>) (st_tokens st)\<rparr>"

definition revoke :: "int \<Rightarrow> int \<Rightarrow> store \<Rightarrow> bool \<times> store" where
  "revoke t now st =
     (\<exists>r \<in> set (st_tokens st). tk_id r = t \<and> tk_revoked r = None,
      st\<lparr>st_tokens := update_where (\<lambda>r. tk_id r = t \<and> tk_revoked r = None) (\<lambda>r. r\<lparr>tk_revoked := Some now\<rparr>) (st_tokens st)\<rparr>)"

subsection \<open>Requests\<close>

definition bearer_space :: "char \<Rightarrow> bool" where
  "bearer_space c = (byte c \<in> {9, 10, 12, 13, 32})"

definition bearer_token :: "string \<Rightarrow> string option" where
  \<comment> \<open>\<open>(?i)^Bearer\s+(.+)$\<close>\<close>
  "bearer_token h =
     (let r = drop 6 h; ws = takeWhile bearer_space r; t = dropWhile bearer_space r in
      if map lower_byte (take 6 h) \<noteq> ''bearer'' \<or> ws = [] \<or> CHR 0x0A \<in> set t then None
      else if t \<noteq> [] then Some t
      else if 2 \<le> length ws \<and> last ws \<noteq> CHR 0x0A then Some [last ws] else None)"

record agent =
  ag_actor :: string
  ag_type :: string
  ag_scope :: string
  ag_token :: int
  ag_slugs :: "string list"

definition agent_for :: "token \<Rightarrow> agent" where
  "agent_for t = \<lparr>ag_actor = to_label t, ag_type = audit_agent, ag_scope = to_scope t, ag_token = to_id t, ag_slugs = to_slugs t\<rparr>"

definition unauthorized :: "string \<Rightarrow> string \<Rightarrow> go_error" where
  "unauthorized msg code = new_error 401 msg code VNil"

definition require_bearer :: "(string \<Rightarrow> string) \<Rightarrow> string \<Rightarrow> db \<Rightarrow> db \<Rightarrow> store \<Rightarrow> (go_error + agent) \<times> store" where
  "require_bearer hmac header d d' st =
     (case bearer_token header of
        None \<Rightarrow> (Inl (unauthorized ''missing bearer token'' ''no_token''), st)
      | Some raw \<Rightarrow>
          (case verify hmac raw d d' st of
             (None, st') \<Rightarrow> (Inl (unauthorized ''invalid or revoked token'' ''bad_token''), st')
           | (Some t, st') \<Rightarrow> (Inr (agent_for t), st')))"

definition require_rest_access :: "agent option \<Rightarrow> go_error + unit" where
  "require_rest_access a =
     (case a of
        Some g \<Rightarrow> if legacy_broad (ag_scope g) then Inr () else
          Inl (forbidden ''this bearer token may only use its scoped Pages MCP data tools'' ''token_scope_denied'' VNil)
      | None \<Rightarrow> Inl (forbidden ''this bearer token may only use its scoped Pages MCP data tools'' ''token_scope_denied'' VNil))"

definition is_mcp_tool_allowed :: "agent option \<Rightarrow> string \<Rightarrow> bool" where
  "is_mcp_tool_allowed a tool =
     (case a of
        None \<Rightarrow> False
      | Some g \<Rightarrow>
          if \<not> valid_scope (ag_scope g) then False
          else if legacy_broad (ag_scope g) then True
          else ag_scope g = scope_data_update \<and> tool \<in> set data_update_tools)"

definition authorize_mcp_tool :: "agent option \<Rightarrow> string \<Rightarrow> (string \<times> goval) list \<Rightarrow> go_error + unit" where
  "authorize_mcp_tool a tool args =
     (if \<not> is_mcp_tool_allowed a tool
      then
        let scope = (case a of None \<Rightarrow> ''unknown'' | Some g \<Rightarrow> if ag_scope g \<noteq> [] then ag_scope g else ''unknown'') in
        Inl (forbidden (''token scope '' @ scope @ '' cannot call '' @ tool) ''tool_not_allowed'' VNil)
      else
        (case a of
           None \<Rightarrow> Inr ()
         | Some g \<Rightarrow>
             if ag_scope g \<noteq> scope_data_update then Inr ()
             else
               let raw = (case map_of args ''slug'' of Some (VStr s) \<Rightarrow> s | _ \<Rightarrow> []) in
               (case normalize_grant_slug raw of
                  Inl _ \<Rightarrow> Inl (forbidden ''data_update tools require an exactly granted page slug'' ''slug_not_allowed'' VNil)
                | Inr slug \<Rightarrow>
                    if slug \<in> set (ag_slugs g) then Inr ()
                    else Inl (forbidden (''this token is not authorized for page slug '' @ slug) ''slug_not_allowed'' VNil))))"

subsection \<open>Runs of the token store\<close>

text \<open>Any sequence of operations, each lookup on whatever pages there are at that time.\<close>

datatype token_op =
    Op_Mint request mint_params string db
  | Op_Verify string db db
  | Op_Verify_Id string db db
  | Op_Revoke int int
  | Op_Touch int int

fun token_step :: "(string \<Rightarrow> string) \<Rightarrow> token_op \<Rightarrow> store \<Rightarrow> store" where
  "token_step hmac (Op_Mint rq p bytes d) st = snd (mint hmac rq p bytes d st)"
| "token_step hmac (Op_Verify raw d d') st = snd (verify hmac raw d d' st)"
| "token_step hmac (Op_Verify_Id i d d') st = snd (verify_id i d d' st)"
| "token_step hmac (Op_Revoke t now) st = snd (revoke t now st)"
| "token_step hmac (Op_Touch t now) st = touch t now st"

definition run_tokens :: "(string \<Rightarrow> string) \<Rightarrow> token_op list \<Rightarrow> store \<Rightarrow> store" where
  "run_tokens hmac ops st = fold (token_step hmac) ops st"

definition grant_key :: "grant \<Rightarrow> int \<times> string" where
  "grant_key g = (gr_token g, gr_slug g)"

definition store_ok :: "store \<Rightarrow> bool" where
  \<comment> \<open>the primary keys, the unique hash, and ids that the sequence has handed out\<close>
  "store_ok st \<longleftrightarrow>
     distinct (map grant_key (st_grants st)) \<and> distinct (map tk_id (st_tokens st)) \<and> distinct (map tk_hash (st_tokens st)) \<and>
     (\<forall>g \<in> set (st_grants st). gr_token g < st_next st) \<and> (\<forall>t \<in> set (st_tokens st). tk_id t < st_next st)"

lemma collect_slugs_distinct: "collect_slugs ss out = Inr out' \<Longrightarrow> distinct out \<Longrightarrow> distinct out'"
proof (induction ss out rule: collect_slugs.induct)
  case (2 s ss out)
  then obtain n where n: "normalize_grant_slug s = Inr n"
    and rest: "collect_slugs ss (if n \<in> set out then out else out @ [n]) = Inr out'"
    by (auto simp add: res_bind_Inr_iff)
  show ?case
    using 2(1) rest 2(3) by (auto split: if_splits)
qed simp

lemma mint_args_distinct: "mint_args p = Inr (scope, slugs) \<Longrightarrow> distinct slugs"
  using collect_slugs_distinct
  by (fastforce simp add: mint_args_def normalize_allowed_slugs_def res_bind_Inr_iff Let_def split: if_splits)

lemma mint_cases:
  obtains (failed) e where "mint hmac rq p bytes d st = (Inl e, st)"
  | (minted) scope slugs row where "mint_args p = Inr (scope, slugs)"
      "row = new_token hmac st p scope (''pgs_'' @ url_encode bytes) (rq_now rq)" "tk_hash row \<notin> tk_hash ` set (st_tokens st)"
      "mint hmac rq p bytes d st =
        (Inr \<lparr>mt_id = tk_id row, mt_label = mp_label p, mt_scope = scope, mt_prefix = tk_prefix row, mt_slugs = slugs,
            mt_token = ''pgs_'' @ url_encode bytes\<rparr>,
         \<lparr>st_tokens = st_tokens st @ [row], st_grants = st_grants st @ new_grants d (tk_id row) slugs, st_next = st_next st + 1\<rparr>)"
proof (cases "mint_args p")
  case (Inr r)
  obtain scope slugs where r: "r = (scope, slugs)" by (cases r)
  show ?thesis
  proof (cases "check_write_admission rq")
    case (Inr u)
    define raw where "raw = ''pgs_'' @ url_encode bytes"
    define row where "row = new_token hmac st p scope raw (rq_now rq)"
    show ?thesis
    proof (cases "tk_hash row \<in> tk_hash ` set (st_tokens st)")
      case True
      then have "mint hmac rq p bytes d st = (Inl (Other ''duplicate token_hash''), st)"
        using \<open>mint_args p = Inr r\<close> r Inr
        unfolding mint_def raw_def [symmetric] row_def by (simp only: Let_def sum.case prod.case if_True)
      then show ?thesis by (rule failed)
    next
      case False
      show ?thesis
      proof (rule minted [OF _ _ False])
        show "mint_args p = Inr (scope, slugs)" using \<open>mint_args p = Inr r\<close> r by simp
        show "row = new_token hmac st p scope (''pgs_'' @ url_encode bytes) (rq_now rq)" by (simp only: row_def raw_def)
      qed (use False \<open>mint_args p = Inr r\<close> r Inr in
        \<open>unfold mint_def raw_def [symmetric] row_def, simp only: Let_def sum.case prod.case if_False\<close>)
    qed
  qed (use Inr r failed in \<open>simp add: mint_def Let_def\<close>)
qed (use failed in \<open>simp add: mint_def\<close>)

lemma bind_grants_keys: "map grant_key (st_grants (bind_grants t ss d st)) = map grant_key (st_grants st)"
proof -
  have "map grant_key (update_where P (\<lambda>g. g\<lparr>gr_page := live_id d (gr_slug g)\<rparr>) gs) = map grant_key gs" for P gs
    by (rule map_update_where_id) (simp add: grant_key_def)
  then show ?thesis by (simp add: bind_grants_def)
qed

lemma load_cases:
  obtains (same) "snd (load_active_token P d d' st) = st"
  | (bound) t ss where "snd (load_active_token P d d' st) = bind_grants t ss d' st"
proof (cases "find (\<lambda>t. P t \<and> tk_revoked t = None) (st_tokens st)")
  case None
  then show ?thesis by (intro same) (simp add: load_active_token_def)
next
  case (Some t)
  define ss where "ss = map gr_slug (filter (grant_binds d) (grants_of (tk_id t) st))"
  have "snd (load_active_token P d d' st) = (if ss = [] then st else bind_grants (tk_id t) ss d' st)"
    using Some by (simp add: load_active_token_def Let_def ss_def del: map_is_Nil_conv)
  then show ?thesis by (cases "ss = []") (simp_all add: same bound)
qed

text \<open>What every operation does to the tables: the tokens keep their keys, the grants theirs, bound grants stay.\<close>

definition store_steps :: "store \<Rightarrow> store \<Rightarrow> bool" where
  "store_steps st st' \<longleftrightarrow>
     (store_ok st \<longrightarrow> store_ok st') \<and> st_next st \<le> st_next st' \<and>
     (\<forall>g \<in> set (st_grants st). gr_page g \<noteq> 0 \<longrightarrow> g \<in> set (st_grants st')) \<and>
     (\<forall>t' \<in> set (st_tokens st'). tk_id t' < st_next st \<longrightarrow>
        (\<exists>t \<in> set (st_tokens st). tk_id t = tk_id t' \<and> tk_hash t = tk_hash t' \<and> (tk_revoked t' = None \<longrightarrow> tk_revoked t = None)))"

lemma store_steps_refl: "store_steps st st"
  by (auto simp add: store_steps_def)

lemma store_steps_old:
  assumes "store_steps st st'" "r \<in> set (st_tokens st')" "tk_id r < st_next st"
  obtains t where "t \<in> set (st_tokens st)" "tk_id t = tk_id r" "tk_hash t = tk_hash r" "tk_revoked r = None \<longrightarrow> tk_revoked t = None"
  using assms unfolding store_steps_def by meson

lemma store_steps_trans: "store_steps a b \<Longrightarrow> store_steps b c \<Longrightarrow> store_steps a c"
proof -
  assume ab: "store_steps a b" and bc: "store_steps b c"
  have "\<exists>t \<in> set (st_tokens a). tk_id t = tk_id r \<and> tk_hash t = tk_hash r \<and> (tk_revoked r = None \<longrightarrow> tk_revoked t = None)"
    if r: "r \<in> set (st_tokens c)" "tk_id r < st_next a" for r
  proof -
    from ab r(2) have "tk_id r < st_next b" by (simp add: store_steps_def)
    with bc r(1) obtain t where t: "t \<in> set (st_tokens b)" "tk_id t = tk_id r" "tk_hash t = tk_hash r"
        "tk_revoked r = None \<longrightarrow> tk_revoked t = None"
      unfolding store_steps_def by meson
    with ab r(2) obtain u where "u \<in> set (st_tokens a)" "tk_id u = tk_id t" "tk_hash u = tk_hash t"
        "tk_revoked t = None \<longrightarrow> tk_revoked u = None"
      unfolding store_steps_def by metis
    with t show ?thesis by auto
  qed
  with ab bc show ?thesis by (auto simp add: store_steps_def)
qed

lemma store_steps_grants:
  assumes "st_tokens st' = st_tokens st" "st_next st' = st_next st" "map grant_key (st_grants st') = map grant_key (st_grants st)"
    "\<And>g. g \<in> set (st_grants st) \<Longrightarrow> gr_page g \<noteq> 0 \<Longrightarrow> g \<in> set (st_grants st')"
  shows "store_steps st st'"
proof -
  have "(\<forall>g \<in> set (st_grants st'). gr_token g < n) \<longleftrightarrow> (\<forall>k \<in> set (map grant_key (st_grants st')). fst k < n)" for n
    by (simp add: grant_key_def)
  moreover have "(\<forall>g \<in> set (st_grants st). gr_token g < n) \<longleftrightarrow> (\<forall>k \<in> set (map grant_key (st_grants st)). fst k < n)" for n
    by (simp add: grant_key_def)
  ultimately have "store_ok st \<longrightarrow> store_ok st'" using assms(1-3) by (simp add: store_ok_def)
  with assms show ?thesis by (auto simp add: store_steps_def)
qed

lemma load_steps: "store_steps st (snd (load_active_token P d d' st))"
proof (cases rule: load_cases [of P d d' st])
  case (bound t ss)
  show ?thesis unfolding bound
  proof (rule store_steps_grants)
    show "g \<in> set (st_grants (bind_grants t ss d' st))" if "g \<in> set (st_grants st)" "gr_page g \<noteq> 0" for g
      using that by (auto simp add: bind_grants_def mem_update_where_iff grant_binds_def intro!: bexI [of _ g])
    show "map grant_key (st_grants (bind_grants t ss d' st)) = map grant_key (st_grants st)" by (rule bind_grants_keys)
  qed (simp_all add: bind_grants_def)
qed (simp add: store_steps_refl)

lemma update_tokens_steps:
  assumes "\<And>r. tk_id (f r) = tk_id r" "\<And>r. tk_hash (f r) = tk_hash r" "\<And>r. tk_revoked (f r) = None \<Longrightarrow> tk_revoked r = None"
  shows "store_steps st (st\<lparr>st_tokens := update_where P f (st_tokens st)\<rparr>)"
proof -
  have keys: "map tk_id (update_where P f ts) = map tk_id ts" "map tk_hash (update_where P f ts) = map tk_hash ts" for ts
    using assms(1,2) by (simp_all add: map_update_where_id)
  have "\<exists>t \<in> set (st_tokens st). tk_id t = tk_id r \<and> tk_hash t = tk_hash r \<and> (tk_revoked r = None \<longrightarrow> tk_revoked t = None)"
    if "r \<in> set (update_where P f (st_tokens st))" for r
  proof -
    from that obtain t where t: "t \<in> set (st_tokens st)" "r = (if P t then f t else t)" by (auto simp add: mem_update_where_iff)
    then show ?thesis using assms by (intro bexI [of _ t]) simp_all
  qed
  moreover have "\<forall>r \<in> set (update_where P f (st_tokens st)). tk_id r < st_next st" if "store_ok st"
    using that assms(1) by (auto simp add: store_ok_def mem_update_where_iff)
  ultimately show ?thesis by (simp add: store_steps_def store_ok_def keys)
qed

lemma mint_steps: "store_steps st (snd (mint hmac rq p bytes d st))"
proof (cases rule: mint_cases [of hmac rq p bytes d st])
  case (minted scope slugs row)
  have keys: "map grant_key (new_grants d (tk_id row) slugs) = map (Pair (tk_id row)) slugs" and row: "tk_id row = st_next st"
    using minted(2) by (simp_all add: new_grants_def grant_key_def new_token_def)
  have "store_ok st \<longrightarrow> store_ok (snd (mint hmac rq p bytes d st))"
  proof
    assume ok: "store_ok st"
    have "distinct (map (Pair (tk_id row)) slugs)" using mint_args_distinct [OF minted(1)] by (simp add: distinct_map inj_on_def)
    moreover have "set (map grant_key (st_grants st)) \<inter> set (map (Pair (tk_id row)) slugs) = {}"
      using ok row by (auto simp add: store_ok_def grant_key_def)
    ultimately have "distinct (map grant_key (st_grants st @ new_grants d (tk_id row) slugs))"
      using ok by (simp add: store_ok_def keys)
    with ok row minted(3) show "store_ok (snd (mint hmac rq p bytes d st))"
      by (auto simp add: store_ok_def minted(4) new_grants_def)
  qed
  with row show ?thesis by (auto simp add: store_steps_def minted(4))
qed (simp add: store_steps_refl)

lemma token_step_steps: "store_steps st (token_step hmac op st)"
proof (cases op)
  case (Op_Verify raw d d')
  then show ?thesis by (simp add: verify_def store_steps_refl load_steps)
next
  case (Op_Verify_Id i d d')
  then show ?thesis by (simp add: verify_id_def store_steps_refl load_steps split: option.split prod.split)
      (metis load_steps snd_conv)
next
  case (Op_Revoke t now)
  then show ?thesis by (auto simp add: revoke_def intro!: update_tokens_steps)
next
  case (Op_Touch t now)
  then show ?thesis by (auto simp add: touch_def intro!: update_tokens_steps)
qed (simp add: mint_steps)

lemma run_tokens_steps: "store_steps st (run_tokens hmac ops st)"
  unfolding run_tokens_def
proof (induction ops arbitrary: st)
  case (Cons op ops)
  show ?case using store_steps_trans [OF token_step_steps Cons.IH] by simp
qed (simp add: store_steps_refl)

lemma run_tokens_ok: "store_ok st \<Longrightarrow> store_ok (run_tokens hmac ops st)"
  using run_tokens_steps [of st hmac ops] by (simp add: store_steps_def)

lemma run_tokens_bound:
  "g \<in> set (st_grants st) \<Longrightarrow> gr_page g \<noteq> 0 \<Longrightarrow> g \<in> set (st_grants (run_tokens hmac ops st))"
  using run_tokens_steps [of st hmac ops] by (simp add: store_steps_def)

lemma store_grant_unique:
  assumes "store_ok st" "g \<in> set (st_grants st)" "h \<in> set (st_grants st)" "grant_key g = grant_key h"
  shows "g = h"
  using assms by (auto simp add: store_ok_def distinct_map dest: inj_onD)

lemma load_active_Some:
  assumes k: "fst (load_active_token P d d' st) = Some k"
  obtains t where "t \<in> set (st_tokens st)" "P t" "tk_revoked t = None" "to_id k = tk_id t" "to_label k = tk_label t"
    "to_scope k = tk_scope t" "set (to_slugs k) = gr_slug ` {g \<in> set (st_grants st). gr_token g = tk_id t \<and> grant_allows d g}"
  using assms
  by (auto simp add: load_active_token_def grants_of_def image_def Let_def split: option.splits
      dest!: find_Some_mem)

lemma require_bearer_Inr:
  assumes "fst (require_bearer hmac header d d' st) = Inr a"
  obtains raw k where "bearer_token header = Some raw" "fst (load_active_token (\<lambda>t. tk_hash t = hmac raw) d d' st) = Some k"
    "a = agent_for k"
  using assms by (auto simp add: require_bearer_def verify_def split: option.splits prod.splits if_splits)

lemma verify_id_Some:
  assumes "fst (verify_id i d d' st) = Inr (Some k)"
  obtains n where "fst (load_active_token (\<lambda>t. tk_id t = n) d d' st) = Some k"
proof -
  obtain n where n: "parse_int64 i = Some n" "matches decimal_id_re i"
    using assms by (auto simp add: verify_id_def split: option.splits if_splits)
  show ?thesis
    by (rule that [of n]) (use assms n in \<open>simp add: verify_id_def split: prod.splits\<close>)
qed

text \<open>Where both accept a slug, the grants' normalizer and the handlers' agree.\<close>

lemma undot_id: "\<not> contains_str dotted_I s \<Longrightarrow> undot s = s"
proof (induction s rule: undot.induct)
  case (3 a b s)
  from 3(3) have "\<not> contains_str dotted_I (b # s)" "[a, b] \<noteq> dotted_I"
    by (auto simp add: contains_str_def sublist_def dotted_I_def) (metis append_Cons)
  with 3(2) show ?case by simp
qed simp_all

lemma normalize_grant_slug_agrees: "normalize_slug (VStr s) = Inr n \<Longrightarrow> normalize_grant_slug s = Inr n"
  by (auto simp add: normalize_slug_def normalize_grant_slug_def undot_id Let_def split: if_splits)

lemma authorize_scoped:
  assumes "authorize_mcp_tool (Some a) tool args = Inr u" "ag_scope a = scope_data_update"
    and "map_of args ''slug'' = Some (VStr s)" "normalize_slug (VStr s) = Inr n"
  shows "n \<in> set (ag_slugs a)" "tool \<in> set data_update_tools"
  using assms normalize_grant_slug_agrees [OF assms(4)]
  by (auto simp add: authorize_mcp_tool_def is_mcp_tool_allowed_def scope_data_update_def scope_deploy_def scope_admin_def
      legacy_broad_def Let_def split: if_splits)

subsection \<open>A token with one bound grant\<close>

definition ex_token :: token_row where
  "ex_token =
     \<lparr>tk_id = 7, tk_label = ''bot'', tk_prefix = ''pgs_k'', tk_hash = ''pgs_k'', tk_scope = scope_data_update, tk_used = None,
      tk_created = 0, tk_revoked = None\<rparr>"

definition ex_store :: "token_row \<Rightarrow> store" where
  "ex_store t = \<lparr>st_tokens = [t], st_grants = [\<lparr>gr_token = 7, gr_slug = ''acme'', gr_page = 1\<rparr>], st_next = 8\<rparr>"

definition ex_mint :: mint_params where
  "ex_mint = \<lparr>mp_label = ''bot'', mp_scope = scope_data_update, mp_slugs = [''acme'']\<rparr>"

lemma ex_store_ok: "store_ok (ex_store ex_token)"
  by (simp add: store_ok_def ex_store_def ex_token_def grant_key_def)

lemma ex_live: "find_live ''acme'' (ex_db ex_page []) = Some ex_page"
  by (simp add: find_live_def live_page_def ex_defs)

lemma ex_live_id: "live_id (ex_db ex_page []) ''acme'' = 1"
  by (simp add: live_id_def ex_live) (simp add: ex_page_def)

lemma ex_bearer: "bearer_token ''Bearer pgs_k'' = Some ''pgs_k''"
proof -
  have "map lower_byte ''Bearer'' = ''bearer''" by code_simp
  then show ?thesis by (simp add: bearer_token_def bearer_space_def Let_def)
qed

lemma ex_verify:
  "require_bearer (\<lambda>s. s) ''Bearer pgs_k'' (ex_db ex_page []) d' (ex_store ex_token) =
     (Inr \<lparr>ag_actor = ''bot'', ag_type = audit_agent, ag_scope = scope_data_update, ag_token = 7, ag_slugs = [''acme'']\<rparr>,
      ex_store ex_token)"
  by (simp add: require_bearer_def ex_bearer verify_def load_active_token_def grants_of_def grant_allows_def grant_binds_def
      ex_live_id ex_store_def ex_token_def agent_for_def)

lemma ex_authorize:
  "authorize_mcp_tool (Some \<lparr>ag_actor = ''bot'', ag_type = audit_agent, ag_scope = scope_data_update, ag_token = 7,
     ag_slugs = [''acme'']\<rparr>) ''update_page_data'' [(''slug'', VStr ''acme'')] = Inr ()"
  using normalize_grant_slug_agrees [OF ex_slug_norm]
  by (simp add: authorize_mcp_tool_def is_mcp_tool_allowed_def valid_scope_def scopes_def scope_data_update_def scope_deploy_def
      scope_admin_def legacy_broad_def data_update_tools_def)



text \<open>
  C31: revocation is final. After a token has been revoked, no sequence of operations makes it answer again: neither
  a bearer header nor a lookup by id ever yields an identity of that token.
\<close>

theorem revoked_token_never_answers:
  assumes st: "store_ok st" and known: "t \<in> tk_id ` set (st_tokens st)"
    and later: "later = run_tokens hmac ops (snd (revoke t now st))"
  shows "(fst (require_bearer hmac header d d' later) = Inr a \<longrightarrow> ag_token a \<noteq> t) \<and>
    (fst (verify_id i d d' later) = Inr (Some k) \<longrightarrow> to_id k \<noteq> t)"
proof -
  have dead: "to_id k \<noteq> t" if k: "fst (load_active_token P d d' later) = Some k" for P k
  proof
    assume id: "to_id k = t"
    obtain r where r: "r \<in> set (st_tokens later)" "tk_revoked r = None" "to_id k = tk_id r"
      by (rule load_active_Some [OF k])
    have below: "tk_id r < st_next (snd (revoke t now st))" using st known id r(3) by (auto simp add: store_ok_def revoke_def)
    obtain q where q: "q \<in> set (st_tokens (snd (revoke t now st)))" "tk_id q = tk_id r" "tk_revoked r = None \<longrightarrow> tk_revoked q = None"
      by (rule store_steps_old [OF run_tokens_steps r(1) [unfolded later] below])
    then have dead: "tk_id q = t" "tk_revoked q = None" using id r(2,3) by auto
    from q(1) obtain x where "q = (if tk_id x = t \<and> tk_revoked x = None then x\<lparr>tk_revoked := Some now\<rparr> else x)"
      by (auto simp add: revoke_def mem_update_where_iff)
    with dead show False by (cases "tk_id x = t \<and> tk_revoked x = None") auto
  qed
  have "ag_token a \<noteq> t" if bearer: "fst (require_bearer hmac header d d' later) = Inr a"
  proof -
    from bearer obtain raw k where k: "fst (load_active_token (\<lambda>t. tk_hash t = hmac raw) d d' later) = Some k" "a = agent_for k"
      by (rule require_bearer_Inr)
    show ?thesis using dead [OF k(1)] by (simp add: k(2) agent_for_def)
  qed
  moreover have "to_id k \<noteq> t" if looked: "fst (verify_id i d d' later) = Inr (Some k)"
  proof -
    from looked obtain n where "fst (load_active_token (\<lambda>t. tk_id t = n) d d' later) = Some k" by (rule verify_id_Some)
    then show ?thesis by (rule dead)
  qed
  ultimately show ?thesis by blast
qed

theorem revoked_token_never_answers_witness:
  "fst (require_bearer (\<lambda>s. s) ''Bearer pgs_k'' (ex_db ex_page []) (ex_db ex_page []) (ex_store ex_token)) =
     Inr \<lparr>ag_actor = ''bot'', ag_type = audit_agent, ag_scope = scope_data_update, ag_token = 7, ag_slugs = [''acme'']\<rparr> \<and>
   \<not> (\<exists>a. fst (require_bearer (\<lambda>s. s) ''Bearer pgs_k'' (ex_db ex_page []) (ex_db ex_page [])
        (run_tokens (\<lambda>s. s) [Op_Touch 7 100] (snd (revoke 7 50 (ex_store ex_token))))) = Inr a \<and> ag_token a = 7)"
  using revoked_token_never_answers [OF ex_store_ok, of 7 _ "\<lambda>s. s" "[Op_Touch 7 100]" 50 "''Bearer pgs_k''"
      "ex_db ex_page []" "ex_db ex_page []"]
  by (auto simp add: ex_verify) (auto simp add: ex_store_def ex_token_def)

text \<open>What an operation that does not revoke token \<open>i\<close> leaves of it.\<close>

definition holds_token :: "int \<Rightarrow> string \<Rightarrow> string \<Rightarrow> string \<Rightarrow> store \<Rightarrow> bool" where
  "holds_token i h l sc st \<longleftrightarrow>
     (\<exists>t \<in> set (st_tokens st). tk_id t = i \<and> tk_hash t = h \<and> tk_label t = l \<and> tk_scope t = sc \<and> tk_revoked t = None)"

definition keeps_token :: "int \<Rightarrow> store \<Rightarrow> store \<Rightarrow> bool" where
  "keeps_token i st st' \<longleftrightarrow>
     (\<forall>h l sc. holds_token i h l sc st \<longrightarrow> holds_token i h l sc st') \<and>
     (i < st_next st \<longrightarrow> i < st_next st' \<and> (\<forall>g \<in> set (st_grants st'). gr_token g = i \<longrightarrow> grant_key g \<in> grant_key ` set (st_grants st)))"

lemma keeps_token_refl: "keeps_token i st st"
  by (auto simp add: keeps_token_def)

lemma keeps_token_trans:
  assumes "keeps_token i a b" "keeps_token i b c"
  shows "keeps_token i a c"
proof -
  have "i < st_next c \<and> (\<forall>g \<in> set (st_grants c). gr_token g = i \<longrightarrow> grant_key g \<in> grant_key ` set (st_grants a))"
    if i: "i < st_next a"
  proof (intro conjI ballI impI)
    from assms(1) i have b: "i < st_next b"
      "\<And>g. g \<in> set (st_grants b) \<Longrightarrow> gr_token g = i \<Longrightarrow> grant_key g \<in> grant_key ` set (st_grants a)"
      by (simp_all add: keeps_token_def)
    from assms(2) b(1) have c: "i < st_next c"
      "\<And>g. g \<in> set (st_grants c) \<Longrightarrow> gr_token g = i \<Longrightarrow> grant_key g \<in> grant_key ` set (st_grants b)"
      by (simp_all add: keeps_token_def)
    show "i < st_next c" by (rule c(1))
    show "grant_key g \<in> grant_key ` set (st_grants a)" if g: "g \<in> set (st_grants c)" "gr_token g = i" for g
    proof -
      from c(2) [OF g] obtain h where h: "h \<in> set (st_grants b)" "grant_key g = grant_key h" by auto
      with g(2) have "gr_token h = i" by (simp add: grant_key_def)
      from b(2) [OF h(1) this] h(2) show ?thesis by simp
    qed
  qed
  with assms show ?thesis by (auto simp add: keeps_token_def)
qed

lemma same_keys_keep:
  assumes "map grant_key (st_grants st') = map grant_key (st_grants st)" "g \<in> set (st_grants st')"
  shows "grant_key g \<in> grant_key ` set (st_grants st)"
  using assms by (metis image_eqI image_set)

lemma load_keeps: "keeps_token i st (snd (load_active_token P d d' st))"
proof (cases rule: load_cases [of P d d' st])
  case (bound t ss)
  have "st_tokens (bind_grants t ss d' st) = st_tokens st" "st_next (bind_grants t ss d' st) = st_next st"
    by (simp_all add: bind_grants_def)
  with same_keys_keep [OF bind_grants_keys] show ?thesis unfolding bound
    by (auto simp add: keeps_token_def holds_token_def)
qed (simp add: keeps_token_refl)

lemma update_tokens_keeps:
  assumes "\<And>r. tk_id (f r) = tk_id r" "\<And>r. tk_hash (f r) = tk_hash r" "\<And>r. tk_label (f r) = tk_label r"
    "\<And>r. tk_scope (f r) = tk_scope r" "\<And>r. P r \<Longrightarrow> tk_id r = i \<Longrightarrow> tk_revoked (f r) = tk_revoked r"
  shows "keeps_token i st (st\<lparr>st_tokens := update_where P f (st_tokens st)\<rparr>)"
proof -
  have "holds_token i h l sc (st\<lparr>st_tokens := update_where P f (st_tokens st)\<rparr>)" if held: "holds_token i h l sc st" for h l sc
  proof -
    from held obtain t where t: "t \<in> set (st_tokens st)" "tk_id t = i" "tk_hash t = h" "tk_label t = l" "tk_scope t = sc"
        "tk_revoked t = None"
      by (auto simp add: holds_token_def)
    have "(if P t then f t else t) \<in> set (update_where P f (st_tokens st))" using t(1) by (auto simp add: mem_update_where_iff)
    then show ?thesis using t assms by (auto simp add: holds_token_def intro!: bexI [of _ "if P t then f t else t"])
  qed
  then show ?thesis by (auto simp add: keeps_token_def)
qed

lemma token_step_keeps:
  assumes "\<forall>now. op \<noteq> Op_Revoke i now"
  shows "keeps_token i st (token_step hmac op st)"
proof (cases op)
  case (Op_Mint rq p bytes d)
  then show ?thesis
    by (cases rule: mint_cases [of hmac rq p bytes d st])
      (auto simp add: keeps_token_refl, auto simp add: keeps_token_def holds_token_def new_grants_def new_token_def)
next
  case (Op_Verify raw d d')
  then show ?thesis by (simp add: verify_def keeps_token_refl load_keeps)
next
  case (Op_Verify_Id j d d')
  then show ?thesis using load_keeps by (auto simp add: verify_id_def keeps_token_refl split: option.split prod.split) (metis snd_conv)
next
  case (Op_Revoke t now)
  with assms have "t \<noteq> i" by auto
  with Op_Revoke show ?thesis by (auto simp add: revoke_def intro!: update_tokens_keeps)
next
  case (Op_Touch t now)
  then show ?thesis by (auto simp add: touch_def intro!: update_tokens_keeps)
qed

lemma run_tokens_keeps: "\<forall>now. Op_Revoke i now \<notin> set ops \<Longrightarrow> keeps_token i st (run_tokens hmac ops st)"
  unfolding run_tokens_def
proof (induction ops arbitrary: st)
  case (Cons op ops)
  then have "keeps_token i st (token_step hmac op st)" by (intro token_step_keeps) auto
  moreover have "keeps_token i (token_step hmac op st) (fold (token_step hmac) ops (token_step hmac op st))"
    using Cons by auto
  ultimately show ?case using keeps_token_trans by auto
qed (simp add: keeps_token_refl)

lemma load_active_hash:
  assumes "store_ok st" "t \<in> set (st_tokens st)" "tk_revoked t = None" "tk_hash t = h"
  obtains k where "fst (load_active_token (\<lambda>t. tk_hash t = h) d d' st) = Some k" "to_id k = tk_id t" "to_scope k = tk_scope t"
    "set (to_slugs k) \<subseteq> gr_slug ` {g \<in> set (st_grants st). gr_token g = tk_id t}"
proof -
  have "find (\<lambda>t. tk_hash t = h \<and> tk_revoked t = None) (st_tokens st) \<noteq> None"
    using assms(2-4) by (auto simp add: find_None_mem)
  then obtain r where r: "find (\<lambda>t. tk_hash t = h \<and> tk_revoked t = None) (st_tokens st) = Some r" by auto
  with assms have "r = t" by (auto simp add: store_ok_def distinct_map dest!: find_Some_mem dest: inj_onD)
  with r show ?thesis by (intro that) (auto simp add: load_active_token_def grants_of_def Let_def)
qed

lemma bearer_token_minted: "bearer_token (''Bearer '' @ ''pgs_'' @ url_encode bytes) = Some (''pgs_'' @ url_encode bytes)"
proof -
  have "CHR 0x0A \<notin> set (url_encode bytes)"
  proof
    assume "CHR 0x0A \<in> set (url_encode bytes)"
    then obtain v where v: "v < 64" "CHR 0x0A = url_char v" using url_encode_chars by blast
    have "byte (url_char v) = 10" unfolding v(2) [symmetric] by simp
    with byte_url_char [OF v(1)] show False by (auto split: if_splits)
  qed
  moreover have "map lower_byte ''Bearer'' = ''bearer''" by code_simp
  ultimately show ?thesis by (simp add: bearer_token_def bearer_space_def Let_def)
qed

text \<open>
  C32: a minted token answers until it is revoked. The token that \<open>Mint\<close> returns, presented as a bearer header after
  any further operations that do not revoke it, yields an identity with its id and its scope, which holds no slug
  that was not granted at the mint.
\<close>

theorem minted_token_answers:
  assumes st: "store_ok st" and m: "mint hmac rq p bytes d st = (Inr m, st')"
    and ops: "\<forall>now. Op_Revoke (mt_id m) now \<notin> set ops"
  shows "\<exists>a. fst (require_bearer hmac (''Bearer '' @ mt_token m) d1 d2 (run_tokens hmac ops st')) = Inr a \<and>
    ag_token a = mt_id m \<and> ag_scope a = mt_scope m \<and> set (ag_slugs a) \<subseteq> set (mt_slugs m)"
  using m
proof (cases rule: mint_cases [of hmac rq p bytes d st])
  case (minted scope slugs row)
  let ?raw = "''pgs_'' @ url_encode bytes"
  have m': "mt_id m = tk_id row" "mt_token m = ?raw" "mt_slugs m = slugs" "mt_scope m = scope"
    and st': "st' = \<lparr>st_tokens = st_tokens st @ [row], st_grants = st_grants st @ new_grants d (tk_id row) slugs, st_next = st_next st + 1\<rparr>"
    using m minted(4) by auto
  have row: "tk_id row = st_next st" "tk_hash row = hmac ?raw" "tk_scope row = scope" "tk_revoked row = None"
    using minted(2) by (simp_all add: new_token_def)
  have ok: "store_ok (run_tokens hmac ops st')"
    using mint_steps [of st hmac rq p bytes d] st m by (intro run_tokens_ok) (simp add: store_steps_def)
  have keep: "keeps_token (tk_id row) st' (run_tokens hmac ops st')" using ops m'(1) by (intro run_tokens_keeps) simp
  have "holds_token (tk_id row) (tk_hash row) (tk_label row) (tk_scope row) st'" using row(4) by (auto simp add: holds_token_def st')
  with keep obtain t where t: "t \<in> set (st_tokens (run_tokens hmac ops st'))" "tk_id t = tk_id row" "tk_hash t = tk_hash row"
      "tk_scope t = tk_scope row" "tk_revoked t = None"
    unfolding keeps_token_def holds_token_def by blast
  from t(3) row(2) have h: "tk_hash t = hmac ?raw" by simp
  obtain k where k: "fst (load_active_token (\<lambda>t. tk_hash t = hmac ?raw) d1 d2 (run_tokens hmac ops st')) = Some k"
      "to_id k = tk_id t" "to_scope k = tk_scope t"
      "set (to_slugs k) \<subseteq> gr_slug ` {g \<in> set (st_grants (run_tokens hmac ops st')). gr_token g = tk_id t}"
    by (rule load_active_hash [OF ok t(1,5) h])
  have "gr_slug g \<in> set slugs" if g: "g \<in> set (st_grants (run_tokens hmac ops st'))" "gr_token g = tk_id row" for g
  proof -
    have "grant_key g \<in> grant_key ` set (st_grants st')" using keep g row(1) by (simp add: keeps_token_def st')
    moreover have "\<forall>g \<in> set (st_grants st). gr_token g \<noteq> tk_id row" using st row(1) by (auto simp add: store_ok_def)
    ultimately show ?thesis using g(2) by (auto simp add: st' grant_key_def new_grants_def)
  qed
  with k(4) t(2) have "set (to_slugs k) \<subseteq> set slugs" by auto
  moreover have "fst (require_bearer hmac (''Bearer '' @ mt_token m) d1 d2 (run_tokens hmac ops st')) = Inr (agent_for k)"
    using k(1) unfolding require_bearer_def m'(2) bearer_token_minted verify_def
    by (cases "load_active_token (\<lambda>t. tk_hash t = hmac ?raw) d1 d2 (run_tokens hmac ops st')") simp
  ultimately show ?thesis using k(2,3) t(2,4) m' row(3) by (auto simp add: agent_for_def)
qed simp

lemma ex_minted:
  "mint (\<lambda>s. s) ex_request ex_mint bytes (ex_db ex_page []) empty_store =
     (Inr \<lparr>mt_id = 1, mt_label = ''bot'', mt_scope = scope_data_update, mt_prefix = take 12 (''pgs_'' @ url_encode bytes),
         mt_slugs = [''acme''], mt_token = ''pgs_'' @ url_encode bytes\<rparr>,
      \<lparr>st_tokens = [new_token (\<lambda>s. s) empty_store ex_mint scope_data_update (''pgs_'' @ url_encode bytes) 100],
       st_grants = [\<lparr>gr_token = 1, gr_slug = ''acme'', gr_page = 1\<rparr>], st_next = 2\<rparr>)"
proof -
  have "mint_args ex_mint = Inr (scope_data_update, [''acme''])"
    using normalize_grant_slug_agrees [OF ex_slug_norm]
    by (simp add: mint_args_def ex_mint_def valid_scope_def scopes_def normalize_allowed_slugs_def scope_data_update_def
        res_bind_def)
  then show ?thesis
    unfolding mint_def
    by (simp add: Let_def check_write_admission_def ex_request_def empty_store_def new_token_def new_grants_def ex_live_id)
      (simp add: ex_mint_def)
qed

theorem minted_token_answers_witness:
  "\<exists>a. fst (require_bearer (\<lambda>s. s) (''Bearer '' @ ''pgs_'' @ url_encode ''secret'') (ex_db ex_page []) (ex_db ex_page [])
       (run_tokens (\<lambda>s. s) [Op_Revoke 7 120, Op_Touch 1 130]
         (snd (mint (\<lambda>s. s) ex_request ex_mint ''secret'' (ex_db ex_page []) empty_store)))) = Inr a \<and>
     ag_token a = 1 \<and> ag_scope a = scope_data_update \<and> set (ag_slugs a) \<subseteq> {''acme''}"
proof -
  have "store_ok empty_store" by (simp add: store_ok_def empty_store_def)
  from minted_token_answers [OF this ex_minted [of "''secret''"], of "[Op_Revoke 7 120, Op_Touch 1 130]"
      "ex_db ex_page []" "ex_db ex_page []"]
  show ?thesis by (simp add: ex_minted)
qed

end
