(* ===== verification/Cursor.thy ===== *)
theory Cursor
  imports Json_Roundtrip Base64 Freshness
begin

text \<open>
  \<open>internal/mcp/cursor.go\<close>: keyset cursors. A cursor is the base64url form of a JSON object that names
  the list it belongs to, the row to continue after and a hash of the filters. SHA-256 is a
  parameter.
\<close>

definition float_one :: float64 where "float_one = FFin False ''1'' 0"

definition cursor_hash :: "(string \<Rightarrow> string) \<Rightarrow> goval \<Rightarrow> string" where
  "cursor_hash sha filters = take 22 (url_encode (sha (stringify filters)))"

definition cursor_payload :: "(string \<Rightarrow> string) \<Rightarrow> string \<Rightarrow> goval \<Rightarrow> goval \<Rightarrow> goval" where
  "cursor_payload sha kind row filters =
     VObj [(''v'', VFloat float_one), (''kind'', VStr kind), (''after'', row), (''filters'', VStr (cursor_hash sha filters))]"

definition encode_cursor :: "(string \<Rightarrow> string) \<Rightarrow> string \<Rightarrow> goval \<Rightarrow> goval \<Rightarrow> string" where
  "encode_cursor sha kind row filters = url_encode (stringify (cursor_payload sha kind row filters))"

definition cursor_class :: "(char \<times> char) list" where
  "cursor_class = [(CHR ''A'', CHR ''Z''), (CHR ''a'', CHR ''z''), (CHR ''0'', CHR ''9''), (CHR ''_'', CHR ''_''), (CHR ''-'', CHR ''-'')]"

definition cursor_re :: regex where
  "cursor_re = RPlus (RCls cursor_class)"

definition bad_cursor :: go_error where
  "bad_cursor = bad_request ''invalid or stale pagination cursor'' ''invalid_cursor'' VNil"

definition obj_value :: "(string \<times> goval) list \<Rightarrow> string \<Rightarrow> goval" where
  \<comment> \<open>\<open>Value\<close>: nil when absent\<close>
  "obj_value es k = (case map_of es k of None \<Rightarrow> VNil | Some v \<Rightarrow> v)"

definition decode_cursor :: "(string \<Rightarrow> string) \<Rightarrow> string \<Rightarrow> string \<Rightarrow> goval \<Rightarrow> go_error + (string \<times> goval) list option" where
  "decode_cursor sha encoded kind filters =
     (if encoded = [] then Inr None
      else if \<not> matches cursor_re encoded \<or> 2048 < length encoded then Inl bad_cursor
      else
        (case json_lossless (decode_utf8 (base64_decode encoded)) of
           Inr (VObj es) \<Rightarrow>
             if obj_value es ''v'' \<noteq> VFloat float_one \<or> obj_value es ''kind'' \<noteq> VStr kind \<or>
                obj_value es ''filters'' \<noteq> VStr (cursor_hash sha filters)
             then Inl bad_cursor
             else
               (case obj_value es ''after'' of
                  VObj a \<Rightarrow> Inr (Some a)
                | VList _ \<Rightarrow> Inr (Some [])
                | _ \<Rightarrow> Inl bad_cursor)
         | _ \<Rightarrow> Inl bad_cursor))"

subsection \<open>A cursor is read back where it was issued, and nowhere else\<close>

lemma star_class: "list_all (in_class rs) s \<Longrightarrow> s \<in> star_lang (lang (RCls rs))"
proof (induction s)
  case (Cons c s)
  then have "[c] @ s \<in> star_lang (lang (RCls rs))" by (intro star_app) auto
  then show ?case by simp
qed (rule star_nil)

lemma matches_plus_class: "s \<noteq> [] \<Longrightarrow> list_all (in_class rs) s \<Longrightarrow> matches (RPlus (RCls rs)) s"
proof -
  assume "s \<noteq> []" "list_all (in_class rs) s"
  then obtain c t where s: "s = [c] @ t" "in_class rs c" "list_all (in_class rs) t" by (cases s) auto
  with star_class [of rs t] have "\<exists>u v. s = u @ v \<and> u \<in> lang (RCls rs) \<and> v \<in> star_lang (lang (RCls rs))"
    by (intro exI [of _ "[c]"] exI [of _ t]) simp
  then show ?thesis by (simp only: matches_lang lang_RPlus mem_Collect_eq)
qed

lemma url_char_class: "v < 64 \<Longrightarrow> in_class cursor_class (url_char v) \<and> byte (url_char v) < 0x80"
proof -
  assume v: "v < 64"
  consider "v < 26" | "26 \<le> v" "v < 52" | "52 \<le> v" "v < 62" | "v = 62" | "v = 63" using v by linarith
  then show ?thesis
    by cases (simp_all add: in_class_def cursor_class_def byte_url_char, linarith)
qed

lemma url_encode_class: "list_all (in_class cursor_class) (url_encode s)" "\<forall>c \<in> set (url_encode s). byte c < 0x80"
  using url_encode_chars [of _ s] url_char_class by (auto simp add: list_all_iff)

lemma url_encode_Nil: "url_encode s = [] \<longleftrightarrow> s = []"
  by (cases s rule: url_encode.cases) simp_all

lemma length_url_encode: "length (url_encode s) \<le> 2 * length s"
  by (induction s rule: url_encode.induct) simp_all

lemma double_1: "is_double float_one"
proof -
  let ?r = "binary_ratio (2 ^ 52, - 52)"
  have nd: "nat_digits (Suc 0) = ''1''" "nat_digits (Suc (Suc 0)) = ''2''" by code_simp+
  have r: "?r = (2 ^ 52, 2 ^ 52)" by (simp add: binary_ratio_def)
  have c: "candidates ?r 1 = [decimal 1 0, decimal (Suc (Suc 0)) 0]"
    unfolding r by (simp add: candidates_def log10_ratio_def nd Let_def)
  have "[1..<18] = 1 # [2..<18]" by (simp add: upt_rec)
  then obtain cs where l: "concat (map (candidates ?r) [1..<18]) = decimal 1 0 # cs"
    using c by (simp only: list.map concat.simps append_Cons append_Nil)
  have d: "decimal 1 0 = (''1'', 0)" by (simp add: decimal_def nd strip_zeros_def)
  have b: "to_binary (decimal_ratio (''1'', 0)) = Some (2 ^ 52, - 52)" "to_binary (dec_ratio ''1'' 0) = Some (2 ^ 52, - 52)"
    by (simp_all add: decimal_ratio_def dec_ratio_def dec_value_def to_binary_eq log2_ratio_def bits_numeral round_even_def Let_def)
  have "shortest (2 ^ 52, - 52) = (''1'', 0)" unfolding shortest_def l using d b by simp
  with b have "float_of_decimal False ''1'' 0 = FFin False ''1'' 0" by (simp add: float_of_decimal_def to_float_def)
  then show ?thesis by (simp add: is_double_def wf_float_def is_digit_def float_one_def)
qed

lemma cursor_hash_ascii: "\<forall>c \<in> set (cursor_hash sha filters). byte c < 0x80"
  using url_encode_class(2) by (auto simp add: cursor_hash_def dest: in_set_takeD)

lemma ascii_key: "valid_utf8 ''v''" "valid_utf8 ''kind''" "valid_utf8 ''after''" "valid_utf8 ''filters''"
  by (rule valid_utf8_ascii, simp)+

lemma cursor_payload_value:
  "valid_utf8 kind \<Longrightarrow> json_value row \<Longrightarrow> json_value (cursor_payload sha kind row filters)"
  using valid_utf8_ascii [OF cursor_hash_ascii] by (simp add: cursor_payload_def double_1 ascii_key)

lemma js_entries_plain: "\<forall>e \<in> set es. \<not> is_array_index (fst e) \<Longrightarrow> js_entries es = es"
  by (simp add: js_entries_def filter_empty_conv filter_id_conv)

lemma json_canon_payload:
  "json_canon (cursor_payload sha kind row filters) = cursor_payload sha kind (json_canon row) filters"
  unfolding cursor_payload_def json_canon.simps
  by (subst js_entries_plain) (simp_all add: is_array_index_def is_digit_def float_one_def)

lemma decode_encode_cursor:
  assumes "valid_utf8 kind" "json_value (VObj es)" "fits 1 (VObj es)"
    and "length (encode_cursor sha kind (VObj es) filters) \<le> 2048"
  shows "decode_cursor sha (encode_cursor sha kind (VObj es) filters) kind' filters' =
    (if kind = kind' \<and> cursor_hash sha filters = cursor_hash sha filters'
     then Inr (Some (js_entries (map (\<lambda>(k, v). (k, json_canon v)) es))) else Inl bad_cursor)"
proof -
  let ?p = "cursor_payload sha kind (VObj es) filters" and ?e = "encode_cursor sha kind (VObj es) filters"
  have v: "json_value ?p" using assms(1,2) by (intro cursor_payload_value)
  have f: "fits 0 ?p" using assms(3) by (simp add: cursor_payload_def max_depth_def)
  have "stringify ?p \<noteq> []" using starts_stringify [OF v] by (auto simp add: starts_def)
  then have ne: "?e \<noteq> []" by (simp add: encode_cursor_def url_encode_Nil)
  then have m: "matches cursor_re ?e"
    unfolding cursor_re_def by (rule matches_plus_class) (simp add: encode_cursor_def url_encode_class)
  have u: "valid_utf8 (stringify ?p)" by (rule valid_stringify [OF v])
  have "json_lossless (decode_utf8 (base64_decode ?e)) = Inr (json_canon ?p)"
    using stringify_parse [OF v f, of True] u by (simp add: encode_cursor_def base64_decode_encode decode_utf8_def json_lossless_def)
  with ne m assms(4) show ?thesis
    by (simp add: decode_cursor_def json_canon_payload) (simp add: cursor_payload_def obj_value_def)
qed
end
