(* ===== verification/Listing.thy ===== *)
theory Listing
  imports Refresh_Health Cursor
begin

text \<open>
  \<open>internal/versions/reads.go\<close> and \<open>types.go\<close>: reading pages and versions. A list is the table
  filtered, ordered by \<open>(created_at in milliseconds, id)\<close> descending and cut to the limit.
  PostgreSQL's cast of a text to \<open>timestamptz\<close> and the case folding of \<open>ILIKE\<close> are parameters.
\<close>

record list_env =
  le_timestamp :: "string \<Rightarrow> int option"      \<comment> \<open>\<open>$1::timestamptz\<close>\<close>
  le_fold :: "string \<Rightarrow> string"               \<comment> \<open>the lower case \<open>ILIKE\<close> compares in\<close>

definition query_error :: go_error where
  "query_error = Other ''query failed''"

definition sql_text :: "string \<Rightarrow> go_error + string" where
  \<comment> \<open>PostgreSQL refuses a text that is not UTF-8 or holds a NUL\<close>
  "sql_text s = (if valid_utf8 s \<and> CHR 0x00 \<notin> set s then Inr s else Inl query_error)"

subsection \<open>The arguments of a list\<close>

definition max_list_limit :: int where "max_list_limit = 101"

datatype after_created = At_Time "int option" | At_Value goval

record after_row =
  af_created :: after_created
  af_id :: goval

definition cursor_id :: "goval \<Rightarrow> int option" where
  "cursor_id v =
     (case v of
        VStr s \<Rightarrow> if matches decimal_id_re s then parse_int64 s else None
      | VFloat f \<Rightarrow>
          (case float_int f of Some n \<Rightarrow> if \<bar>n\<bar> \<le> max_safe_integer then Some n else None | None \<Rightarrow> None)
      | VInt i \<Rightarrow> Some i
      | VID i \<Rightarrow> Some i
      | _ \<Rightarrow> None)"

definition bad_cursor_time :: go_error where
  "bad_cursor_time = bad_request ''after.createdAt must be a valid timestamp'' ''bad_cursor'' VNil"

definition bad_cursor_id :: go_error where
  "bad_cursor_id = bad_request ''after.id must be a positive database id'' ''bad_cursor'' VNil"

definition normalize_after :: "after_row option \<Rightarrow> go_error + (string \<times> int) option" where
  "normalize_after a =
     (case a of
        None \<Rightarrow> Inr None
      | Some a \<Rightarrow>
          let t = (case af_created a of At_Time t \<Rightarrow> t | At_Value (VStr s) \<Rightarrow> parse_time s | At_Value _ \<Rightarrow> None) in
          if t = None then Inl bad_cursor_time
          else
            (case cursor_id (af_id a) of
               Some i \<Rightarrow> if i \<le> 0 then Inl bad_cursor_id else Inr (Some (iso_string t, i))
             | None \<Rightarrow> Inl bad_cursor_id))"

definition normalize_list_limit :: "int option \<Rightarrow> go_error + nat" where
  \<comment> \<open>0: no limit\<close>
  "normalize_list_limit l =
     (case l of
        None \<Rightarrow> Inr 0
      | Some n \<Rightarrow>
          if n < 1 \<or> max_list_limit < n
          then Inl (bad_request (''limit must be an integer from 1 to '' @ itoa max_list_limit) ''bad_limit'' VNil)
          else Inr (nat n))"

definition normalize_search_query :: "string option \<Rightarrow> go_error + string" where
  "normalize_search_query q =
     (case q of
        None \<Rightarrow> Inr []
      | Some q \<Rightarrow>
          let s = js_trim q in
          if 200 < utf16_len s then Inl (bad_request ''query must be 200 characters or fewer'' ''query_too_long'' VNil)
          else Inr s)"

definition escape_like :: "string \<Rightarrow> string" where
  "escape_like s =
     concat (map (\<lambda>c. if c = CHR 0x5C \<or> c = CHR ''%'' \<or> c = CHR ''_'' then [CHR 0x5C, c] else [c]) s)"

text \<open>\<open>LIKE ... ESCAPE '\'\<close>, character by character.\<close>

definition next_char :: "string \<Rightarrow> string" where
  "next_char s = drop (snd (decode_rune s)) s"

lemma next_char_less [termination_simp]: "s \<noteq> [] \<Longrightarrow> length (next_char s) < length s"
  using decode_rune_width [of s] by (cases s) (simp_all add: next_char_def)

function (sequential) like :: "string \<Rightarrow> string \<Rightarrow> bool" where
  "like s [] \<longleftrightarrow> s = []"
| "like s (c # p) \<longleftrightarrow>
     (if c = CHR ''%'' then like s p \<or> (if s = [] then False else like (next_char s) (c # p))
      else if c = CHR ''_'' then (if s = [] then False else like (next_char s) p)
      else if c = CHR 0x5C then
        (case p of [] \<Rightarrow> False | d # q \<Rightarrow> (if s = [] then False else hd s = d \<and> like (tl s) q))
      else (if s = [] then False else hd s = c \<and> like (tl s) p))"
  by pat_completeness auto
termination
  by (relation "measure (\<lambda>(s, p). length s + length p)") (auto simp add: next_char_less less_SucI)

declare like.simps [simp del]

definition ilike :: "list_env \<Rightarrow> string \<Rightarrow> string \<Rightarrow> bool" where
  "ilike le s p = like (le_fold le s) (le_fold le p)"

subsection \<open>The order and the window of a list\<close>

definition below :: "('r \<Rightarrow> int \<times> int) \<Rightarrow> (int \<times> int) option \<Rightarrow> 'r \<Rightarrow> bool" where
  \<comment> \<open>\<open>(date_trunc('milliseconds', created_at), id) < (date_trunc(...), ...)\<close>, when there is a cursor\<close>
  "below key c r = (case c of None \<Rightarrow> True | Some k \<Rightarrow> key r < k)"

definition order_desc :: "('r \<Rightarrow> int \<times> int) \<Rightarrow> 'r list \<Rightarrow> 'r list" where
  \<comment> \<open>\<open>ORDER BY date_trunc('milliseconds', created_at) DESC, id DESC\<close>\<close>
  "order_desc key rows = rev (sort_key key rows)"

definition limited :: "nat \<Rightarrow> 'r list \<Rightarrow> 'r list" where
  "limited n rows = (if 0 < n then take n rows else rows)"

definition select_rows :: "('r \<Rightarrow> int \<times> int) \<Rightarrow> ('r \<Rightarrow> bool) \<Rightarrow> (int \<times> int) option \<Rightarrow> nat \<Rightarrow> 'r list \<Rightarrow> 'r list" where
  "select_rows key P c n rows = limited n (order_desc key (filter (\<lambda>r. P r \<and> below key c r) rows))"

definition cast_after :: "list_env \<Rightarrow> (string \<times> int) option \<Rightarrow> go_error + (int \<times> int) option" where
  "cast_after le a =
     (case a of
        None \<Rightarrow> Inr None
      | Some (s, i) \<Rightarrow> (case le_timestamp le s of None \<Rightarrow> Inl query_error | Some t \<Rightarrow> Inr (Some (unix_milli t, i))))"

definition page_pos :: "page \<Rightarrow> int \<times> int" where
  "page_pos p = (unix_milli (p_created p), p_id p)"

definition version_pos :: "version \<Rightarrow> int \<times> int" where
  "version_pos v = (unix_milli (v_created v), v_id v)"

subsection \<open>Listing pages\<close>

record list_pages_options =
  lo_workspace :: "goval option"              \<comment> \<open>\<open>WorkspaceFilterSet\<close>, \<open>WorkspaceID\<close>\<close>
  lo_query :: "string option"
  lo_client :: "string option option"         \<comment> \<open>\<open>ClientIDSet\<close>, \<open>ClientID\<close>\<close>
  lo_is_live :: "bool option"
  lo_require_approval :: "bool option"
  lo_disabled :: "bool option"
  lo_after :: "after_row option"
  lo_limit :: "int option"
  lo_numbers :: bool                          \<comment> \<open>\<open>IncludeVersionNumbers\<close>\<close>

definition joined_workspace :: "db \<Rightarrow> int \<Rightarrow> string option" where
  \<comment> \<open>\<open>LEFT JOIN workspaces w ON w.id = p.workspace_id\<close>\<close>
  "joined_workspace s w = map_option w_name (find_workspace w s)"

definition joined_theme :: "db \<Rightarrow> int \<Rightarrow> string" where
  \<comment> \<open>\<open>COALESCE(t.name, 'flag')\<close>\<close>
  "joined_theme s t = (case find (\<lambda>r. th_id r = t) (db_themes s) of None \<Rightarrow> ''flag'' | Some r \<Rightarrow> th_name r)"

definition workspace_cond :: "goval option \<Rightarrow> go_error + (page \<Rightarrow> bool)" where
  "workspace_cond w =
     (case w of
        None \<Rightarrow> Inr (\<lambda>p. True)
      | Some v \<Rightarrow>
          if v = VNull \<or> v = VStr ''ungrouped'' then Inr (\<lambda>p. p_workspace p = 0)
          else res_bind (normalize_workspace_id v) (\<lambda>i. Inr (\<lambda>p. p_workspace p = i)))"

definition search_texts :: "db \<Rightarrow> page \<Rightarrow> string list" where
  "search_texts s p = [p_slug p, p_title p, deref (p_client p), deref (joined_workspace s (p_workspace p))]"

definition search_pattern :: "string \<Rightarrow> string" where
  "search_pattern q = ''%'' @ escape_like q @ ''%''"

definition search_cond :: "list_env \<Rightarrow> db \<Rightarrow> string \<Rightarrow> page \<Rightarrow> bool" where
  "search_cond le s q p = (q = [] \<or> (\<exists>x \<in> set (search_texts s p). ilike le x (search_pattern q)))"

definition flag_cond :: "bool option \<Rightarrow> bool \<Rightarrow> bool" where
  "flag_cond want have = (case want of None \<Rightarrow> True | Some b \<Rightarrow> have = b)"

definition client_cond :: "string option option \<Rightarrow> page \<Rightarrow> bool" where
  "client_cond c p = (case c of None \<Rightarrow> True | Some want \<Rightarrow> p_client p = want)"

definition page_cond :: "list_env \<Rightarrow> db \<Rightarrow> (page \<Rightarrow> bool) \<Rightarrow> string \<Rightarrow> list_pages_options \<Rightarrow> page \<Rightarrow> bool" where
  "page_cond le s in_workspace q opts p =
     (p_deleted p = None \<and> in_workspace p \<and> search_cond le s q p \<and> client_cond (lo_client opts) p \<and>
      flag_cond (lo_is_live opts) (is_live p) \<and> flag_cond (lo_require_approval opts) (p_require_approval p) \<and>
      flag_cond (lo_disabled opts) (p_disabled p))"

definition build_list_pages ::
  "list_env \<Rightarrow> db \<Rightarrow> list_pages_options \<Rightarrow> go_error + (page \<Rightarrow> bool) \<times> (string \<times> int) option \<times> nat" where
  \<comment> \<open>\<open>buildListPagesQuery\<close>: the condition, the cursor and the limit\<close>
  "build_list_pages le s opts =
     res_bind (workspace_cond (lo_workspace opts)) (\<lambda>in_workspace.
     res_bind (normalize_search_query (lo_query opts)) (\<lambda>q.
     res_bind (normalize_after (lo_after opts)) (\<lambda>a.
     res_bind (normalize_list_limit (lo_limit opts)) (\<lambda>n.
     Inr (page_cond le s in_workspace q opts, a, n)))))"

definition query_texts :: "list_pages_options \<Rightarrow> go_error + unit" where
  \<comment> \<open>the texts bound to the query\<close>
  "query_texts opts =
     res_bind (case lo_query opts of None \<Rightarrow> Inr [] | Some q \<Rightarrow> sql_text (js_trim q)) (\<lambda>_.
     res_bind (case lo_client opts of Some (Some c) \<Rightarrow> sql_text c | _ \<Rightarrow> Inr []) (\<lambda>_. Inr ()))"

definition query_pages :: "list_env \<Rightarrow> list_pages_options \<Rightarrow> db \<Rightarrow> go_error + page list" where
  "query_pages le opts s =
     res_bind (build_list_pages le s opts) (\<lambda>(P, a, n).
     res_bind (query_texts opts) (\<lambda>_.
     res_bind (cast_after le a) (\<lambda>c. Inr (select_rows page_pos P c n (db_pages s)))))"

record page_info =                            \<comment> \<open>\<open>Page\<close>\<close>
  pg_id :: int
  pg_slug :: string
  pg_title :: string
  pg_client :: "string option"
  pg_workspace :: int
  pg_workspace_name :: "string option"
  pg_theme :: int
  pg_theme_name :: string
  pg_require_approval :: bool
  pg_disabled :: bool
  pg_published :: int
  pg_created :: "int option"
  pg_updated :: "int option"
  pg_has_password :: bool

definition page_info_of :: "db \<Rightarrow> page \<Rightarrow> page_info" where
  "page_info_of s p =
     \<lparr>pg_id = p_id p, pg_slug = p_slug p, pg_title = p_title p, pg_client = p_client p, pg_workspace = p_workspace p,
      pg_workspace_name = joined_workspace s (p_workspace p), pg_theme = p_theme p, pg_theme_name = joined_theme s (p_theme p),
      pg_require_approval = p_require_approval p, pg_disabled = p_disabled p, pg_published = p_published p,
      pg_created = scan_time (Some (p_created p)), pg_updated = scan_time (Some (p_updated p)),
      pg_has_password = (p_password_hash p \<noteq> None)\<rparr>"

record page_summary =
  ps_page :: page_info
  ps_is_live :: bool
  ps_numbers :: "(nat \<times> nat option) option"   \<comment> \<open>\<open>version_count\<close>, \<open>published_version_number\<close>\<close>
  ps_freshness :: "freshness option"
  ps_health :: refresh_health

definition version_numbers :: "db \<Rightarrow> page \<Rightarrow> nat \<times> nat option" where
  "version_numbers s p =
     (let vs = filter (\<lambda>v. v_page v = p_id p) (db_versions s) in
      (length vs, if p_published p = 0 then None else Some (length (filter (\<lambda>v. v_id v \<le> p_published p) vs))))"

fun each_row :: "('a \<Rightarrow> 'e + 'b) \<Rightarrow> 'a list \<Rightarrow> 'e + 'b list" where
  "each_row f [] = Inr []"
| "each_row f (x # xs) = res_bind (f x) (\<lambda>y. res_bind (each_row f xs) (\<lambda>ys. Inr (y # ys)))"

definition gap_rows :: "db \<Rightarrow> page list \<Rightarrow> (int \<times> string option) list" where
  \<comment> \<open>only a scheduled page is judged\<close>
  "gap_rows s ps = map (\<lambda>p. (p_published p, snd (published_gaps s p))) (filter (\<lambda>p. p_schedule p \<noteq> None) ps)"

definition page_summary_of ::
  "deploy_env \<Rightarrow> bool \<Rightarrow> int \<Rightarrow> db \<Rightarrow> (int \<rightharpoonup> coverage_gap list) \<Rightarrow> page \<Rightarrow> go_error + page_summary" where
  "page_summary_of env numbers now s gaps p =
     res_bind (published_coverage env s p) (\<lambda>c. Inr
       \<lparr>ps_page = page_info_of s p, ps_is_live = is_live p,
        ps_numbers = (if numbers then Some (version_numbers s p) else None),
        ps_freshness = freshness_of (last_check_input p c) now,
        ps_health = health_of (health_input_of p c (newest_refresh (p_id p) s) (gaps_in gaps (p_published p))) now\<rparr>)"

definition list_pages ::
  "deploy_env \<Rightarrow> health_env \<Rightarrow> list_env \<Rightarrow> int \<Rightarrow> list_pages_options \<Rightarrow> db \<Rightarrow> (go_error + page_summary list) \<times> db" where
  \<comment> \<open>the gaps it computed stay saved when a row cannot be read\<close>
  "list_pages env he le now opts s =
     (case query_pages le opts s of
        Inl e \<Rightarrow> (Inl e, s)
      | Inr ps \<Rightarrow>
          (case resolve_gaps he (gap_rows s ps) s of
             Inl e \<Rightarrow> (Inl e, s)
           | Inr (gaps, s') \<Rightarrow> (each_row (page_summary_of env (lo_numbers opts) now s gaps) ps, s')))"

text \<open>\<open>ListRefreshHealth\<close>: the report over every live page.\<close>

definition no_options :: list_pages_options where
  "no_options = \<lparr>lo_workspace = None, lo_query = None, lo_client = None, lo_is_live = None, lo_require_approval = None,
     lo_disabled = None, lo_after = None, lo_limit = None, lo_numbers = False\<rparr>"

definition listed_page_of :: "page_summary \<Rightarrow> listed_page" where
  "listed_page_of p =
     \<lparr>ls_slug = pg_slug (ps_page p), ls_title = pg_title (ps_page p), ls_workspace = pg_workspace (ps_page p),
      ls_workspace_name = pg_workspace_name (ps_page p), ls_is_live = ps_is_live p, ls_freshness = ps_freshness p,
      ls_health = ps_health p\<rparr>"

definition list_refresh_health ::
  "deploy_env \<Rightarrow> health_env \<Rightarrow> list_env \<Rightarrow> bool \<Rightarrow> int \<Rightarrow> int \<Rightarrow> db \<Rightarrow> (go_error + health_report) \<times> db" where
  \<comment> \<open>the clock is read for the rows and again for the report\<close>
  "list_refresh_health env he le only_attention now now' s =
     (case list_pages env he le now no_options s of
        (Inl e, s') \<Rightarrow> (Inl e, s')
      | (Inr ps, s') \<Rightarrow> (Inr (refresh_report only_attention now' (map listed_page_of ps)), s'))"

subsection \<open>One page, its versions, one version\<close>

record loaded_page =
  ld_id :: int
  ld_slug :: string
  ld_require_approval :: bool
  ld_disabled :: bool
  ld_published :: int

definition load_page :: "string \<Rightarrow> db \<Rightarrow> go_error + loaded_page" where
  "load_page slug s =
     res_bind (normalize_slug (VStr slug)) (\<lambda>n.
       (case find_live n s of
          None \<Rightarrow> Inl (page_not_found n)
        | Some p \<Rightarrow> Inr \<lparr>ld_id = p_id p, ld_slug = p_slug p, ld_require_approval = p_require_approval p,
                     ld_disabled = p_disabled p, ld_published = p_published p\<rparr>))"

definition version_statuses :: "string list" where
  "version_statuses = [''draft'', ''pending'', ''approved'', ''rejected'']"

record list_versions_options =
  lv_status :: "string option"
  lv_after :: "after_row option"
  lv_limit :: "int option"

record listed_version =
  li_version :: summary
  li_is_published :: bool
  li_is_live :: bool

definition status_cond :: "string option \<Rightarrow> version \<Rightarrow> bool" where
  "status_cond st v = (case st of None \<Rightarrow> True | Some x \<Rightarrow> status_name (v_status v) = x)"

definition check_status :: "string option \<Rightarrow> go_error + unit" where
  "check_status st =
     (case st of
        None \<Rightarrow> Inr ()
      | Some x \<Rightarrow> require (x \<in> set version_statuses) (bad_request (''bad version status: '' @ x) ''bad_version_status'' VNil))"

definition listed_version_of :: "loaded_page \<Rightarrow> version \<Rightarrow> listed_version" where
  "listed_version_of p v =
     (let published = (ld_published p \<noteq> 0 \<and> v_id v = ld_published p) in
      \<lparr>li_version = version_columns v, li_is_published = published, li_is_live = (published \<and> \<not> ld_disabled p)\<rparr>)"

definition list_versions :: "list_env \<Rightarrow> string \<Rightarrow> list_versions_options \<Rightarrow> db \<Rightarrow> go_error + listed_version list" where
  "list_versions le slug opts s =
     res_bind (load_page slug s) (\<lambda>p.
     res_bind (check_status (lv_status opts)) (\<lambda>_.
     res_bind (normalize_after (lv_after opts)) (\<lambda>a.
     res_bind (normalize_list_limit (lv_limit opts)) (\<lambda>n.
     res_bind (cast_after le a) (\<lambda>c.
     Inr (map (listed_version_of p)
       (select_rows version_pos (\<lambda>v. v_page v = ld_id p \<and> status_cond (lv_status opts) v) c n (db_versions s))))))))"

record version_detail =
  vd_version :: summary
  vd_html :: string

definition version_not_found :: "int \<Rightarrow> string \<Rightarrow> go_error" where
  "version_not_found i slug =
     not_found (''version '' @ js_string (VID i) @ '' not found on page '' @ slug) ''version_not_found'' VNil"

definition get_version :: "string \<Rightarrow> int \<Rightarrow> db \<Rightarrow> go_error + version_detail" where
  "get_version slug i s =
     res_bind (load_page slug s) (\<lambda>p.
       (case find (\<lambda>v. v_id v = i \<and> v_page v = ld_id p) (db_versions s) of
          None \<Rightarrow> Inl (version_not_found i slug)
        | Some v \<Rightarrow> Inr \<lparr>vd_version = version_columns v, vd_html = v_html v\<rparr>))"

record last_check =
  lc_at :: "int option"
  lc_outcome :: "string option"
  lc_detail :: "string option"
  lc_source :: "int option"

record page_view =
  pv_page :: page_info
  pv_published :: "version_detail option"
  pv_check :: last_check

definition last_check_of :: "page \<Rightarrow> last_check" where
  "last_check_of p =
     \<lparr>lc_at = scan_time (p_check_at p), lc_outcome = p_check_outcome p, lc_detail = p_check_detail p,
      lc_source = scan_time (p_check_source p)\<rparr>"

definition get_page :: "string \<Rightarrow> db \<Rightarrow> go_error + page_view" where
  "get_page slug s =
     res_bind (normalize_slug (VStr slug)) (\<lambda>n.
       (case find_live n s of
          None \<Rightarrow> Inl (page_not_found n)
        | Some p \<Rightarrow>
            let view = (\<lambda>v. \<lparr>pv_page = page_info_of s p, pv_published = v, pv_check = last_check_of p\<rparr>) in
            if p_published p = 0 then Inr (view None)
            else
              (case get_version n (p_published p) s of
                 Inr v \<Rightarrow> Inr (view (Some v))
               | Inl e \<Rightarrow> if error_code e = Some ''version_not_found'' then Inr (view None) else Inl e)))"

end
