(* ===== verification/Keyset.thy ===== *)
theory Keyset
  imports Listing
begin

text \<open>
  Keyset pagination. The contract between a list of \<open>internal/versions\<close> and the MCP tool that pages
  through it is the locale \<open>keyset_list\<close>: the list is strictly descending in the position of its
  rows, and a call that continues after a position answers the first rows below it. A walk makes
  one call after the other, each on the state the database has then.
\<close>

subsection \<open>Filtering an ordered list\<close>

lemma filter_order_desc: "filter P (order_desc key rows) = order_desc key (filter P rows)"
  by (simp add: order_desc_def rev_filter [symmetric] filter_sort)

lemma set_order_desc [simp]: "set (order_desc key rows) = set rows"
  by (simp add: order_desc_def)

lemma length_order_desc [simp]: "length (order_desc key rows) = length rows"
  by (simp add: order_desc_def)

lemma order_desc_strict:
  assumes "distinct (map key rows)"
  shows "sorted_wrt (\<lambda>x y. key y < key x) (order_desc key rows)"
proof -
  have "sorted_wrt (<) (map key (sort_key key rows))"
    using assms by (simp add: strict_sorted_iff distinct_map)
  then show ?thesis by (simp add: order_desc_def sorted_wrt_rev sorted_wrt_map)
qed

lemma select_rows_window:
  "0 < n \<Longrightarrow> select_rows key P c n rows = take n (filter (below key c) (select_rows key P None 0 rows))"
  by (simp add: select_rows_def limited_def filter_order_desc below_def conj_commute)

lemma select_rows_descending:
  "distinct (map key rows) \<Longrightarrow> sorted_wrt (\<lambda>x y. key y < key x) (select_rows key P c 0 rows)"
  by (simp add: select_rows_def limited_def order_desc_strict distinct_map_filter)

lemma last_least: "sorted_wrt (\<lambda>x y. key y < key x) xs \<Longrightarrow> x \<in> set xs \<Longrightarrow> (key (last xs) :: 'k::linorder) \<le> key x"
  by (induction xs) (auto simp add: less_imp_le)

subsection \<open>Pages of a list, and walks\<close>

definition cut_page :: "nat \<Rightarrow> 'r list \<Rightarrow> 'r list \<times> bool" where
  \<comment> \<open>the rows of a page, fetched with one row to look ahead, and whether more follow\<close>
  "cut_page n rows = (if n < length rows then (take n rows, True) else (rows, False))"

definition page_of :: "('r \<Rightarrow> int \<times> int) \<Rightarrow> nat \<Rightarrow> 'r list \<Rightarrow> (int \<times> int) option \<Rightarrow> 'r list \<times> (int \<times> int) option" where
  "page_of key n rows c =
     (let w = filter (below key c) rows in (take n w, if n < length w then Some (key (last (take n w))) else None))"

lemma page_of_next:
  assumes "page_of key n rows c = (rs, Some k)" "0 < n"
  shows "\<exists>r \<in> set rows. k = key r"
proof -
  let ?w = "filter (below key c) rows"
  from assms have "last (take n ?w) \<in> set (take n ?w)" "k = key (last (take n ?w))"
    by (auto simp add: page_of_def Let_def intro!: last_in_set split: if_splits)
  moreover from this(1) have "last (take n ?w) \<in> set rows" by (auto dest: in_set_takeD)
  ultimately show ?thesis by blast
qed

fun walk :: "('s \<Rightarrow> 'c option \<Rightarrow> 'e + 'r list \<times> 'c option) \<Rightarrow> 's list \<Rightarrow> 'c option \<Rightarrow> 'e + 'r list list \<times> bool" where
  \<comment> \<open>the calls of a client that follows \<open>next_cursor\<close>; the flag tells that the list has ended\<close>
  "walk call [] c = Inr ([], False)"
| "walk call (s # ss) c =
     res_bind (call s c) (\<lambda>(rs, next).
       case next of
         None \<Rightarrow> Inr ([rs], True)
       | Some c' \<Rightarrow> res_bind (walk call ss (Some c')) (\<lambda>(rss, fin). Inr (rs # rss, fin)))"

text \<open>A call that answers the same rows under another presentation walks the same way.\<close>

lemma walk_refines:
  assumes "\<And>s c. s \<in> set ss \<Longrightarrow> I c \<Longrightarrow>
      \<exists>rs rs' next. call s c = Inr (rs, next) \<and> call' s (map_option enc c) = Inr (rs', map_option enc next) \<and>
        map f rs' = map g rs \<and> I next"
    and "I c"
  shows "\<exists>rss rss' fin. walk call ss c = Inr (rss, fin) \<and> walk call' ss (map_option enc c) = Inr (rss', fin) \<and>
    map (map f) rss' = map (map g) rss"
  using assms
proof (induction ss arbitrary: c)
  case (Cons s ss)
  from Cons.prems(1) [of s, OF _ Cons.prems(2)] obtain rs rs' nxt where
    step: "call s c = Inr (rs, nxt)" "call' s (map_option enc c) = Inr (rs', map_option enc nxt)"
      "map f rs' = map g rs" "I nxt" by auto
  show ?case
  proof (cases nxt)
    case None
    with step show ?thesis by (intro exI [of _ "[rs]"] exI [of _ "[rs']"] exI [of _ True]) simp
  next
    case (Some k)
    with step(4) have "I (Some k)" by simp
    then have "\<exists>rss rss' fin. walk call ss (Some k) = Inr (rss, fin) \<and> walk call' ss (map_option enc (Some k)) = Inr (rss', fin) \<and>
        map (map f) rss' = map (map g) rss"
      by (intro Cons.IH) (use Cons.prems(1) in auto)
    then obtain rss rss' fin where "walk call ss nxt = Inr (rss, fin)" "walk call' ss (map_option enc nxt) = Inr (rss', fin)"
      "map (map f) rss' = map (map g) rss" using Some by auto
    with step Some show ?thesis by (intro exI [of _ "rs # rss"] exI [of _ "rs' # rss'"] exI [of _ fin]) simp
  qed
qed (intro exI [of _ "[]"] exI [of _ False], simp)

subsection \<open>The contract\<close>

locale keyset_list =
  fixes pos :: "'r \<Rightarrow> int \<times> int"
    and listing :: "'s \<Rightarrow> 'r list"
    and fetch :: "'s \<Rightarrow> (int \<times> int) option \<Rightarrow> nat \<Rightarrow> 'r list"
    and ok :: "'s \<Rightarrow> bool"
  assumes descending: "ok s \<Longrightarrow> sorted_wrt (\<lambda>x y. pos y < pos x) (listing s)"
    and window: "ok s \<Longrightarrow> 0 < n \<Longrightarrow> fetch s c n = take n (filter (below pos c) (listing s))"
begin

definition call :: "nat \<Rightarrow> 's \<Rightarrow> (int \<times> int) option \<Rightarrow> go_error + 'r list \<times> (int \<times> int) option" where
  "call n s c = Inr (page_of pos n (listing s) c)"

lemma look_ahead:
  assumes "ok s" "0 < n" "cut_page n (fetch s c (n + 1)) = (rs, yet)"
  shows "page_of pos n (listing s) c = (rs, if yet \<and> rs \<noteq> [] then Some (pos (last rs)) else None)"
proof -
  let ?w = "filter (below pos c) (listing s)"
  have w: "fetch s c (Suc n) = take (Suc n) ?w" using assms(1) by (intro window) simp_all
  show ?thesis
  proof (cases "n < length ?w")
    case True
    with assms(3) have "rs = take n ?w" "yet" by (auto simp add: cut_page_def w min_def split: if_splits)
    moreover have "take n ?w \<noteq> []" using True assms(2) by auto
    ultimately show ?thesis using True by (simp add: page_of_def Let_def)
  next
    case False
    with assms(3) have "rs = ?w" "\<not> yet" by (simp_all add: cut_page_def w)
    with False show ?thesis by (simp add: page_of_def Let_def)
  qed
qed

lemma page_descends:
  assumes "ok s" "0 < n" "page_of pos n (listing s) c = (rs, nxt)"
  shows "sorted_wrt (\<lambda>x y. pos y < pos x) rs" "r \<in> set rs \<Longrightarrow> below pos c r \<and> r \<in> set (listing s)"
    and "nxt = Some k \<Longrightarrow> r \<in> set rs \<Longrightarrow> k \<le> pos r" "nxt = Some k \<Longrightarrow> rs \<noteq> []"
    and "r \<in> set (listing s) \<Longrightarrow> below pos c r \<Longrightarrow> r \<notin> set rs \<Longrightarrow> \<exists>k. nxt = Some k \<and> pos r < k"
proof -
  let ?w = "filter (below pos c) (listing s)"
  have rs: "rs = take n ?w" and nxt: "nxt = (if n < length ?w then Some (pos (last rs)) else None)"
    using assms(3) by (auto simp add: page_of_def Let_def)
  have split: "sorted_wrt (\<lambda>x y. pos y < pos x) (rs @ drop n ?w)"
    unfolding rs append_take_drop_id using descending [OF assms(1)] by (rule sorted_wrt_filter)
  show sorted: "sorted_wrt (\<lambda>x y. pos y < pos x) rs" using split unfolding sorted_wrt_append by blast
  show "r \<in> set rs \<Longrightarrow> below pos c r \<and> r \<in> set (listing s)"
    unfolding rs by (drule in_set_takeD) simp
  show ne: "nxt = Some k \<Longrightarrow> rs \<noteq> []"
    using assms(2) nxt rs by (auto split: if_splits)
  show "nxt = Some k \<Longrightarrow> r \<in> set rs \<Longrightarrow> k \<le> pos r"
    using nxt last_least [OF sorted] by (simp split: if_splits)
  show "\<exists>k. nxt = Some k \<and> pos r < k" if "r \<in> set (listing s)" "below pos c r" "r \<notin> set rs"
  proof -
    have "r \<in> set (take n ?w @ drop n ?w)" using that(1,2) unfolding append_take_drop_id by simp
    with that(3) have d: "r \<in> set (drop n ?w)" unfolding rs set_append by blast
    then have n: "n < length ?w" by (cases "n < length ?w") simp_all
    with assms(2) have "last rs \<in> set rs" unfolding rs by (intro last_in_set) auto
    with split d have "pos r < pos (last rs)" unfolding sorted_wrt_append by blast
    with n show ?thesis by (simp add: nxt)
  qed
qed

text \<open>
  A walk over changing states: it meets positions in strictly descending order, each of them in a
  state it was called on; when it has ended it has met every position below the start that was
  there all along.
\<close>

lemma walk_total: "\<exists>rss fin. walk (call n) ss c = Inr (rss, fin)"
proof (induction ss arbitrary: c)
  case (Cons s ss)
  obtain rs nxt where p: "page_of pos n (listing s) c = (rs, nxt)" by (cases "page_of pos n (listing s) c")
  show ?case
  proof (cases nxt)
    case (Some k)
    with Cons.IH [of nxt] p show ?thesis by (auto simp add: call_def)
  qed (use p in \<open>simp add: call_def, intro exI [of _ True], simp\<close>)
qed (intro exI [of _ "[]"] exI [of _ False], simp)

lemma walk_step [consumes 1]:
  assumes "walk (call n) (s # ss) c = Inr (rss, fin)"
  obtains (ended) rs where "page_of pos n (listing s) c = (rs, None)" "rss = [rs]" "fin"
  | (goes_on) rs k rest where "page_of pos n (listing s) c = (rs, Some k)" "rss = rs # rest"
      "walk (call n) ss (Some k) = Inr (rest, fin)"
proof -
  obtain rs nxt where p: "page_of pos n (listing s) c = (rs, nxt)" by (cases "page_of pos n (listing s) c")
  show ?thesis
  proof (cases nxt)
    case None
    with assms p have "rss = [rs]" "fin" by (simp_all add: call_def)
    with p None ended show ?thesis by simp
  next
    case (Some k)
    with assms p have "\<exists>rest. walk (call n) ss (Some k) = Inr (rest, fin) \<and> rss = rs # rest"
      by (auto simp add: call_def res_bind_Inr_iff)
    with p Some goes_on show ?thesis by blast
  qed
qed

lemma walk_below:
  assumes "\<And>s. s \<in> set ss \<Longrightarrow> ok s" "0 < n" "walk (call n) ss c = Inr (rss, fin)"
  shows "r \<in> set (concat rss) \<Longrightarrow> below pos c r \<and> (\<exists>s \<in> set ss. r \<in> set (listing s))"
  using assms(1,3)
proof (induction ss arbitrary: c rss)
  case (Cons s ss)
  have s: "ok s" using Cons.prems(2) by simp
  from Cons.prems(3) show ?case
  proof (cases rule: walk_step)
    case (ended rs)
    with page_descends(2) [OF s assms(2) ended(1), of r] Cons.prems(1) show ?thesis by auto
  next
    case (goes_on rs k rest)
    note page = page_descends [OF s assms(2) goes_on(1)]
    show ?thesis
    proof (cases "r \<in> set rs")
      case True
      with page(2) [of r] show ?thesis by auto
    next
      case False
      with Cons.prems(1) goes_on(2) have "r \<in> set (concat rest)" by auto
      with Cons.IH [of rest "Some k"] Cons.prems(2) goes_on(3) have r: "pos r < k" "\<exists>s \<in> set ss. r \<in> set (listing s)"
        by (auto simp add: below_def)
      from page(4) obtain x where x: "x \<in> set rs" using last_in_set by blast
      with page(2) [of x] page(3) [of k x] r(1) have "below pos c r" by (auto simp add: below_def split: option.splits)
      with r(2) show ?thesis by auto
    qed
  qed
qed simp

lemma walk_descends:
  assumes "\<And>s. s \<in> set ss \<Longrightarrow> ok s" "0 < n" "walk (call n) ss c = Inr (rss, fin)"
  shows "sorted_wrt (\<lambda>x y. pos y < pos x) (concat rss)"
  using assms(1,3)
proof (induction ss arbitrary: c rss)
  case (Cons s ss)
  have s: "ok s" using Cons.prems(1) by simp
  from Cons.prems(2) show ?case
  proof (cases rule: walk_step)
    case (ended rs)
    with page_descends(1) [OF s assms(2) ended(1)] show ?thesis by simp
  next
    case (goes_on rs k rest)
    note page = page_descends [OF s assms(2) goes_on(1)]
    have "pos y < pos x" if "x \<in> set rs" "y \<in> set (concat rest)" for x y
      using walk_below [OF _ assms(2) goes_on(3) that(2)] Cons.prems(1) page(3) [of k x] that(1) by (fastforce simp add: below_def)
    moreover have "sorted_wrt (\<lambda>x y. pos y < pos x) (concat rest)"
      using Cons.IH [of "Some k" rest] Cons.prems(1) goes_on(3) by simp
    ultimately show ?thesis using page(1) by (simp add: goes_on(2) sorted_wrt_append)
  qed
qed simp

lemma walk_complete:
  assumes "\<And>s. s \<in> set ss \<Longrightarrow> ok s" "0 < n" "walk (call n) ss c = Inr (rss, True)"
    and "\<And>s. s \<in> set ss \<Longrightarrow> p \<in> pos ` set (listing s)" "\<And>k. c = Some k \<Longrightarrow> p < k"
  shows "p \<in> pos ` set (concat rss)"
  using assms(1,3-)
proof (induction ss arbitrary: c rss)
  case (Cons s ss)
  have s: "ok s" using Cons.prems(1) by simp
  obtain r where r: "r \<in> set (listing s)" "pos r = p" using Cons.prems(3) [of s] by auto
  with Cons.prems(4) have b: "below pos c r" by (auto simp add: below_def split: option.splits)
  from Cons.prems(2) show ?case
  proof (cases rule: walk_step)
    case (ended rs)
    with page_descends(5) [OF s assms(2) ended(1) r(1) b] r(2) show ?thesis by auto
  next
    case (goes_on rs k rest)
    show ?thesis
    proof (cases "r \<in> set rs")
      case True
      with r(2) goes_on(2) show ?thesis by auto
    next
      case False
      with page_descends(5) [OF s assms(2) goes_on(1) r(1) b] r(2) have "p < k" by simp
      with Cons.IH [of "Some k" rest] Cons.prems(1,3) goes_on(2,3) show ?thesis by auto
    qed
  qed
qed simp

text \<open>Over a list that does not change the walk ends, after as many calls as its pages need.\<close>

lemma next_window:
  assumes "sorted_wrt (\<lambda>x y. pos y < pos x) rows" "0 < n" "n < length (filter (below pos c) rows)"
  shows "filter (below pos (Some (pos (last (take n (filter (below pos c) rows)))))) rows = drop n (filter (below pos c) rows)"
proof -
  let ?w = "filter (below pos c) rows"
  let ?k = "pos (last (take n ?w))"
  have split: "sorted_wrt (\<lambda>x y. pos y < pos x) (take n ?w @ drop n ?w)"
    unfolding append_take_drop_id using assms(1) by (rule sorted_wrt_filter)
  have ne: "last (take n ?w) \<in> set (take n ?w)" using assms(2,3) by (intro last_in_set) auto
  then have "below pos c (last (take n ?w))" by (auto dest: in_set_takeD)
  then have "below pos (Some ?k) r \<longleftrightarrow> below pos c r \<and> below pos (Some ?k) r" for r
    by (auto simp add: below_def split: option.splits)
  then have "filter (below pos (Some ?k)) rows = filter (below pos (Some ?k)) (take n ?w @ drop n ?w)"
    unfolding append_take_drop_id filter_filter by (metis (mono_tags, lifting) filter_cong)
  moreover have "filter (below pos (Some ?k)) (take n ?w) = []"
  proof -
    have "sorted_wrt (\<lambda>x y. pos y < pos x) (take n ?w)" using split unfolding sorted_wrt_append by blast
    then have "?k \<le> pos r" if "r \<in> set (take n ?w)" for r using that by (rule last_least)
    then show ?thesis by (fastforce simp add: filter_empty_conv below_def dest: leD)
  qed
  moreover have "filter (below pos (Some ?k)) (drop n ?w) = drop n ?w"
    using split ne unfolding sorted_wrt_append by (auto simp add: filter_id_conv below_def)
  ultimately show ?thesis by (simp only: filter_append append_Nil)
qed

lemma walk_ends:
  assumes "\<And>s. s \<in> set ss \<Longrightarrow> ok s \<and> listing s = rows" "0 < n" "w = filter (below pos c) rows" "(length w - 1) div n < length ss"
  shows "\<exists>rss. walk (call n) ss c = Inr (rss, True) \<and> concat rss = w \<and> length rss = (length w - 1) div n + 1"
  using assms(1,3,4)
proof (induction ss arbitrary: c w)
  case (Cons s ss)
  have s: "ok s" "listing s = rows" using Cons.prems(1) by simp_all
  show ?case
  proof (cases "n < length w")
    case False
    then have "(length w - 1) div n = 0" using assms(2) by (cases "length w") simp_all
    with False s(2) Cons.prems(2) show ?thesis by (simp add: call_def page_of_def Let_def)
  next
    case True
    let ?k = "pos (last (take n w))"
    have sorted: "sorted_wrt (\<lambda>x y. pos y < pos x) rows" using descending [OF s(1)] s(2) by simp
    have w: "drop n w = filter (below pos (Some ?k)) rows"
      using next_window [OF sorted assms(2)] True Cons.prems(2) by simp
    have "length w - 1 = (length (drop n w) - 1) + n" using True unfolding length_drop by linarith
    with assms(2) have d: "(length w - 1) div n = Suc ((length (drop n w) - 1) div n)" by (simp only: div_add_self2)
    with Cons.prems(3) have "(length (drop n w) - 1) div n < length ss" unfolding d list.size by linarith
    then obtain rss where rss: "walk (call n) ss (Some ?k) = Inr (rss, True)" "concat rss = drop n w"
        "length rss = (length (drop n w) - 1) div n + 1"
      using Cons.IH [OF _ w] Cons.prems(1) by (meson list.set_intros(2))
    have "page_of pos n (listing s) c = (take n w, Some ?k)"
      using True s(2) Cons.prems(2) by (simp add: page_of_def Let_def)
    then have "walk (call n) (s # ss) c = Inr (take n w # rss, True)" by (simp add: call_def rss(1))
    moreover have "concat (take n w # rss) = w" by (simp add: rss(2))
    moreover have "length (take n w # rss) = (length w - 1) div n + 1" unfolding d by (simp add: rss(3))
    ultimately show ?thesis by blast
  qed
qed simp

end

end
