(* ===== verification/Paging.thy ===== *)
theory Paging
  imports Keyset Managed_Data
begin

text \<open>
  \<open>internal/mcp/tools_pages.go\<close> and \<open>call.go\<close>: the tools \<open>list_pages\<close> and \<open>list_versions\<close>, which page
  through the lists of \<open>internal/versions\<close> with keyset cursors, and \<open>internal/pageurls\<close>. The arguments
  are the parsed object the schema of the tool let through.
\<close>

type_synonym args = "(string \<times> goval) list"

subsection \<open>Arguments\<close>

definition arg_str :: "args \<Rightarrow> string \<Rightarrow> string \<times> bool" where
  "arg_str a k = (case map_of a k of Some (VStr s) \<Rightarrow> (s, True) | _ \<Rightarrow> ([], False))"

definition arg_str_ptr :: "args \<Rightarrow> string \<Rightarrow> string option" where
  "arg_str_ptr a k = (case arg_str a k of (s, ok) \<Rightarrow> if ok then Some s else None)"

definition arg_bool :: "args \<Rightarrow> string \<Rightarrow> bool \<times> bool" where
  "arg_bool a k = (case map_of a k of Some (VBool b) \<Rightarrow> (b, True) | _ \<Rightarrow> (False, False))"

definition bool_ptr_arg :: "args \<Rightarrow> string \<Rightarrow> bool option" where
  "bool_ptr_arg a k = (case arg_bool a k of (b, ok) \<Rightarrow> if ok then Some b else None)"

definition float_trunc :: "float64 \<Rightarrow> int" where
  \<comment> \<open>\<open>int(n)\<close>, for a number the target can hold\<close>
  "float_trunc f =
     (case f of
        FFin neg ds e \<Rightarrow>
          if e < 0 then 0
          else (if neg then - 1 else 1) * int (dec_value (take (nat e + 1) (ds @ zeros (nat e + 1))))
      | _ \<Rightarrow> 0)"

definition arg_int :: "args \<Rightarrow> string \<Rightarrow> int \<times> bool" where
  "arg_int a k = (case map_of a k of Some (VFloat f) \<Rightarrow> (float_trunc f, True) | _ \<Rightarrow> (0, False))"

definition has_or :: "args \<Rightarrow> string \<Rightarrow> goval" where
  "has_or a k = (case map_of a k of Some v \<Rightarrow> v | None \<Rightarrow> VStr ''*'')"

definition js_to_string :: "goval option \<Rightarrow> string" where
  "js_to_string v = (case v of None \<Rightarrow> ''undefined'' | Some v \<Rightarrow> to_string v)"

definition page_filters :: "args \<Rightarrow> goval" where
  "page_filters a =
     VObj [(''query'', case arg_str a ''query'' of (s, ok) \<Rightarrow> if ok \<and> s \<noteq> [] then VStr s else VNil),
           (''workspace_id'', has_or a ''workspace_id''), (''client_id'', has_or a ''client_id''),
           (''is_live'', has_or a ''is_live''), (''require_approval'', has_or a ''require_approval''),
           (''disabled'', has_or a ''disabled'')]"

definition version_filters :: "args \<Rightarrow> goval" where
  "version_filters a =
     VObj [(''slug'', VStr (fst (arg_str a ''slug''))),
           (''status'', case arg_str a ''status'' of (s, ok) \<Rightarrow> if ok \<and> s \<noteq> [] then VStr s else VNil)]"

subsection \<open>Cursors of the two lists\<close>

definition invalid_cursor :: go_error where
  "invalid_cursor = bad_request ''invalid pagination cursor'' ''invalid_cursor'' VNil"

definition valid_keyset_after :: "args \<Rightarrow> bool" where
  "valid_keyset_after row =
     ((case map_of row ''created_at'' of Some (VStr _) \<Rightarrow> True | _ \<Rightarrow> False) \<and>
      matches decimal_id_re (js_to_string (map_of row ''id'')))"

definition read_cursor :: "(string \<Rightarrow> string) \<Rightarrow> string \<Rightarrow> goval \<Rightarrow> args \<Rightarrow> go_error + after_row option" where
  "read_cursor sha kind filters a =
     res_bind (decode_cursor sha (fst (arg_str a ''cursor'')) kind filters) (\<lambda>row.
       (case row of
          None \<Rightarrow> Inr None
        | Some row \<Rightarrow>
            if \<not> valid_keyset_after row then Inl invalid_cursor
            else Inr (Some \<lparr>af_created = At_Value (obj_value row ''created_at''), af_id = obj_value row ''id''\<rparr>)))"

definition cursor_row :: "int \<Rightarrow> int \<Rightarrow> goval" where
  "cursor_row created i = VObj [(''created_at'', VStr (format_time created)), (''id'', VStr (id_string i))]"

definition time_or_zero :: "int option \<Rightarrow> int" where
  "time_or_zero t = (case t of None \<Rightarrow> zero_time | Some t \<Rightarrow> t)"

subsection \<open>list_pages\<close>

record page_urls =
  u_admin :: string
  u_view :: string
  u_live :: string

record mcp_env =
  me_sha :: "string \<Rightarrow> string"                 \<comment> \<open>SHA-256\<close>
  me_dashboard :: string                       \<comment> \<open>\<open>env.DashboardOrigin\<close>\<close>
  me_content :: string                         \<comment> \<open>\<open>env.ContentOrigin\<close>\<close>
  me_lists :: list_env
  me_deploy :: deploy_env
  me_health :: health_env

definition page_urls_for :: "mcp_env \<Rightarrow> string \<Rightarrow> page_urls" where
  "page_urls_for me slug =
     \<lparr>u_admin = me_dashboard me @ ''/admin/'' @ slug, u_view = me_dashboard me @ ''/view/'' @ slug,
      u_live = me_content me @ ''/'' @ slug\<rparr>"

definition list_pages_args :: "args \<Rightarrow> after_row option \<Rightarrow> int \<Rightarrow> list_pages_options" where
  "list_pages_args a row limit =
     \<lparr>lo_workspace = map_option (\<lambda>v. arg v True) (map_of a ''workspace_id''), lo_query = arg_str_ptr a ''query'',
      lo_client = map_option (\<lambda>v. case v of VStr s \<Rightarrow> Some s | _ \<Rightarrow> None) (map_of a ''client_id''),
      lo_is_live = bool_ptr_arg a ''is_live'', lo_require_approval = bool_ptr_arg a ''require_approval'',
      lo_disabled = bool_ptr_arg a ''disabled'', lo_after = row, lo_limit = Some (limit + 1), lo_numbers = False\<rparr>"

type_synonym page_row = "page_summary \<times> page_urls"

definition list_pages_tool :: "mcp_env \<Rightarrow> int \<Rightarrow> args \<Rightarrow> db \<Rightarrow> (go_error + page_row list \<times> string option) \<times> db" where
  "list_pages_tool me now a s =
     (let filters = page_filters a; limit = fst (arg_int a ''limit'') in
      case read_cursor (me_sha me) ''pages'' filters a of
        Inl e \<Rightarrow> (Inl e, s)
      | Inr row \<Rightarrow>
          (case list_pages (me_deploy me) (me_health me) (me_lists me) now (list_pages_args a row limit) s of
             (Inl e, s') \<Rightarrow> (Inl e, s')
           | (Inr rows, s') \<Rightarrow>
               let (rows, yet) = cut_page (nat limit) rows;
                   last_page = ps_page (last rows);
                   next = (if yet \<and> rows \<noteq> []
                     then Some (encode_cursor (me_sha me) ''pages''
                            (cursor_row (time_or_zero (pg_created last_page)) (pg_id last_page)) filters)
                     else None) in
               (Inr (map (\<lambda>r. (r, page_urls_for me (pg_slug (ps_page r)))) rows, next), s')))"

subsection \<open>list_versions\<close>

definition list_versions_tool :: "mcp_env \<Rightarrow> args \<Rightarrow> db \<Rightarrow> go_error + listed_version list \<times> string option" where
  "list_versions_tool me a s =
     (let slug = fst (arg_str a ''slug''); filters = version_filters a; limit = fst (arg_int a ''limit'') in
      res_bind (read_cursor (me_sha me) ''versions'' filters a) (\<lambda>row.
      res_bind (list_versions (me_lists me) slug
          \<lparr>lv_status = arg_str_ptr a ''status'', lv_after = row, lv_limit = Some (limit + 1)\<rparr> s) (\<lambda>rows.
        let (rows, yet) = cut_page (nat limit) rows;
            final = li_version (last rows);
            next = (if yet \<and> rows \<noteq> []
              then Some (encode_cursor (me_sha me) ''versions'' (cursor_row (vs_created final) (vs_id final)) filters)
              else None) in
        Inr (rows, next))))"

subsection \<open>A cursor leads back to its row\<close>

definition dated :: "int \<Rightarrow> bool" where
  "dated t \<longleftrightarrow> 0 \<le> t \<and> in_years t"

definition reads_stamps :: "list_env \<Rightarrow> bool" where
  \<comment> \<open>the cast reads what \<open>FormatTime\<close> writes\<close>
  "reads_stamps le \<longleftrightarrow> (\<forall>t. t mod ms_ns = 0 \<and> dated t \<longrightarrow> le_timestamp le (format_time t) = Some t)"

abbreviation floor_ms :: "int \<Rightarrow> int" where "floor_ms t \<equiv> unix_milli t * ms_ns"

lemma floor_ms_dated: "dated t \<Longrightarrow> dated (floor_ms t)"
  by (simp add: dated_def in_years_def day_of_ms) (simp add: unix_milli_def pos_imp_zdiv_nonneg_iff)

lemma format_time_floor: "format_time (floor_ms t) = format_time t"
proof -
  have day: "day_ns = ms_ns * 86400000" by simp
  have part: "x mod day_ns div ms_ns = x div ms_ns mod 86400000" for x :: int
    unfolding day zmod_zmult2_eq [OF zero_le_numeral] by (subst div_mult_self4, simp, simp only: mod_div_trivial add_0_right)
  have ms: "floor_ms t mod day_ns div ms_ns = t mod day_ns div ms_ns"
    unfolding part unix_milli_def by (subst nonzero_mult_div_cancel_right) simp_all
  have scale: "x div hour_ns = x div ms_ns div 3600000" "x div minute_ns = x div ms_ns div 60000"
    "x div second_ns = x div ms_ns div 1000" for x :: int
    using zdiv_zmult2_eq [of 3600000 x ms_ns] zdiv_zmult2_eq [of 60000 x ms_ns] zdiv_zmult2_eq [of 1000 x ms_ns] by simp_all
  show ?thesis unfolding format_time_def Let_def scale ms day_of_ms by (rule refl)
qed

lemma nat_digits_lead: "0 < n \<Longrightarrow> hd (nat_digits n) \<noteq> CHR ''0''"
proof (induction n rule: nat_digits.induct)
  case (1 n)
  show ?case
  proof (cases "n < 10")
    case True
    with 1 have "byte (hd (nat_digits n)) \<noteq> 48" by (simp add: nat_digits.simps [of n] byte_digit_char)
    then show ?thesis by auto
  next
    case False
    with 1 have "hd (nat_digits (n div 10)) \<noteq> CHR ''0''" by simp
    with False show ?thesis by (simp add: nat_digits.simps [of n])
  qed
qed

lemma decimal_id_itoa: "0 < i \<Longrightarrow> matches decimal_id_re (itoa i)"
proof -
  assume i: "0 < i"
  obtain c s where cs: "nat_digits (nat i) = c # s" by (cases "nat_digits (nat i)") simp_all
  have d: "is_digit c" "list_all is_digit s"
    using nat_digits_all_digits [of _ "nat i"] by (auto simp add: cs list_all_iff)
  have "c \<noteq> CHR ''0''" using nat_digits_lead [of "nat i"] i cs by simp
  then have "byte c \<noteq> byte (CHR ''0'')" by (simp only: of_char_eq_iff not_False_eq_True)
  with d(1) have "in_class [(CHR ''1'', CHR ''9'')] c" by (simp add: in_class_def is_digit_def)
  moreover have "list_all (in_class [(CHR ''0'', CHR ''9'')]) s" using d(2) by (simp add: list_all_iff in_class_def is_digit_def)
  ultimately have "[c] @ s \<in> lang decimal_id_re"
    unfolding decimal_id_re_def lang.simps(5) lang.simps(6) mem_Collect_eq
    using star_class [of "[(CHR ''0'', CHR ''9'')]" s] by (intro exI [of _ "[c]"] exI [of _ s]) simp
  then show ?thesis using i cs itoa_pos [OF i] by (simp add: matches_lang)
qed

lemma length_escape_byte: "length (escape_byte c) \<le> 6"
  by (simp add: escape_byte_def)

lemma length_quote: "valid_utf8 s \<Longrightarrow> length (json_quote s) \<le> 6 * length s + 2"
proof -
  have "length (concat (map escape_byte s)) \<le> 6 * length s"
    by (induction s) (use length_escape_byte in \<open>auto intro: add_mono\<close>)
  then show "valid_utf8 s \<Longrightarrow> ?thesis" by (simp add: json_quote_def)
qed

lemma pad2: "0 \<le> n \<Longrightarrow> n < 60 \<Longrightarrow> length (pad 2 n) = 2 \<and> list_all is_digit (pad 2 n)"
  by (intro conjI pad_digits) simp_all

lemma pad3: "0 \<le> n \<Longrightarrow> n < 1000 \<Longrightarrow> length (pad 3 n) = 3 \<and> list_all is_digit (pad 3 n)"
  by (intro conjI pad_digits) simp_all

lemma stamp_shape:
  assumes "length y = 4 \<and> list_all is_digit y" "length m = 2 \<and> list_all is_digit m" "length d = 2 \<and> list_all is_digit d"
    "length h = 2 \<and> list_all is_digit h" "length n = 2 \<and> list_all is_digit n" "length s = 2 \<and> list_all is_digit s"
    "length f = 3 \<and> list_all is_digit f"
  shows "length (y @ ''-'' @ m @ ''-'' @ d @ ''T'' @ h @ '':'' @ n @ '':'' @ s @ ''.'' @ f @ ''Z'') = 24"
    "c \<in> set (y @ ''-'' @ m @ ''-'' @ d @ ''T'' @ h @ '':'' @ n @ '':'' @ s @ ''.'' @ f @ ''Z'') \<Longrightarrow> byte c < 0x80"
proof -
  show "length (y @ ''-'' @ m @ ''-'' @ d @ ''T'' @ h @ '':'' @ n @ '':'' @ s @ ''.'' @ f @ ''Z'') = 24" using assms by simp
  have "byte c < 0x80" if "list_all is_digit x" "c \<in> set x" for x
    using that by (auto simp add: list_all_iff is_digit_def)
  with assms show "c \<in> set (y @ ''-'' @ m @ ''-'' @ d @ ''T'' @ h @ '':'' @ n @ '':'' @ s @ ''.'' @ f @ ''Z'') \<Longrightarrow> byte c < 0x80"
    by auto
qed

lemma format_time_chars:
  assumes "dated t"
  shows "length (format_time t) = 24" "c \<in> set (format_time t) \<Longrightarrow> byte c < 0x80"
proof -
  let ?t = "floor_ms t"
  let ?r = "?t mod day_ns"
  obtain y m d where c: "civil (day_of ?t) = (y, m, d)" by (cases "civil (day_of ?t)") auto
  have y: "0 \<le> y" "y < 10 ^ 4" using assms c by (simp_all add: dated_def in_years_def day_of_ms)
  have z: "?t mod ms_ns = 0" by simp
  note inv = civil_inverse [OF c] and f = clock_fields [OF z]
  have mdh: "int m < 60" "int d < 60" "?r div hour_ns < 60" using inv f(3) by linarith+
  have p1: "length (pad 4 y) = 4 \<and> list_all is_digit (pad 4 y)" by (intro conjI pad_digits y) simp_all
  note pads = p1 pad2 [OF of_nat_0_le_iff mdh(1)] pad2 [OF of_nat_0_le_iff mdh(2)] pad2 [OF f(2) mdh(3)] pad2 [OF f(4,5)]
    pad2 [OF f(6,7)] pad3 [OF f(8,9)]
  have written: "format_time t = pad 4 y @ ''-'' @ pad 2 (int m) @ ''-'' @ pad 2 (int d) @ ''T'' @ pad 2 (?r div hour_ns) @ '':'' @
      pad 2 (?r div minute_ns mod 60) @ '':'' @ pad 2 (?r div second_ns mod 60) @ ''.'' @ pad 3 (?r div ms_ns mod 1000) @ ''Z''"
    by (subst format_time_floor [of t, symmetric], unfold format_time_def c Let_def prod.case, rule refl)
  note shape = stamp_shape [OF pads]
  show "length (format_time t) = 24" unfolding written by (rule shape(1))
  show "c \<in> set (format_time t) \<Longrightarrow> byte c < 0x80" unfolding written by (rule shape(2))
qed

lemma length_itoa: "0 < i \<Longrightarrow> i \<le> max_bigint \<Longrightarrow> length (itoa i) \<le> 19"
proof -
  assume i: "0 < i" "i \<le> max_bigint"
  then have "nat i < 10 ^ 19" by (simp add: max_bigint_def)
  then have "length (nat_digits (nat i)) \<le> 19" by (rule nat_digits_length) simp
  with i(1) show ?thesis by (simp add: itoa_def)
qed

lemma cursor_row_json:
  assumes "dated created" "0 < i"
  shows "json_value (cursor_row created i)" "fits 1 (cursor_row created i)" "json_canon (cursor_row created i) = cursor_row created i"
proof -
  have "valid_utf8 (format_time created)" "valid_utf8 (itoa i)"
    using format_time_chars(2) [OF assms(1)] ascii_itoa by (auto intro: valid_utf8_ascii)
  moreover have "valid_utf8 ''created_at''" "valid_utf8 ''id''" by (rule valid_utf8_ascii, simp)+
  ultimately show "json_value (cursor_row created i)" using assms(2) by (simp add: cursor_row_def id_string_def)
  show "fits 1 (cursor_row created i)" by (simp add: cursor_row_def max_depth_def)
  show "json_canon (cursor_row created i) = cursor_row created i"
    unfolding cursor_row_def json_canon.simps by (subst js_entries_plain) (simp_all add: is_array_index_def is_digit_def)
qed

lemma length_cursor:
  assumes "dated created" "0 < i" "i \<le> max_bigint" "kind \<in> {''pages'', ''versions''}"
  shows "length (encode_cursor sha kind (cursor_row created i) filters) \<le> 2048"
proof -
  have q: "length (json_quote s) \<le> 6 * length s + 2" if "\<forall>c \<in> set s. byte c < 0x80" for s
    using that by (intro length_quote valid_utf8_ascii)
  have t: "length (json_quote (format_time created)) \<le> 146"
    using q [of "format_time created"] format_time_chars [OF assms(1)] by simp
  have i: "length (json_quote (id_string i)) \<le> 116"
    using q [of "itoa i"] ascii_itoa length_itoa [OF assms(2,3)] assms(2) by (simp add: id_string_def)
  have h: "length (json_quote (cursor_hash sha filters)) \<le> 134"
    using q [of "cursor_hash sha filters"] cursor_hash_ascii [of sha filters] by (simp add: cursor_hash_def min_def split: if_splits)
  have k: "length (json_quote kind) \<le> 50" using q [of kind] assms(4) by auto
  have keys: "length (json_quote ''created_at'') \<le> 62" "length (json_quote ''id'') \<le> 14" "length (json_quote ''v'') \<le> 8"
    "length (json_quote ''kind'') \<le> 26" "length (json_quote ''after'') \<le> 32" "length (json_quote ''filters'') \<le> 44"
    using q [of "''created_at''"] q [of "''id''"] q [of "''v''"] q [of "''kind''"] q [of "''after''"] q [of "''filters''"] by simp_all
  have one: "length (write_number float_one) \<le> 1" by (simp add: write_number_def float_one_def format_number_def zeros_def)
  have row: "length (stringify (cursor_row created i)) \<le> 400"
    unfolding cursor_row_def stringify.simps by (subst js_entries_plain) (use t i keys in \<open>simp_all add: is_array_index_def is_digit_def join.simps\<close>)
  have "length (stringify (cursor_payload sha kind (cursor_row created i) filters)) \<le> 1024"
    unfolding cursor_payload_def stringify.simps
    by (subst js_entries_plain) (use row h k keys one in \<open>simp_all add: is_array_index_def is_digit_def join.simps\<close>)
  then show ?thesis
    using length_url_encode [of "stringify (cursor_payload sha kind (cursor_row created i) filters)"] by (simp add: encode_cursor_def)
qed

lemma read_issued_cursor:
  assumes "dated created" "0 < i" "i \<le> max_bigint" "kind \<in> {''pages'', ''versions''}"
    and "map_of a ''cursor'' = Some (VStr (encode_cursor sha kind (cursor_row created i) filters))"
  shows "read_cursor sha kind filters a = Inr (Some \<lparr>af_created = At_Value (VStr (format_time created)), af_id = VStr (itoa i)\<rparr>)"
proof -
  let ?es = "[(''created_at'', VStr (format_time created)), (''id'', VStr (id_string i))]"
  have "valid_utf8 ''pages''" "valid_utf8 ''versions''" by (rule valid_utf8_ascii, simp)+
  with assms(4) have k: "valid_utf8 kind" by auto
  have "js_entries (map (\<lambda>(k, v). (k, json_canon v)) ?es) = ?es"
    using cursor_row_json(3) [OF assms(1,2)] by (simp add: cursor_row_def)
  with decode_encode_cursor [OF k, of ?es sha filters kind filters] cursor_row_json(1,2) [OF assms(1,2)] length_cursor [OF assms(1-4)]
  have "decode_cursor sha (encode_cursor sha kind (cursor_row created i) filters) kind filters = Inr (Some ?es)"
    by (simp add: cursor_row_def)
  then show ?thesis
    using assms(2,5) decimal_id_itoa [OF assms(2)]
    by (simp add: read_cursor_def arg_str_def valid_keyset_after_def js_to_string_def obj_value_def id_string_def)
qed

lemma normalize_issued:
  assumes "reads_stamps le" "dated created" "0 < i" "i \<le> max_bigint"
  shows "res_bind (normalize_after (Some \<lparr>af_created = At_Value (VStr (format_time created)), af_id = VStr (itoa i)\<rparr>)) (cast_after le) =
    Inr (Some (unix_milli created, i))"
proof -
  have f: "dated (floor_ms created)" "floor_ms created mod ms_ns = 0" using assms(2) by (simp_all add: floor_ms_dated)
  have u: "unix_milli (floor_ms created) = unix_milli created" by (simp add: unix_milli_def)
  have z: "zero_time < 0" by (simp add: zero_time_def days_from_civil_def)
  have "parse_time (format_time created) = Some (floor_ms created)"
    using parse_format_time [OF f(2)] f(1) z by (simp add: dated_def in_years_def format_time_floor nonzero_def)
  moreover have "le_timestamp le (format_time created) = Some (floor_ms created)"
    using assms(1) [unfolded reads_stamps_def, rule_format, OF conjI [OF f(2,1)]] by (simp only: format_time_floor)
  ultimately show ?thesis using assms(3,4)
    by (simp add: normalize_after_def cursor_id_def decimal_id_itoa parse_int64_itoa iso_string_def cast_after_def format_time_floor u)
qed

subsection \<open>The lists keep the contract\<close>

definition version_window :: "int \<Rightarrow> string option \<Rightarrow> db \<Rightarrow> (int \<times> int) option \<Rightarrow> nat \<Rightarrow> version list" where
  "version_window pid st s c n = select_rows version_pos (\<lambda>v. v_page v = pid \<and> status_cond st v) c n (db_versions s)"

definition page_window :: "(db \<Rightarrow> page \<Rightarrow> bool) \<Rightarrow> db \<Rightarrow> (int \<times> int) option \<Rightarrow> nat \<Rightarrow> page list" where
  "page_window P s c n = select_rows page_pos (P s) c n (db_pages s)"

definition listable :: "db \<Rightarrow> bool" where
  \<comment> \<open>ids are distinct and of type BIGINT, rows were created between 1970 and 9999\<close>
  "listable s \<longleftrightarrow>
     distinct (map p_id (db_pages s)) \<and> distinct (map v_id (db_versions s)) \<and>
     (\<forall>p \<in> set (db_pages s). 0 < p_id p \<and> p_id p \<le> max_bigint \<and> dated (p_created p)) \<and>
     (\<forall>v \<in> set (db_versions s). 0 < v_id v \<and> v_id v \<le> max_bigint \<and> dated (v_created v))"

lemma distinct_pos: "distinct (map f xs) \<Longrightarrow> distinct (map (\<lambda>x. (g x, f x)) xs)"
  by (auto simp add: distinct_map inj_on_def)

interpretation versions_list: keyset_list version_pos "\<lambda>s. version_window (pid s) st s None 0" "\<lambda>s. version_window (pid s) st s" listable
  for pid :: "db \<Rightarrow> int" and st
proof
  fix s :: db and c and n :: nat
  assume "listable s"
  then have "distinct (map version_pos (db_versions s))"
    using distinct_pos [of v_id "db_versions s" "\<lambda>v. unix_milli (v_created v)"]
    by (simp add: listable_def version_pos_def [abs_def])
  then show "sorted_wrt (\<lambda>x y. version_pos y < version_pos x) (version_window (pid s) st s None 0)"
    unfolding version_window_def by (rule select_rows_descending)
  assume "0 < n"
  then show "version_window (pid s) st s c n = take n (filter (below version_pos c) (version_window (pid s) st s None 0))"
    unfolding version_window_def by (rule select_rows_window)
qed

interpretation pages_list: keyset_list page_pos "\<lambda>s. page_window P s None 0" "page_window P" listable
  for P
proof
  fix s :: db and c and n :: nat
  assume "listable s"
  then have "distinct (map page_pos (db_pages s))"
    using distinct_pos [of p_id "db_pages s" "\<lambda>p. unix_milli (p_created p)"]
    by (simp add: listable_def page_pos_def [abs_def])
  then show "sorted_wrt (\<lambda>x y. page_pos y < page_pos x) (page_window P s None 0)"
    unfolding page_window_def by (rule select_rows_descending)
  assume "0 < n"
  then show "page_window P s c n = take n (filter (below page_pos c) (page_window P s None 0))"
    unfolding page_window_def by (rule select_rows_window)
qed

subsection \<open>The tools page through the lists\<close>

definition with_cursor :: "string option \<Rightarrow> args \<Rightarrow> args" where
  \<comment> \<open>the next call of a client that follows \<open>next_cursor\<close>\<close>
  "with_cursor c a = (case c of None \<Rightarrow> a | Some s \<Rightarrow> (''cursor'', VStr s) # a)"

definition issued :: "(string \<Rightarrow> string) \<Rightarrow> string \<Rightarrow> goval \<Rightarrow> int \<times> int \<Rightarrow> string" where
  "issued sha kind filters k = encode_cursor sha kind (cursor_row (fst k * ms_ns) (snd k)) filters"

definition good_pos :: "(int \<times> int) option \<Rightarrow> bool" where
  "good_pos c \<longleftrightarrow> (\<forall>k. c = Some k \<longrightarrow> dated (fst k * ms_ns) \<and> 0 < snd k \<and> snd k \<le> max_bigint)"

lemma issued_at: "issued sha kind filters (unix_milli t, i) = encode_cursor sha kind (cursor_row t i) filters"
  by (simp add: issued_def cursor_row_def format_time_floor)

lemma with_cursor_args [simp]:
  "k \<noteq> ''cursor'' \<Longrightarrow> map_of (with_cursor c a) k = map_of a k"
  by (cases c) (simp_all add: with_cursor_def)

lemma with_cursor_same [simp]:
  "k \<noteq> ''cursor'' \<Longrightarrow> arg_str (with_cursor c a) k = arg_str a k"
  "k \<noteq> ''cursor'' \<Longrightarrow> arg_str_ptr (with_cursor c a) k = arg_str_ptr a k"
  "k \<noteq> ''cursor'' \<Longrightarrow> arg_int (with_cursor c a) k = arg_int a k"
  "k \<noteq> ''cursor'' \<Longrightarrow> bool_ptr_arg (with_cursor c a) k = bool_ptr_arg a k"
  "k \<noteq> ''cursor'' \<Longrightarrow> has_or (with_cursor c a) k = has_or a k"
  by (simp_all add: arg_str_def arg_str_ptr_def arg_int_def bool_ptr_arg_def arg_bool_def has_or_def)

lemma filters_same [simp]:
  "page_filters (with_cursor c a) = page_filters a" "version_filters (with_cursor c a) = version_filters a"
  "list_pages_args (with_cursor c a) r n = list_pages_args a r n"
  by (simp_all add: page_filters_def version_filters_def list_pages_args_def)

text \<open>What a tool reads from the cursor it was called with, and what the query makes of it.\<close>

lemma read_walk_cursor:
  assumes "reads_stamps le" "good_pos c" "kind \<in> {''pages'', ''versions''}" "map_of a ''cursor'' = None"
  shows "\<exists>r. read_cursor sha kind filters (with_cursor (map_option (issued sha kind filters) c) a) = Inr r \<and>
    res_bind (normalize_after r) (cast_after le) = Inr c"
proof (cases c)
  case None
  then show ?thesis using assms(4)
    by (simp add: read_cursor_def decode_cursor_def with_cursor_def arg_str_def normalize_after_def cast_after_def)
next
  case (Some k)
  with assms(2) have k: "dated (fst k * ms_ns)" "0 < snd k" "snd k \<le> max_bigint" by (simp_all add: good_pos_def)
  have "unix_milli (fst k * ms_ns) = fst k" by (simp add: unix_milli_def)
  with read_issued_cursor [OF k assms(3), of "with_cursor (map_option (issued sha kind filters) c) a" sha filters]
    normalize_issued [OF assms(1) k] Some show ?thesis
    by (simp add: with_cursor_def issued_def)
qed

lemma cut_page_map: "cut_page n (map f xs) = (map f (fst (cut_page n xs)), snd (cut_page n xs))"
  by (simp add: cut_page_def take_map)

lemma good_version_pos: "listable s \<Longrightarrow> v \<in> set (db_versions s) \<Longrightarrow> good_pos (Some (version_pos v))"
  by (simp add: listable_def good_pos_def version_pos_def floor_ms_dated)

lemma good_page_pos: "listable s \<Longrightarrow> p \<in> set (db_pages s) \<Longrightarrow> good_pos (Some (page_pos p))"
  by (simp add: listable_def good_pos_def page_pos_def floor_ms_dated)

lemma next_good:
  assumes "page_of key n rows c = (rs, nxt)" "0 < n" "\<And>r. r \<in> set rows \<Longrightarrow> good_pos (Some (key r))"
  shows "good_pos nxt"
  using page_of_next [of key n rows c rs] assms by (cases nxt) (auto simp add: good_pos_def)

lemma set_select_rows: "r \<in> set (select_rows key P c n rows) \<Longrightarrow> r \<in> set rows"
  by (auto simp add: select_rows_def limited_def dest!: in_set_takeD split: if_splits)

lemma list_versions_call:
  assumes "reads_stamps (me_lists me)" "listable s" "good_pos c" "map_of a ''cursor'' = None"
    and "load_page (fst (arg_str a ''slug'')) s = Inr p" "arg_str_ptr a ''status'' = st" "check_status st = Inr ()"
    and "fst (arg_int a ''limit'') = int n" "1 \<le> n" "n \<le> 100"
  shows "\<exists>rs nxt. page_of version_pos n (version_window (ld_id p) st s None 0) c = (rs, nxt) \<and>
    list_versions_tool me (with_cursor (map_option (issued (me_sha me) ''versions'' (version_filters a)) c) a) s =
      Inr (map (listed_version_of p) rs, map_option (issued (me_sha me) ''versions'' (version_filters a)) nxt) \<and> good_pos nxt"
proof -
  let ?f = "version_filters a"
  obtain r where r: "read_cursor (me_sha me) ''versions'' ?f (with_cursor (map_option (issued (me_sha me) ''versions'' ?f) c) a) = Inr r"
      "res_bind (normalize_after r) (cast_after (me_lists me)) = Inr c"
    using read_walk_cursor [OF assms(1,3) _ assms(4)] by blast
  obtain rs yet where cut: "cut_page n (version_window (ld_id p) st s c (n + 1)) = (rs, yet)"
    by (cases "cut_page n (version_window (ld_id p) st s c (n + 1))")
  have lim: "normalize_list_limit (Some (int n + 1)) = Inr (n + 1)"
    using assms(9,10) by (simp add: normalize_list_limit_def max_list_limit_def nat_add_distrib)
  have rows: "list_versions (me_lists me) (fst (arg_str a ''slug'')) \<lparr>lv_status = st, lv_after = r, lv_limit = Some (int n + 1)\<rparr> s =
      Inr (map (listed_version_of p) (version_window (ld_id p) st s c (n + 1)))"
    using r(2) lim assms(5,7) by (auto simp add: list_versions_def version_window_def res_bind_Inr_iff)
  let ?nxt = "if yet \<and> rs \<noteq> [] then Some (version_pos (last rs)) else None"
  have page: "page_of version_pos n (version_window (ld_id p) st s None 0) c = (rs, ?nxt)"
    using assms(9) by (intro versions_list.look_ahead [of s n "\<lambda>_. ld_id p" st, OF assms(2) _ cut]) simp
  have "list_versions_tool me (with_cursor (map_option (issued (me_sha me) ''versions'' ?f) c) a) s =
      Inr (map (listed_version_of p) rs, map_option (issued (me_sha me) ''versions'' ?f) ?nxt)"
    using r(1) rows cut assms(6,8)
    by (auto simp add: list_versions_tool_def cut_page_map last_map listed_version_of_def version_columns_def issued_at
        version_pos_def Let_def)
  moreover have "good_pos ?nxt"
    using assms(9) good_version_pos [OF assms(2)] by (intro next_good [OF page]) (auto simp add: version_window_def dest: set_select_rows)
  ultimately show ?thesis using page by blast
qed

text \<open>The whole list a walk is over: the same arguments with no cursor and no limit.\<close>

definition all_pages_args :: "args \<Rightarrow> list_pages_options" where
  "all_pages_args a = (list_pages_args a None 0)\<lparr>lo_limit := None\<rparr>"

definition page_filter :: "list_env \<Rightarrow> args \<Rightarrow> db \<Rightarrow> page \<Rightarrow> bool" where
  "page_filter le a s =
     page_cond le s (projr (workspace_cond (lo_workspace (all_pages_args a))))
       (projr (normalize_search_query (lo_query (all_pages_args a)))) (all_pages_args a)"

lemma page_cond_args: "page_cond le s w q (list_pages_args a r n) = page_cond le s w q (all_pages_args a)"
  by (rule ext) (simp add: page_cond_def all_pages_args_def list_pages_args_def)

lemma query_pages_window:
  assumes "query_pages le (all_pages_args a) s = Inr rows" "1 \<le> n" "n \<le> 100"
    and "res_bind (normalize_after r) (cast_after le) = Inr c"
  shows "rows = page_window (page_filter le a) s None 0"
    "query_pages le (list_pages_args a r (int n)) s = Inr (page_window (page_filter le a) s c (n + 1))"
proof -
  from assms(1) obtain w q where
    w: "workspace_cond (lo_workspace (all_pages_args a)) = Inr w" "normalize_search_query (lo_query (all_pages_args a)) = Inr q"
      "query_texts (all_pages_args a) = Inr ()" and
    rows: "rows = select_rows page_pos (page_cond le s w q (all_pages_args a)) None 0 (db_pages s)"
    by (auto simp add: query_pages_def build_list_pages_def res_bind_Inr_iff all_pages_args_def list_pages_args_def
        normalize_after_def normalize_list_limit_def cast_after_def)
  then have P: "page_filter le a s = page_cond le s w q (all_pages_args a)" by (simp add: page_filter_def)
  with rows show "rows = page_window (page_filter le a) s None 0" by (simp add: page_window_def)
  have same: "lo_workspace (list_pages_args a r n') = lo_workspace (all_pages_args a)"
    "lo_query (list_pages_args a r n') = lo_query (all_pages_args a)" "lo_after (list_pages_args a r n') = r"
    "lo_limit (list_pages_args a r n') = Some (n' + 1)"
    "query_texts (list_pages_args a r n') = query_texts (all_pages_args a)" for n'
    by (simp_all add: all_pages_args_def list_pages_args_def query_texts_def)
  have lim: "normalize_list_limit (Some (int n + 1)) = Inr (n + 1)"
    using assms(2,3) by (simp add: normalize_list_limit_def max_list_limit_def nat_add_distrib)
  from assms(4) obtain x where "normalize_after r = Inr x" "cast_after le x = Inr c" by (auto simp add: res_bind_Inr_iff)
  then show "query_pages le (list_pages_args a r (int n)) s = Inr (page_window (page_filter le a) s c (n + 1))"
    by (simp add: query_pages_def build_list_pages_def same w lim page_cond_args P page_window_def)
qed

lemma resolve_gaps_total: "\<exists>gaps s'. resolve_gaps he rows s = Inr (gaps, s')"
  by (simp add: resolve_gaps_def compute_gaps_def bind_tx_def then_tx_def ret_def read_tx_def exec_tx_def split: prod.split)

lemma each_row_map: "(\<And>x. x \<in> set xs \<Longrightarrow> \<exists>y. f x = Inr y \<and> g y = h x) \<Longrightarrow> \<exists>ys. each_row f xs = Inr ys \<and> map g ys = map h xs"
  by (induction xs) fastforce+

definition readable :: "deploy_env \<Rightarrow> db \<Rightarrow> bool" where
  \<comment> \<open>the coverage of every page can be read\<close>
  "readable env s \<longleftrightarrow> (\<forall>p \<in> set (db_pages s). \<exists>c. published_coverage env s p = Inr c)"

definition summary_pos :: "page_summary \<Rightarrow> int \<times> int" where
  "summary_pos r = (unix_milli (time_or_zero (pg_created (ps_page r))), pg_id (ps_page r))"

lemma list_pages_rows:
  assumes "query_pages le opts s = Inr ps" "readable env s" "set ps \<subseteq> set (db_pages s)"
  shows "\<exists>rows. fst (list_pages env he le now opts s) = Inr rows \<and> map summary_pos rows = map page_pos ps"
proof -
  obtain gaps s' where g: "resolve_gaps he (gap_rows s ps) s = Inr (gaps, s')" using resolve_gaps_total by blast
  have "\<exists>y. page_summary_of env (lo_numbers opts) now s gaps p = Inr y \<and> summary_pos y = page_pos p" if "p \<in> set ps" for p
  proof -
    have "p \<in> set (db_pages s)" using that assms(3) by blast
    then obtain c where c: "published_coverage env s p = Inr c" using assms(2) unfolding readable_def by blast
    have "time_or_zero (scan_time (Some t)) = t" for t by (simp add: time_or_zero_def scan_time_def nonzero_def)
    with c show ?thesis by (simp add: page_summary_of_def summary_pos_def page_pos_def page_info_of_def)
  qed
  from each_row_map [OF this] g assms(1) show ?thesis by (auto simp add: list_pages_def)
qed

lemma list_pages_call:
  assumes "reads_stamps (me_lists me)" "listable s" "readable (me_deploy me) s" "good_pos c" "map_of a ''cursor'' = None"
    and "query_pages (me_lists me) (all_pages_args a) s = Inr all_rows"
    and "fst (arg_int a ''limit'') = int n" "1 \<le> n" "n \<le> 100"
  shows "\<exists>rs rs' nxt. page_of page_pos n (page_window (page_filter (me_lists me) a) s None 0) c = (rs, nxt) \<and>
    fst (list_pages_tool me now (with_cursor (map_option (issued (me_sha me) ''pages'' (page_filters a)) c) a) s) =
      Inr (rs', map_option (issued (me_sha me) ''pages'' (page_filters a)) nxt) \<and>
    map (\<lambda>r. summary_pos (fst r)) rs' = map page_pos rs \<and> good_pos nxt"
proof -
  let ?f = "page_filters a" and ?w = "page_window (page_filter (me_lists me) a) s"
  obtain r where r: "read_cursor (me_sha me) ''pages'' ?f (with_cursor (map_option (issued (me_sha me) ''pages'' ?f) c) a) = Inr r"
      "res_bind (normalize_after r) (cast_after (me_lists me)) = Inr c"
    using read_walk_cursor [OF assms(1,4) _ assms(5)] by blast
  obtain rs yet where cut: "cut_page n (?w c (n + 1)) = (rs, yet)" by (cases "cut_page n (?w c (n + 1))")
  let ?nxt = "if yet \<and> rs \<noteq> [] then Some (page_pos (last rs)) else None"
  have page: "page_of page_pos n (?w None 0) c = (rs, ?nxt)"
    using assms(8) by (intro pages_list.look_ahead [OF assms(2) _ cut]) simp
  have sub: "set (?w c (n + 1)) \<subseteq> set (db_pages s)" by (auto simp add: page_window_def dest: set_select_rows)
  obtain rows where rows: "fst (list_pages (me_deploy me) (me_health me) (me_lists me) now (list_pages_args a r (int n)) s) = Inr rows"
      "map summary_pos rows = map page_pos (?w c (n + 1))"
    using list_pages_rows [OF query_pages_window(2) [OF assms(6,8,9) r(2)] assms(3) sub] by blast
  obtain rs2 where rs2: "cut_page n rows = (rs2, yet)" "map summary_pos rs2 = map page_pos rs"
  proof -
    have "cut_page n (map summary_pos rows) = cut_page n (map page_pos (?w c (n + 1)))" by (simp only: rows(2))
    then show ?thesis using that cut unfolding cut_page_map by (cases "cut_page n rows") simp
  qed
  have last: "rs \<noteq> [] \<Longrightarrow> summary_pos (last rs2) = page_pos (last rs)" "rs2 = [] \<longleftrightarrow> rs = []"
    using rs2(2) by (metis last_map map_is_Nil_conv)+
  obtain s' where "list_pages (me_deploy me) (me_health me) (me_lists me) now (list_pages_args a r (int n)) s = (Inr rows, s')"
    using rows(1) by (metis prod.collapse)
  then have "fst (list_pages_tool me now (with_cursor (map_option (issued (me_sha me) ''pages'' ?f) c) a) s) =
      Inr (map (\<lambda>r. (r, page_urls_for me (pg_slug (ps_page r)))) rs2, map_option (issued (me_sha me) ''pages'' ?f) ?nxt)"
    using r(1) rs2(1) last assms(7)
    by (auto simp add: list_pages_tool_def summary_pos_def issued_at [symmetric] Let_def)
  moreover have "good_pos ?nxt"
    using assms(8) good_page_pos [OF assms(2)] by (intro next_good [OF page]) (auto simp add: page_window_def dest: set_select_rows)
  moreover have "map (\<lambda>r. summary_pos (fst r)) (map (\<lambda>r. (r, page_urls_for me (pg_slug (ps_page r)))) rs2) = map page_pos rs"
    using rs2(2) by (simp add: comp_def)
  ultimately show ?thesis using page by blast
qed

subsection \<open>Walks\<close>

definition listed_pos :: "listed_version \<Rightarrow> int \<times> int" where
  "listed_pos r = (unix_milli (vs_created (li_version r)), vs_id (li_version r))"

definition all_versions :: "mcp_env \<Rightarrow> args \<Rightarrow> db \<Rightarrow> go_error + listed_version list" where
  \<comment> \<open>the whole list of the page: no cursor, no limit\<close>
  "all_versions me a s =
     list_versions (me_lists me) (fst (arg_str a ''slug'')) \<lparr>lv_status = arg_str_ptr a ''status'', lv_after = None, lv_limit = None\<rparr> s"

lemma all_versions_Inr:
  assumes "all_versions me a s = Inr rows"
  obtains p where "load_page (fst (arg_str a ''slug'')) s = Inr p" "check_status (arg_str_ptr a ''status'') = Inr ()"
    "rows = map (listed_version_of p) (version_window (ld_id p) (arg_str_ptr a ''status'') s None 0)"
  using assms that
  by (auto simp add: all_versions_def list_versions_def res_bind_Inr_iff normalize_after_def normalize_list_limit_def cast_after_def
      version_window_def)

lemma listed_pos_of: "listed_pos (listed_version_of p v) = version_pos v"
  by (simp add: listed_pos_def listed_version_of_def version_columns_def version_pos_def Let_def)

definition walk_args :: "args \<Rightarrow> nat \<Rightarrow> bool" where
  \<comment> \<open>what the schemas of the two tools let through, before there is a cursor\<close>
  "walk_args a n \<longleftrightarrow> map_of a ''cursor'' = None \<and> fst (arg_int a ''limit'') = int n \<and> 1 \<le> n \<and> n \<le> 100"

lemma versions_walk:
  assumes "reads_stamps (me_lists me)" "walk_args a n"
    and "\<And>s. s \<in> set ss \<Longrightarrow> listable s \<and> all_versions me a s = Inr (full s)"
  obtains pid rss rss' fin where
    "walk (keyset_list.call version_pos (\<lambda>s. version_window (pid s) (arg_str_ptr a ''status'') s None 0) n) ss None = Inr (rss, fin)"
    "walk (\<lambda>s c. list_versions_tool me (with_cursor c a) s) ss None = Inr (rss', fin)"
    "map (map listed_pos) rss' = map (map version_pos) rss"
    "\<And>s. s \<in> set ss \<Longrightarrow> map listed_pos (full s) = map version_pos (version_window (pid s) (arg_str_ptr a ''status'') s None 0)"
proof -
  let ?st = "arg_str_ptr a ''status''" and ?page = "\<lambda>s. projr (load_page (fst (arg_str a ''slug'')) s)"
  let ?pid = "\<lambda>s. ld_id (?page s)"
  let ?call = "keyset_list.call version_pos (\<lambda>s. version_window (?pid s) ?st s None 0) n"
  have step: "\<exists>rs rs' nxt. ?call s c = Inr (rs, nxt) \<and>
      list_versions_tool me (with_cursor (map_option (issued (me_sha me) ''versions'' (version_filters a)) c) a) s =
        Inr (rs', map_option (issued (me_sha me) ''versions'' (version_filters a)) nxt) \<and>
      map listed_pos rs' = map version_pos rs \<and> good_pos nxt"
    if s: "s \<in> set ss" and c: "good_pos c" for s c
  proof -
    from assms(3) [OF s] obtain p where p: "listable s" "load_page (fst (arg_str a ''slug'')) s = Inr p" "check_status ?st = Inr ()"
      by (auto elim: all_versions_Inr)
    from list_versions_call [OF assms(1) p(1) c _ p(2) refl p(3), of n] assms(2) p(2) show ?thesis
      by (fastforce simp add: versions_list.call_def walk_args_def listed_pos_of)
  qed
  have "good_pos None" by (simp add: good_pos_def)
  from walk_refines [of ss good_pos ?call "\<lambda>s c. list_versions_tool me (with_cursor c a) s", OF step this]
  obtain rss rss' fin where "walk ?call ss None = Inr (rss, fin)" "walk (\<lambda>s c. list_versions_tool me (with_cursor c a) s) ss None = Inr (rss', fin)"
      "map (map listed_pos) rss' = map (map version_pos) rss" by auto
  moreover have "map listed_pos (full s) = map version_pos (version_window (?pid s) ?st s None 0)" if "s \<in> set ss" for s
    using assms(3) [OF that] by (auto elim!: all_versions_Inr simp add: listed_pos_of)
  ultimately show ?thesis by (rule that)
qed

end
