(* ===== verification/Walks.thy ===== *)
theory Walks
  imports Paging
begin

text \<open>
  Following \<open>next_cursor\<close>: what a client of \<open>list_pages\<close> and \<open>list_versions\<close> sees over a series of calls,
  between which other transactions may commit.
\<close>

text \<open>
  C11: following the cursors of \<open>list_versions\<close>. Whatever commits between the calls of a client that follows
  \<open>next_cursor\<close> from the start, every cursor it is given is accepted, no version is listed twice (the rows
  descend strictly in creation time and id), every row was in the list at some call, and when the tool answers
  no more cursor, every version that was in the list at every call has been listed.
\<close>

theorem list_versions_walk:
  assumes "reads_stamps (me_lists me)" "walk_args a n"
    and "\<And>s. s \<in> set ss \<Longrightarrow> listable s \<and> all_versions me a s = Inr (full s)"
  shows "\<exists>rss fin. walk (\<lambda>s c. list_versions_tool me (with_cursor c a) s) ss None = Inr (rss, fin) \<and>
    sorted_wrt (\<lambda>x y. listed_pos y < listed_pos x) (concat rss) \<and>
    (\<forall>r \<in> set (concat rss). \<exists>s \<in> set ss. listed_pos r \<in> listed_pos ` set (full s)) \<and>
    (fin \<longrightarrow> (\<forall>k. (\<forall>s \<in> set ss. k \<in> listed_pos ` set (full s)) \<longrightarrow> k \<in> listed_pos ` set (concat rss)))"
proof -
  obtain pid rss rss' fin where
    abs: "walk (keyset_list.call version_pos (\<lambda>s. version_window (pid s) (arg_str_ptr a ''status'') s None 0) n) ss None = Inr (rss, fin)"
    and run: "walk (\<lambda>s c. list_versions_tool me (with_cursor c a) s) ss None = Inr (rss', fin)"
    and same: "map (map listed_pos) rss' = map (map version_pos) rss"
    and all: "\<And>s. s \<in> set ss \<Longrightarrow> map listed_pos (full s) = map version_pos (version_window (pid s) (arg_str_ptr a ''status'') s None 0)"
    by (rule versions_walk [where ss = ss and full = full, OF assms]) (assumption | rule that)+
  have ok: "listable s" if "s \<in> set ss" for s using assms(3) [OF that] ..
  have n: "0 < n" using assms(2) by (simp add: walk_args_def)
  have flat: "map listed_pos (concat rss') = map version_pos (concat rss)" using same by (simp add: map_concat)
  have img: "listed_pos ` set (full s) = version_pos ` set (version_window (pid s) (arg_str_ptr a ''status'') s None 0)"
    if "s \<in> set ss" for s using arg_cong [OF all [OF that], of set] by simp
  have imgs: "listed_pos ` set (concat rss') = version_pos ` set (concat rss)" using arg_cong [OF flat, of set] by simp
  have "sorted_wrt (\<lambda>x y. y < x) (map version_pos (concat rss))"
    using versions_list.walk_descends [OF ok n abs] by (simp add: sorted_wrt_map)
  then have "sorted_wrt (\<lambda>x y. listed_pos y < listed_pos x) (concat rss')"
    unfolding flat [symmetric] by (simp add: sorted_wrt_map)
  moreover have "\<exists>s \<in> set ss. listed_pos r \<in> listed_pos ` set (full s)" if "r \<in> set (concat rss')" for r
  proof -
    from that imgs obtain v where v: "v \<in> set (concat rss)" "listed_pos r = version_pos v" by (metis image_iff)
    from versions_list.walk_below [OF ok n abs v(1)] img v(2) show ?thesis by auto
  qed
  moreover have "k \<in> listed_pos ` set (concat rss')" if "fin" "\<forall>s \<in> set ss. k \<in> listed_pos ` set (full s)" for k
    unfolding imgs using that abs img by (intro versions_list.walk_complete [OF ok n]) auto
  ultimately show ?thesis using run by blast
qed

text \<open>
  C34: listing pages ends. While the list does not change, a client that follows \<open>next_cursor\<close> from the start
  gets every page of the unbounded list exactly once and in its order, in exactly as many calls as the limit
  makes of it (at least one), whatever the calls write (coverage gaps) and however late each is made.
\<close>

theorem list_pages_walk_ends:
  assumes "reads_stamps (me_lists me)" "walk_args a n"
    and "\<And>t s. (t, s) \<in> set ss \<Longrightarrow> listable s \<and> readable (me_deploy me) s \<and>
      query_pages (me_lists me) (all_pages_args a) s = Inr rows"
    and "(length rows - 1) div n < length ss"
  shows "\<exists>rss. walk (\<lambda>(t, s) c. fst (list_pages_tool me t (with_cursor c a) s)) ss None = Inr (rss, True) \<and>
    map (\<lambda>r. pg_id (ps_page (fst r))) (concat rss) = map p_id rows \<and> length rss = (length rows - 1) div n + 1"
proof -
  let ?P = "page_filter (me_lists me) a"
  let ?call = "\<lambda>(t :: int, s). keyset_list.call page_pos (\<lambda>s. page_window ?P s None 0) n s"
  let ?tool = "\<lambda>(t, s) c. fst (list_pages_tool me t (with_cursor c a) s)"
  have args: "map_of a ''cursor'' = None" "fst (arg_int a ''limit'') = int n" "1 \<le> n" "n \<le> 100"
    using assms(2) by (simp_all add: walk_args_def)
  have all: "page_window ?P s None 0 = rows" if "(t, s) \<in> set ss" for t s
    using query_pages_window(1) [of "me_lists me" a s rows n None None] assms(3) [OF that] args
    by (simp add: normalize_after_def cast_after_def)
  have step: "\<exists>rs rs' nxt. ?call x c = Inr (rs, nxt) \<and>
      ?tool x (map_option (issued (me_sha me) ''pages'' (page_filters a)) c) =
        Inr (rs', map_option (issued (me_sha me) ''pages'' (page_filters a)) nxt) \<and>
      map (\<lambda>r. summary_pos (fst r)) rs' = map page_pos rs \<and> good_pos nxt"
    if x: "x \<in> set ss" and c: "good_pos c" for x c
  proof -
    obtain t s where ts: "x = (t, s)" by (cases x)
    with assms(3) x have s: "listable s" "readable (me_deploy me) s" "query_pages (me_lists me) (all_pages_args a) s = Inr rows" by auto
    from list_pages_call [OF assms(1) s(1,2) c args(1) s(3) args(2-4), of t] show ?thesis
      by (auto simp add: ts pages_list.call_def)
  qed
  have fits: "(length (filter (below page_pos None) rows) - 1) div n < length (map snd ss)"
    using assms(4) by (simp add: below_def)
  have "listable s \<and> page_window ?P s None 0 = rows" if "s \<in> set (map snd ss)" for s
    using that assms(3) all by auto
  from pages_list.walk_ends [OF this _ refl fits] args(3) obtain rss where
    abs: "walk (keyset_list.call page_pos (\<lambda>s. page_window ?P s None 0) n) (map snd ss) None = Inr (rss, True)"
      "concat rss = rows" "length rss = (length rows - 1) div n + 1"
    by (auto simp add: below_def)
  have "walk ?call ss c = walk (keyset_list.call page_pos (\<lambda>s. page_window ?P s None 0) n) (map snd ss) c" for c
    by (induction ss arbitrary: c) (auto split: option.split intro!: arg_cong [where f = "res_bind _"])
  with abs(1) have abs': "walk ?call ss None = Inr (rss, True)" by simp
  have "good_pos None" by (simp add: good_pos_def)
  from walk_refines [of ss good_pos ?call ?tool, OF step this] abs'
  obtain rss' where run: "walk ?tool ss None = Inr (rss', True)" "map (map (\<lambda>r. summary_pos (fst r))) rss' = map (map page_pos) rss"
    by auto
  have "map (\<lambda>r. summary_pos (fst r)) (concat rss') = map page_pos rows"
    using run(2) by (simp add: map_concat abs(2) [symmetric])
  then have "map snd (map (\<lambda>r. summary_pos (fst r)) (concat rss')) = map snd (map page_pos rows)" by simp
  then have "map (\<lambda>r. pg_id (ps_page (fst r))) (concat rss') = map p_id rows"
    by (simp add: summary_pos_def page_pos_def comp_def)
  moreover have "length rss' = length rss" using arg_cong [OF run(2), of length] by simp
  ultimately show ?thesis using run(1) abs(3) by auto
qed

subsection \<open>The hypotheses can hold\<close>

definition ex_mcp :: mcp_env where
  "ex_mcp = \<lparr>me_sha = (\<lambda>s. s), me_dashboard = ''https://pages'', me_content = ''https://content'',
     me_lists = \<lparr>le_timestamp = parse_time, le_fold = to_lower\<rparr>, me_deploy = ex_env, me_health = ex_health\<rparr>"

definition ex_args :: args where
  "ex_args = [(''slug'', VStr ''acme''), (''limit'', VFloat float_one)]"

definition ex_next :: version where
  "ex_next = ex_version\<lparr>v_id := 7\<rparr>"

lemma ex_reads_stamps: "reads_stamps (me_lists ex_mcp)"
proof -
  have "zero_time < 0" by (simp add: zero_time_def days_from_civil_def)
  then show ?thesis by (auto simp add: reads_stamps_def ex_mcp_def dated_def in_years_def parse_format_time nonzero_def)
qed

lemma ex_walk_args: "walk_args ex_args 1"
  by (simp add: walk_args_def ex_args_def arg_int_def float_trunc_def float_one_def zeros_def dec_value_def)

lemma ex_listable: "set vs \<subseteq> {ex_version, ex_next} \<Longrightarrow> distinct (map v_id vs) \<Longrightarrow> listable (ex_db ex_page vs)"
proof -
  have "dated 0" by (simp add: dated_def in_years_def day_of_def civil_examples)
  then show "set vs \<subseteq> {ex_version, ex_next} \<Longrightarrow> distinct (map v_id vs) \<Longrightarrow> ?thesis"
    by (auto simp add: listable_def ex_db_def ex_page_def ex_next_def ex_version_def max_bigint_def)
qed

lemma ex_all_versions: "all_versions ex_mcp ex_args (ex_db ex_page vs) = Inr (projr (all_versions ex_mcp ex_args (ex_db ex_page vs)))"
  by (simp add: all_versions_def ex_args_def arg_str_def arg_str_ptr_def list_versions_def load_page_def ex_db_def ex_page_def
      find_live_def live_page_def check_status_def normalize_after_def normalize_list_limit_def cast_after_def)

theorem list_versions_walk_witness:
  "\<exists>rss fin. walk (\<lambda>s c. list_versions_tool ex_mcp (with_cursor c ex_args) s)
      [ex_db ex_page [ex_next, ex_version], ex_db ex_page [ex_version]] None = Inr (rss, fin) \<and>
    sorted_wrt (\<lambda>x y. listed_pos y < listed_pos x) (concat rss)"
proof -
  let ?ss = "[ex_db ex_page [ex_next, ex_version], ex_db ex_page [ex_version]]"
  have "listable s \<and> all_versions ex_mcp ex_args s = Inr (projr (all_versions ex_mcp ex_args s))" if "s \<in> set ?ss" for s
    using that by (auto intro!: ex_listable ex_all_versions simp add: ex_next_def ex_version_def)
  from list_versions_walk [OF ex_reads_stamps ex_walk_args this] show ?thesis by blast
qed

theorem list_pages_walk_ends_witness:
  "\<exists>rss. walk (\<lambda>(t, s) c. fst (list_pages_tool ex_mcp t (with_cursor c ex_args) s))
      [(0, ex_db ex_page [ex_version]), (5, ex_db ex_page [ex_version])] None = Inr (rss, True) \<and>
    map (\<lambda>r. pg_id (ps_page (fst r))) (concat rss) = [1] \<and> length rss = 1"
proof -
  let ?s = "ex_db ex_page [ex_version]"
  have "contains_str ''pages-data'' ''old'' = False" by code_simp
  then have r: "readable (me_deploy ex_mcp) ?s"
    by (simp add: readable_def ex_mcp_def ex_defs health_run_simps)
  have q: "query_pages (me_lists ex_mcp) (all_pages_args ex_args) ?s = Inr [ex_page]"
    by (simp add: query_pages_def build_list_pages_def all_pages_args_def list_pages_args_def ex_args_def arg_str_ptr_def arg_str_def
        bool_ptr_arg_def arg_bool_def workspace_cond_def normalize_search_query_def normalize_after_def normalize_list_limit_def
        query_texts_def cast_after_def select_rows_def limited_def order_desc_def page_cond_def search_cond_def client_cond_def
        flag_cond_def below_def ex_db_def ex_page_def)
  have l: "listable ?s" by (rule ex_listable) simp_all
  let ?ss = "[(0 :: int, ?s), (5, ?s)]"
  have "listable s \<and> readable (me_deploy ex_mcp) s \<and> query_pages (me_lists ex_mcp) (all_pages_args ex_args) s = Inr [ex_page]"
    if "(t, s) \<in> set ?ss" for t s using that r q l by auto
  note ends = list_pages_walk_ends [where ss = ?ss, OF ex_reads_stamps ex_walk_args this]
  have "map p_id [ex_page] = [1]" "(length [ex_page] - 1) div 1 + 1 = (1 :: nat)" "(length [ex_page] - 1) div 1 < length ?ss"
    by (simp_all add: ex_page_def)
  with ends show ?thesis by (simp only:)
qed

end
