(* ===== verification/Page_Patch.thy ===== *)
theory Page_Patch
  imports Walks
begin

text \<open>
  \<open>internal/pagepatch/pagepatch.go\<close>: anchored literal edits, and the tool \<open>patch_page\<close> of
  \<open>internal/mcp/tools_pages.go\<close> that reads a version, edits it and deploys the result. The size budgets and
  the findings of \<open>preflight\<close> are parameters.
\<close>

subsection \<open>Occurrences: \<open>strings.Index\<close>, \<open>Count\<close> and \<open>ReplaceAll\<close>\<close>

fun find_sub :: "string \<Rightarrow> string \<Rightarrow> (string \<times> string) option" where
  \<comment> \<open>what precedes and what follows the first occurrence\<close>
  "find_sub f s =
     (if has_prefix f s then Some ([], drop (length f) s)
      else (case s of
         [] \<Rightarrow> None
       | c # cs \<Rightarrow> map_option (\<lambda>(p, r). (c # p, r)) (find_sub f cs)))"

declare find_sub.simps [simp del]

lemma find_sub_Some: "find_sub f s = Some (p, r) \<Longrightarrow> s = p @ f @ r"
proof (induction f s arbitrary: p rule: find_sub.induct)
  case (1 f s)
  show ?case
  proof (cases "has_prefix f s")
    case True
    with "1.prems" show ?thesis by (auto simp add: find_sub.simps [of f s] has_prefix_def prefix_def)
  next
    case False
    with "1.prems" "1.IH" show ?thesis by (auto simp add: find_sub.simps [of f s] split: list.splits)
  qed
qed

function pieces :: "string \<Rightarrow> string \<Rightarrow> string list" where
  \<comment> \<open>what lies around the occurrences of an anchor, from the left, without overlap\<close>
  "pieces f s = (if f = [] then [s] else (case find_sub f s of None \<Rightarrow> [s] | Some (p, r) \<Rightarrow> p # pieces f r))"
  by pat_completeness auto
termination
  by (relation "measure (\<lambda>(f, s). length s)") (auto dest!: find_sub_Some)

declare pieces.simps [simp del]

definition count_occurrences :: "string \<Rightarrow> string \<Rightarrow> nat" where
  "count_occurrences s f = (if f = [] then 0 else length (pieces f s) - 1)"

definition replace_all :: "string \<Rightarrow> string \<Rightarrow> string \<Rightarrow> string" where
  "replace_all s f r = join r (pieces f s)"

definition line_of :: "string \<Rightarrow> nat \<Rightarrow> nat" where
  "line_of s offset = 1 + length (filter (\<lambda>c. c = CHR 0x0A) (take offset s))"

subsection \<open>Edits\<close>

definition max_edits :: nat where "max_edits = 100"
definition max_find_chars :: nat where "max_find_chars = 64 * 1024"
definition max_replace_chars :: nat where "max_replace_chars = 1024 * 1024"
definition max_expected_count :: int where "max_expected_count = 1000"

record edit =
  ed_find :: string
  ed_replace :: string
  ed_count :: int

record applied =
  ap_index :: nat
  ap_count :: int
  ap_first_line :: nat
  ap_delta :: int

record patched =
  pt_html :: string
  pt_applied :: "applied list"

definition invalid :: "string \<Rightarrow> go_error" where
  "invalid msg = bad_request msg ''patch_edits_invalid'' VNil"

definition edit_error :: "nat \<Rightarrow> string \<Rightarrow> go_error" where
  "edit_error i msg = invalid (''edit '' @ itoa (int i) @ '': '' @ msg)"

definition validate_edit :: "nat \<Rightarrow> edit \<Rightarrow> go_error + unit" where
  "validate_edit i e =
     (let n = utf16_len (ed_find e) in
      if n = 0 \<or> max_find_chars < n
      then Inl (edit_error i (''find must be 1-'' @ itoa (int max_find_chars) @ '' characters''))
      else if max_replace_chars < utf16_len (ed_replace e)
      then Inl (edit_error i (''replace must be at most '' @ itoa (int max_replace_chars) @ '' characters''))
      else if ed_count e < 0 \<or> max_expected_count < ed_count e
      then Inl (edit_error i (''count must be an integer 1-'' @ itoa max_expected_count))
      else Inr ())"

fun validate_each :: "nat \<Rightarrow> edit list \<Rightarrow> go_error + unit" where
  "validate_each i [] = Inr ()"
| "validate_each i (e # es) = res_bind (validate_edit i e) (\<lambda>_. validate_each (i + 1) es)"

definition validate_edits :: "edit list \<Rightarrow> go_error + unit" where
  "validate_edits es =
     (if es = [] then Inl (invalid ''edits must be a non-empty array'')
      else if max_edits < length es then Inl (invalid (''at most '' @ itoa (int max_edits) @ '' edits per patch''))
      else validate_each 0 es)"

definition edit_count :: "nat \<Rightarrow> goval option \<Rightarrow> go_error + int" where
  "edit_count i c =
     (let bad = Inl (edit_error i (''count must be an integer 1-'' @ itoa max_expected_count)) in
      case c of
        None \<Rightarrow> Inr 1
      | Some (VFloat f) \<Rightarrow>
          (case float_int f of Some n \<Rightarrow> if n < 1 \<or> max_expected_count < n then bad else Inr n | None \<Rightarrow> bad)
      | Some _ \<Rightarrow> bad)"

definition parse_edit :: "nat \<Rightarrow> goval \<Rightarrow> go_error + edit" where
  "parse_edit i v =
     (let es = (case v of VObj es \<Rightarrow> es | _ \<Rightarrow> []) in
      case (map_of es ''find'', map_of es ''replace'') of
        (Some (VStr f), Some (VStr r)) \<Rightarrow>
          res_bind (validate_edit i \<lparr>ed_find = f, ed_replace = r, ed_count = 1\<rparr>) (\<lambda>_.
          res_bind (edit_count i (map_of es ''count'')) (\<lambda>n. Inr \<lparr>ed_find = f, ed_replace = r, ed_count = n\<rparr>))
      | _ \<Rightarrow> Inl (edit_error i ''find and replace must both be strings''))"

fun parse_each :: "nat \<Rightarrow> goval list \<Rightarrow> go_error + edit list" where
  "parse_each i [] = Inr []"
| "parse_each i (v # vs) = res_bind (parse_edit i v) (\<lambda>e. res_bind (parse_each (i + 1) vs) (\<lambda>es. Inr (e # es)))"

definition parse_edits :: "goval \<Rightarrow> go_error + edit list" where
  "parse_edits v =
     (case v of
        VList vs \<Rightarrow>
          if vs = [] then Inl (invalid ''edits must be a non-empty array'')
          else if max_edits < length vs then Inl (invalid (''at most '' @ itoa (int max_edits) @ '' edits per patch''))
          else res_bind (parse_each 0 vs) (\<lambda>es. res_bind (validate_edits es) (\<lambda>_. Inr es))
      | _ \<Rightarrow> Inl (invalid ''edits must be a non-empty array''))"

subsection \<open>Applying them\<close>

definition expected_count :: "edit \<Rightarrow> int" where
  "expected_count e = (if ed_count e = 0 then 1 else ed_count e)"

definition anchor_mismatch :: "nat \<Rightarrow> int \<Rightarrow> int \<Rightarrow> go_error" where
  "anchor_mismatch i expected found =
     (let hint =
        (if found = 0
         then ''The anchor is not present. Locate it with find_in_version and copy the exact bytes, including whitespace.''
         else ''Widen the anchor until it is unique, or set count:'' @ itoa found @ '' if every occurrence should change.'') in
      conflict (''edit '' @ itoa (int i) @ '': expected '' @ itoa expected @ '' occurrence(s) of the anchor, found '' @ itoa found @
         ''. '' @ hint) ''patch_anchor_mismatch''
        (VObj [(''edit_index'', VInt (int i)), (''expected_count'', VInt expected), (''actual_count'', VInt found)]))"

definition result_too_large :: "nat \<Rightarrow> int \<Rightarrow> int \<Rightarrow> go_error" where
  "result_too_large i grown limit =
     bad_request (''edit '' @ itoa (int i) @ '' would make the document '' @ itoa grown @ '' bytes; the limit is '' @ itoa limit @
         '' bytes'') ''patch_result_too_large''
       (VObj [(''edit_index'', VInt (int i)), (''result_bytes'', VInt grown), (''max_bytes'', VInt limit)])"

definition apply_edit :: "int \<Rightarrow> nat \<Rightarrow> edit \<Rightarrow> string \<Rightarrow> go_error + string \<times> applied" where
  "apply_edit limit i e html =
     (let found = int (count_occurrences html (ed_find e));
          size = int (length html);
          grown = size + found * (int (length (ed_replace e)) - int (length (ed_find e))) in
      if found \<noteq> expected_count e then Inl (anchor_mismatch i (expected_count e) found)
      else if limit < grown \<and> size < grown then Inl (result_too_large i grown limit)
      else
        let html' = replace_all html (ed_find e) (ed_replace e) in
        Inr (html', \<lparr>ap_index = i, ap_count = found, ap_first_line = line_of html (length (hd (pieces (ed_find e) html))),
                     ap_delta = int (length html') - size\<rparr>))"

fun apply_loop :: "int \<Rightarrow> nat \<Rightarrow> edit list \<Rightarrow> string \<Rightarrow> go_error + patched" where
  "apply_loop limit i [] html = Inr \<lparr>pt_html = html, pt_applied = []\<rparr>"
| "apply_loop limit i (e # es) html =
     res_bind (apply_edit limit i e html) (\<lambda>(html', ap).
     res_bind (apply_loop limit (i + 1) es html') (\<lambda>r. Inr (r\<lparr>pt_applied := ap # pt_applied r\<rparr>)))"

definition apply_edits :: "int \<Rightarrow> string \<Rightarrow> edit list \<Rightarrow> go_error + patched" where
  "apply_edits limit source es = res_bind (validate_edits es) (\<lambda>_. apply_loop limit 0 es source)"

subsection \<open>What an edit is: all occurrences of the anchor, and nothing else\<close>

definition literal_edit :: "edit \<Rightarrow> string \<Rightarrow> string \<Rightarrow> bool" where
  \<comment> \<open>the text falls at the occurrences of the anchor, each the first that is left, into one piece more than the count\<close>
  "literal_edit e h h' \<longleftrightarrow>
     (\<exists>ps. ps \<noteq> [] \<and> int (length ps) = expected_count e + 1 \<and> h = join (ed_find e) ps \<and> h' = join (ed_replace e) ps \<and>
        (\<forall>p \<in> set (butlast ps). \<not> sublist (ed_find e) (p @ butlast (ed_find e))) \<and> \<not> sublist (ed_find e) (last ps))"

inductive edit_run :: "int \<Rightarrow> string \<Rightarrow> edit list \<Rightarrow> string \<Rightarrow> bool" for limit where
  run_done: "edit_run limit h [] h"
| run_edit: "literal_edit e h h' \<Longrightarrow> int (length h') \<le> max limit (int (length h)) \<Longrightarrow> edit_run limit h' es h'' \<Longrightarrow>
    edit_run limit h (e # es) h''"

inductive_simps edit_run_Nil: "edit_run limit h [] h''"
inductive_simps edit_run_Cons: "edit_run limit h (e # es) h''"

lemma prefix_sublist_app: "sublist f s \<longleftrightarrow> prefix f s \<or> s \<noteq> [] \<and> sublist f (tl s)"
  by (cases s) (auto simp add: sublist_Cons_right)

lemma not_sublist_Cons:
  assumes "\<not> prefix f (c # p @ f @ r)" "\<not> sublist f (p @ butlast f)"
  shows "\<not> sublist f (c # p @ butlast f)"
proof
  assume "sublist f (c # p @ butlast f)"
  with assms(2) have "prefix f (c # p @ butlast f)" by (simp add: sublist_Cons_right)
  moreover have "prefix (c # p @ butlast f) (c # p @ f @ r)"
    by (simp add: same_prefix_prefix prefix_order.trans [OF _ prefix_prefix] prefixeq_butlast)
  ultimately show False using assms(1) prefix_order.trans by blast
qed

lemma find_sub_first: "f \<noteq> [] \<Longrightarrow> find_sub f s = Some (p, r) \<Longrightarrow> \<not> sublist f (p @ butlast f)"
proof (induction f s arbitrary: p rule: find_sub.induct)
  case (1 f s)
  show ?case
  proof (cases "has_prefix f s")
    case True
    with "1.prems" have "p = []" by (simp add: find_sub.simps [of f s])
    moreover have "\<not> sublist f (butlast f)"
    proof
      assume "sublist f (butlast f)"
      then have "length f \<le> length (butlast f)" by (rule sublist_length_le)
      with "1.prems"(1) show False unfolding length_butlast by (cases f) simp_all
    qed
    ultimately show ?thesis by simp
  next
    case False
    with "1.prems"(2) obtain c cs q where s: "s = c # cs" "p = c # q" "find_sub f cs = Some (q, r)"
      by (auto simp add: find_sub.simps [of f s] split: list.splits)
    have "\<not> sublist f (q @ butlast f)" using "1.IH" [OF False s(1) "1.prems"(1) s(3)] .
    moreover have "\<not> prefix f (c # q @ f @ r)"
      using False find_sub_Some [OF s(3)] by (simp add: s(1) has_prefix_def)
    ultimately show ?thesis using not_sublist_Cons by (simp add: s(2))
  qed
qed

lemma find_sub_None: "find_sub f s = None \<Longrightarrow> \<not> sublist f s"
proof (induction f s rule: find_sub.induct)
  case (1 f s)
  then have p: "\<not> has_prefix f s" by (auto simp add: find_sub.simps [of f s] split: if_splits)
  show ?case
  proof (cases s)
    case Nil
    with p show ?thesis by (simp add: has_prefix_def)
  next
    case (Cons c cs)
    with p 1 show ?thesis by (simp add: find_sub.simps [of f "c # cs"] has_prefix_def sublist_Cons_right)
  qed
qed

lemma find_sub_leftmost: "\<not> sublist f (p @ butlast f) \<Longrightarrow> find_sub f (p @ f @ r) = Some (p, r)"
proof (induction p)
  case Nil
  then show ?case by (simp add: find_sub.simps has_prefix_def)
next
  case (Cons c p)
  have "\<not> prefix f (c # p @ f @ r)"
  proof
    assume "prefix f (c # p @ f @ r)"
    moreover have "prefix (c # p @ butlast f) (c # p @ f @ r)"
      by (simp add: same_prefix_prefix prefix_order.trans [OF _ prefix_prefix] prefixeq_butlast)
    moreover have "length f \<le> length (c # p @ butlast f)" by simp
    ultimately have "prefix f (c # p @ butlast f)" by (rule prefix_length_prefix)
    with Cons.prems show False using prefix_imp_sublist by fastforce
  qed
  moreover have "find_sub f (p @ f @ r) = Some (p, r)"
    using Cons by (simp add: sublist_Cons_right)
  ultimately show ?case by (simp add: find_sub.simps [of f "c # p @ f @ r"] has_prefix_def)
qed

lemma find_sub_absent: "\<not> sublist f s \<Longrightarrow> find_sub f s = None"
proof (rule ccontr)
  assume "\<not> sublist f s" "find_sub f s \<noteq> None"
  then obtain p r where "find_sub f s = Some (p, r)" by auto
  from find_sub_Some [OF this] \<open>\<not> sublist f s\<close> show False by (auto simp add: sublist_def)
qed

lemma pieces_not_Nil [simp]: "pieces f s \<noteq> []"
  by (simp add: pieces.simps [of f s] split: option.split prod.split)

lemma join_Cons: "ps \<noteq> [] \<Longrightarrow> join f (p # ps) = p @ f @ join f ps"
  by (cases ps) simp_all

lemma pieces_spec:
  "f \<noteq> [] \<Longrightarrow> s = join f (pieces f s) \<and> (\<forall>p \<in> set (butlast (pieces f s)). \<not> sublist f (p @ butlast f)) \<and>
     \<not> sublist f (last (pieces f s))"
proof (induction f s rule: pieces.induct)
  case (1 f s)
  show ?case
  proof (cases "find_sub f s")
    case None
    with "1.prems" show ?thesis by (simp add: pieces.simps [of f s] find_sub_None)
  next
    case (Some x)
    then obtain p r where x: "find_sub f s = Some (p, r)" by (cases x) auto
    with "1.prems" have ps: "pieces f s = p # pieces f r" by (simp add: pieces.simps [of f s])
    from "1.IH" [OF "1.prems" x refl "1.prems"] find_sub_Some [OF x] find_sub_first [OF "1.prems" x]
    show ?thesis unfolding ps by (simp add: join_Cons)
  qed
qed

lemma pieces_unique:
  assumes "f \<noteq> []" "ps \<noteq> []" "\<forall>p \<in> set (butlast ps). \<not> sublist f (p @ butlast f)" "\<not> sublist f (last ps)"
  shows "pieces f (join f ps) = ps"
  using assms(2-4)
proof (induction ps)
  case (Cons p ps)
  show ?case
  proof (cases "ps = []")
    case True
    with Cons.prems assms(1) show ?thesis by (simp add: pieces.simps [of f p] find_sub_absent)
  next
    case False
    with Cons have "pieces f (join f ps) = ps" "\<not> sublist f (p @ butlast f)" by simp_all
    with assms(1) False show ?thesis
      by (simp add: join_Cons pieces.simps [of f "p @ f @ join f ps"] find_sub_leftmost)
  qed
qed simp

lemma literal_edit_pieces:
  assumes "ed_find e \<noteq> []"
  shows "literal_edit e h h' \<longleftrightarrow>
    int (count_occurrences h (ed_find e)) = expected_count e \<and> h' = replace_all h (ed_find e) (ed_replace e)"
proof
  assume "literal_edit e h h'"
  then obtain ps where ps: "ps \<noteq> []" "int (length ps) = expected_count e + 1" "h = join (ed_find e) ps" "h' = join (ed_replace e) ps"
      "\<forall>p \<in> set (butlast ps). \<not> sublist (ed_find e) (p @ butlast (ed_find e))" "\<not> sublist (ed_find e) (last ps)"
    by (auto simp add: literal_edit_def)
  show "int (count_occurrences h (ed_find e)) = expected_count e \<and> h' = replace_all h (ed_find e) (ed_replace e)"
    using pieces_unique [OF assms ps(1,5,6)] assms ps(1-4)
    by (cases ps) (simp_all add: count_occurrences_def replace_all_def)
next
  assume r: "int (count_occurrences h (ed_find e)) = expected_count e \<and> h' = replace_all h (ed_find e) (ed_replace e)"
  obtain n where n: "length (pieces (ed_find e) h) = Suc n" using pieces_not_Nil [of "ed_find e" h] by (cases "pieces (ed_find e) h") auto
  show "literal_edit e h h'"
    unfolding literal_edit_def using r pieces_spec [OF assms, of h] assms
    by (intro exI [of _ "pieces (ed_find e) h"]) (simp add: count_occurrences_def replace_all_def n)
qed

lemma validate_each_find: "validate_each i es = Inr () \<Longrightarrow> e \<in> set es \<Longrightarrow> ed_find e \<noteq> []"
  by (induction i es rule: validate_each.induct)
    (auto simp add: validate_edit_def utf16_len_def Let_def res_bind_Inr_iff split: if_splits)

lemma length_join: "ps \<noteq> [] \<Longrightarrow> length (join f ps) = sum_list (map length ps) + (length ps - 1) * length f"
  by (induction f ps rule: join.induct) (simp_all add: algebra_simps)

lemma length_replace_all:
  assumes "f \<noteq> []"
  shows "int (length (replace_all s f r)) =
    int (length s) + int (count_occurrences s f) * (int (length r) - int (length f))"
proof -
  have "s = join f (pieces f s)" using pieces_spec [OF assms] by blast
  then have "length s = sum_list (map length (pieces f s)) + (length (pieces f s) - 1) * length f"
    using length_join [of "pieces f s" f] by simp
  moreover obtain n where "length (pieces f s) = Suc n" using pieces_not_Nil [of f s] by (cases "pieces f s") auto
  ultimately show ?thesis
    using assms by (simp add: replace_all_def count_occurrences_def length_join algebra_simps)
qed

lemma apply_edit_run:
  assumes "ed_find e \<noteq> []"
  shows "(\<exists>ap. apply_edit limit i e h = Inr (h', ap)) \<longleftrightarrow> literal_edit e h h' \<and> int (length h') \<le> max limit (int (length h))"
  unfolding literal_edit_pieces [OF assms] using length_replace_all [OF assms, of h "ed_replace e"]
  by (auto simp add: apply_edit_def Let_def)

lemma apply_loop_run:
  "\<forall>e \<in> set es. ed_find e \<noteq> [] \<Longrightarrow>
     (\<exists>r. apply_loop limit i es h = Inr r \<and> pt_html r = h'') \<longleftrightarrow> edit_run limit h es h''"
proof (induction es arbitrary: i h)
  case Nil
  show ?case by (auto simp add: edit_run_Nil)
next
  case (Cons e es)
  have e: "ed_find e \<noteq> []" and IH: "(\<exists>r. apply_loop limit (i + 1) es h' = Inr r \<and> pt_html r = h'') \<longleftrightarrow> edit_run limit h' es h''" for h'
    using Cons by auto
  have "(\<exists>r. apply_loop limit i (e # es) h = Inr r \<and> pt_html r = h'') \<longleftrightarrow>
      (\<exists>h'. (\<exists>ap. apply_edit limit i e h = Inr (h', ap)) \<and> (\<exists>r. apply_loop limit (i + 1) es h' = Inr r \<and> pt_html r = h''))"
    by (auto simp add: res_bind_Inr_iff)
  then show ?case unfolding IH apply_edit_run [OF e] edit_run_Cons by blast
qed

lemma validated_anchors: "validate_edits es = Inr () \<Longrightarrow> \<forall>e \<in> set es. ed_find e \<noteq> []"
  using validate_each_find by (fastforce simp add: validate_edits_def split: if_splits)

lemma apply_edits_run: "apply_edits limit source es = Inr r \<Longrightarrow> edit_run limit source es (pt_html r)"
proof -
  assume "apply_edits limit source es = Inr r"
  then have v: "validate_edits es = Inr ()" and r: "apply_loop limit 0 es source = Inr r"
    by (auto simp add: apply_edits_def res_bind_Inr_iff)
  from apply_loop_run [OF validated_anchors [OF v], of limit 0 source "pt_html r"] r show ?thesis by blast
qed

text \<open>
  C33: a patch does exactly what its edits say. Edits that pass validation are applied if and only if there is a run of
  literal edits, each of which finds its anchor as often as it expects in the text as it stands by then and lets the
  document grow no further than the limit; the result is the text at the end of that run. In each step every
  occurrence of the anchor is replaced and no other byte changes, however anchors and replacements overlap.
\<close>

theorem apply_edits_exact:
  "(\<exists>r. apply_edits limit source es = Inr r \<and> pt_html r = html) \<longleftrightarrow>
     validate_edits es = Inr () \<and> edit_run limit source es html"
proof (cases "validate_edits es")
  case (Inr u)
  then have "validate_edits es = Inr ()" by simp
  from apply_loop_run [OF validated_anchors [OF this]] this show ?thesis by (simp add: apply_edits_def)
qed (simp add: apply_edits_def)

subsection \<open>Deploy-shaped answers\<close>

record page_state =
  st_disabled :: bool
  st_published :: int

definition current_page_state :: "string \<Rightarrow> db \<Rightarrow> go_error + page_state" where
  "current_page_state slug s =
     res_bind (get_page slug s) (\<lambda>pv. Inr \<lparr>st_disabled = pg_disabled (pv_page pv), st_published = pg_published (pv_page pv)\<rparr>)"

definition same_id :: "int \<Rightarrow> int \<Rightarrow> bool" where
  "same_id a b = (a \<noteq> 0 \<and> b \<noteq> 0 \<and> a = b)"

definition id_or_null :: "int \<Rightarrow> goval" where
  "id_or_null i = (if i = 0 then VNil else VStr (id_string i))"

record guidance =
  gd_version :: summary
  gd_deduped :: bool
  gd_published :: bool
  gd_gated :: bool
  gd_version_is_live :: bool                   \<comment> \<open>\<open>live\<close> and \<open>version_is_live\<close>\<close>
  gd_page_is_live :: bool
  gd_live_version :: goval
  gd_next_step :: string
  gd_urls :: page_urls

definition next_step :: "deploy_result \<Rightarrow> page_state \<Rightarrow> string" where
  "next_step r st =
     (let v = dr_version r;
          page_live = (st_published st \<noteq> 0 \<and> \<not> st_disabled st);
          prior =
            (if page_live
             then '' The previously published version '' @ id_string (st_published st) @ '' remains live at urls.live until review completes.''
             else '' Nothing is published yet, so urls.live does not serve a page.'') in
      if \<not> st_disabled st \<and> same_id (vs_id v) (st_published st)
      then ''This version is live now '' @ em_dash @ '' share urls.live with the user or client.''
      else if st_disabled st
      then ''The version was saved, but the page is disabled by an admin and is not serving. '' @
        ''Ask a human admin to re-enable it; do not share urls.live yet.''
      else if dr_gated r then
        (if vs_status v = Approved
         then ''This exact content already exists as approved version '' @ id_string (vs_id v) @
           '', but it is not the published version. A human must publish it from urls.admin.'' @ prior
         else ''Approval-gated page: this version is pending human review. Send the user urls.admin; agents cannot approve it.'' @ prior)
      else if vs_status v = Approved
      then ''This exact content already exists as approved version '' @ id_string (vs_id v) @
        ''. Call rollback_page with that version_id to publish it.''
      else ''Draft saved. Call publish_page with version_id '' @ id_string (vs_id v) @ '' to publish it.'')"

definition deploy_guidance :: "mcp_env \<Rightarrow> deploy_result \<Rightarrow> page_state \<Rightarrow> string \<Rightarrow> guidance" where
  "deploy_guidance me r st slug =
     \<lparr>gd_version = dr_version r, gd_deduped = dr_deduped r, gd_published = dr_published r, gd_gated = dr_gated r,
      gd_version_is_live = (\<not> st_disabled st \<and> same_id (vs_id (dr_version r)) (st_published st)),
      gd_page_is_live = (st_published st \<noteq> 0 \<and> \<not> st_disabled st), gd_live_version = id_or_null (st_published st),
      gd_next_step = next_step r st, gd_urls = page_urls_for me slug\<rparr>"

subsection \<open>patch_page\<close>

definition arg_any :: "args \<Rightarrow> string \<Rightarrow> goval" where
  "arg_any a k = (case map_of a k of None \<Rightarrow> arg VNil False | Some v \<Rightarrow> arg v True)"

definition arg_bool_or :: "args \<Rightarrow> string \<Rightarrow> bool \<Rightarrow> bool" where
  "arg_bool_or a k other = (case arg_bool a k of (b, ok) \<Rightarrow> if ok then b else other)"

definition arg_id :: "args \<Rightarrow> string \<Rightarrow> int \<times> bool" where
  "arg_id a k =
     (case arg_str a k of (s, ok) \<Rightarrow>
        if \<not> ok then (0, False) else (case parse_id (VStr s) of Inl _ \<Rightarrow> (0, False) | Inr i \<Rightarrow> (i, True)))"

definition normalized_slug :: "args \<Rightarrow> go_error + string" where
  "normalized_slug a = normalize_slug (VStr (fst (arg_str a ''slug'')))"

record patch_env =
  pe_upload :: int                             \<comment> \<open>\<open>MaxUploadBytes\<close>\<close>
  pe_request :: int                            \<comment> \<open>\<open>MaxRequestBytes\<close>\<close>
  pe_analyze :: "string \<Rightarrow> string \<Rightarrow> goval"      \<comment> \<open>\<open>analyze\<close>: the findings for a document in a render mode\<close>

definition max_result_bytes :: "patch_env \<Rightarrow> int" where
  "max_result_bytes pe = max (pe_upload pe) (pe_request pe)"

record ready_patch =
  rp_slug :: string
  rp_base_id :: int
  rp_base :: version_detail
  rp_patched :: patched
  rp_input :: deploy_input

definition patch_mode :: "args \<Rightarrow> version_detail \<Rightarrow> string" where
  "patch_mode a base =
     (case arg_str a ''render_mode'' of (m, ok) \<Rightarrow> if \<not> ok \<or> m = [] then vs_mode (vd_version base) else m)"

definition patch_input :: "args \<Rightarrow> string \<Rightarrow> int \<Rightarrow> version_detail \<Rightarrow> string \<Rightarrow> deploy_input" where
  \<comment> \<open>the concurrency check defaults to the pointer that was read\<close>
  "patch_input a slug pointer base html =
     (let expected = arg_any a ''expected_version'' in
      \<lparr>in_slug = slug, in_html = html, in_mode = VStr (patch_mode a base), in_note = arg_any a ''note'', in_author = VNil, in_source = ''mcp'',
       in_publish = VBool (arg_bool_or a ''publish'' True),
       in_expected = (if expected = VNil then (if pointer \<noteq> 0 then VStr (id_string pointer) else VNull) else expected),
       in_data = None, in_binding = None\<rparr>)"

definition prepare_patch :: "patch_env \<Rightarrow> args \<Rightarrow> db \<Rightarrow> db \<Rightarrow> go_error + ready_patch" where
  \<comment> \<open>the page is read in one state, the base version in a later one\<close>
  "prepare_patch pe a s s' =
     res_bind (normalized_slug a) (\<lambda>slug.
     res_bind (get_page slug s) (\<lambda>pv.
     let pointer = pg_published (pv_page pv); (given, has_base) = arg_id a ''base_version_id'';
         base_id = (if has_base then given else pointer) in
     res_bind (require (pointer \<noteq> 0 \<or> has_base)
       (bad_request (''page '' @ slug @ '' has no published version to patch; deploy one first, or pass base_version_id'')
          ''no_published_version'' VNil)) (\<lambda>_.
     res_bind (get_version slug base_id s') (\<lambda>base.
     res_bind (parse_edits (obj_value a ''edits'')) (\<lambda>edits.
     res_bind (apply_edits (max_result_bytes pe) (vd_html base) edits) (\<lambda>patched.
     res_bind (require (pt_html patched \<noteq> vd_html base)
       (bad_request ''the edits produced no change; check that find and replace actually differ'' ''patch_noop'' VNil)) (\<lambda>_.
     let n = int (length (pt_html patched)) in
     res_bind (require (n \<le> pe_upload pe)
       (bad_request (''patched document would be '' @ itoa n @ '' bytes, over the '' @ itoa (pe_upload pe) @ '' limit'')
          ''upload_size_invalid'' VNil)) (\<lambda>_.
     Inr \<lparr>rp_slug = slug, rp_base_id = base_id, rp_base = base, rp_patched = patched,
          rp_input = patch_input a slug pointer base (pt_html patched)\<rparr>))))))))"

record patch_answer =
  pa_guidance :: guidance
  pa_base_version :: string
  pa_applied :: "applied list"
  pa_bytes_before :: nat
  pa_bytes_after :: nat
  pa_preflight :: goval

definition patch_answer_of :: "mcp_env \<Rightarrow> patch_env \<Rightarrow> args \<Rightarrow> ready_patch \<Rightarrow> deploy_result \<Rightarrow> page_state \<Rightarrow> patch_answer" where
  "patch_answer_of me pe a rp r st =
     \<lparr>pa_guidance = deploy_guidance me r st (rp_slug rp), pa_base_version = id_string (rp_base_id rp),
      pa_applied = pt_applied (rp_patched rp), pa_bytes_before = length (vd_html (rp_base rp)),
      pa_bytes_after = length (pt_html (rp_patched rp)),
      pa_preflight = pe_analyze pe (pt_html (rp_patched rp)) (patch_mode a (rp_base rp))\<rparr>"

definition patch_page ::
  "mcp_env \<Rightarrow> patch_env \<Rightarrow> (db \<Rightarrow> db) \<Rightarrow> (db \<Rightarrow> db) \<Rightarrow> (db \<Rightarrow> db) \<Rightarrow> request \<Rightarrow> args \<Rightarrow> actor \<Rightarrow> db \<Rightarrow>
     (go_error + patch_answer) \<times> db" where
  \<comment> \<open>what others commit between the reads, before the transaction, and before the page is read again\<close>
  "patch_page me pe o1 o2 o3 rq a who s =
     (case prepare_patch pe a s (o1 s) of
        Inl e \<Rightarrow> (Inl e, o1 s)
      | Inr rp \<Rightarrow>
          (case deploy (me_deploy me) rq (rp_input rp) who (o2 (o1 s)) of
             (Inl e, s') \<Rightarrow> (Inl e, s')
           | (Inr r, s') \<Rightarrow>
               (case current_page_state (rp_slug rp) (o3 s') of
                  Inl e \<Rightarrow> (Inl e, o3 s')
                | Inr st \<Rightarrow> (Inr (patch_answer_of me pe a rp r st), o3 s'))))"

lemma get_page_Inr:
  assumes "get_page slug s = Inr pv" "normalize_slug (VStr slug) = Inr n"
  obtains p where "find_live n s = Some p" "pv_page pv = page_info_of s p"
  using assms by (auto simp add: get_page_def Let_def res_bind_Inr_iff split: option.splits if_splits sum.splits)

lemma prepare_patch_Inr:
  assumes "prepare_patch pe a s s1 = Inr rp" "normalized_slug a = Inr n"
  obtains p edits where "find_live n s = Some p" "rp_slug rp = n" "get_version n (rp_base_id rp) s1 = Inr (rp_base rp)"
    "parse_edits (obj_value a ''edits'') = Inr edits"
    "apply_edits (max_result_bytes pe) (vd_html (rp_base rp)) edits = Inr (rp_patched rp)"
    "pt_html (rp_patched rp) \<noteq> vd_html (rp_base rp)"
    "rp_input rp = patch_input a n (p_published p) (rp_base rp) (pt_html (rp_patched rp))"
proof -
  have n: "normalize_slug (VStr n) = Inr n" using assms(2) unfolding normalized_slug_def by (rule slug.idempotent)
  from assms obtain pv where pv: "get_page n s = Inr pv" by (auto simp add: prepare_patch_def res_bind_Inr_iff)
  obtain p where p: "find_live n s = Some p" "pv_page pv = page_info_of s p" by (rule get_page_Inr [OF pv n])
  obtain given has where arg: "arg_id a ''base_version_id'' = (given, has)" by (cases "arg_id a ''base_version_id''")
  from assms obtain edits where edits: "parse_edits (obj_value a ''edits'') = Inr edits"
    by (auto simp add: prepare_patch_def res_bind_Inr_iff arg Let_def)
  show ?thesis
    using assms pv p edits by (intro that [of p edits]; auto simp add: arg prepare_patch_def res_bind_Inr_iff require_def Let_def page_info_of_def
        split: prod.splits if_splits)
qed

lemma pointer_string: "i \<noteq> 0 \<Longrightarrow> same_db_id (VStr (id_string i)) j \<Longrightarrow> j = i"
  by (auto simp add: same_db_id_def id_string_def)


definition ex_patch :: patch_env where
  "ex_patch = \<lparr>pe_upload = 100, pe_request = 100, pe_analyze = (\<lambda>html mode. VNull)\<rparr>"

definition ex_edit :: args where
  \<comment> \<open>the first two letters of the document\<close>
  "ex_edit = [(''slug'', VStr ''acme''), (''publish'', VBool False), (''edits'', VList [VObj [(''find'', VStr ''ol''), (''replace'', VStr ''new'')]])]"

lemma ex_parse_edits: "parse_edits (obj_value ex_edit ''edits'') = Inr [\<lparr>ed_find = ''ol'', ed_replace = ''new'', ed_count = 1\<rparr>]"
proof -
  have "utf16_len ''ol'' = 2" "utf16_len ''new'' = 3" by (simp_all add: utf16_len_ascii)
  then show ?thesis
    by (simp add: ex_edit_def obj_value_def parse_edits_def parse_edit_def edit_count_def validate_edit_def validate_edits_def Let_def
        max_edits_def max_find_chars_def max_replace_chars_def max_expected_count_def)
qed

lemma ex_apply: "apply_edits 100 ''old'' [\<lparr>ed_find = ''ol'', ed_replace = ''new'', ed_count = 1\<rparr>] =
    Inr \<lparr>pt_html = ''newd'', pt_applied = [\<lparr>ap_index = 0, ap_count = 1, ap_first_line = 1, ap_delta = 1\<rparr>]\<rparr>"
proof -
  have "utf16_len ''ol'' = 2" "utf16_len ''new'' = 3" by (simp_all add: utf16_len_ascii)
  moreover have "pieces ''ol'' ''old'' = [[], ''d'']"
    by (simp add: pieces.simps find_sub.simps has_prefix_def)
  ultimately show ?thesis
    by (simp add: apply_edits_def validate_edits_def validate_edit_def Let_def max_edits_def max_find_chars_def max_replace_chars_def
        max_expected_count_def apply_edit_def expected_count_def count_occurrences_def replace_all_def line_of_def)
qed

lemma ex_prepare_patch:
  "prepare_patch ex_patch ex_edit (ex_db ex_page [ex_version]) (ex_db ex_page [ex_version]) =
     Inr \<lparr>rp_slug = ''acme'', rp_base_id = 5, rp_base = \<lparr>vd_version = version_columns ex_version, vd_html = ''old''\<rparr>,
         rp_patched = \<lparr>pt_html = ''newd'', pt_applied = [\<lparr>ap_index = 0, ap_count = 1, ap_first_line = 1, ap_delta = 1\<rparr>]\<rparr>,
         rp_input = ex_input ''newd'' (VBool False) (VStr ''5'')\<lparr>in_mode := VStr ''themed'', in_source := ''mcp''\<rparr>\<rparr>"
proof -
  let ?s = "ex_db ex_page [ex_version]"
  have live: "find_live ''acme'' ?s = Some ex_page" by (simp add: find_live_def live_page_def ex_defs)
  have pub: "p_published ex_page = 5" by (simp add: ex_page_def)
  have five: "id_string 5 = ''5''" by code_simp
  have version: "get_version ''acme'' 5 ?s = Inr \<lparr>vd_version = version_columns ex_version, vd_html = ''old''\<rparr>"
    by (simp add: get_version_def load_page_def live) (simp add: ex_defs)
  obtain v where view: "get_page ''acme'' ?s = Inr v" "pv_page v = page_info_of ?s ex_page"
    by (simp add: get_page_def live version pub Let_def)
  have slug: "normalized_slug ex_edit = Inr ''acme''" by (simp add: normalized_slug_def arg_str_def ex_edit_def)
  have id: "arg_id ex_edit ''base_version_id'' = (0, False)" by (simp add: arg_id_def arg_str_def ex_edit_def)
  have inp: "patch_input ex_edit ''acme'' 5 \<lparr>vd_version = version_columns ex_version, vd_html = ''old''\<rparr> ''newd'' =
      ex_input ''newd'' (VBool False) (VStr ''5'')\<lparr>in_mode := VStr ''themed'', in_source := ''mcp''\<rparr>"
    by (simp add: patch_input_def patch_mode_def arg_str_def arg_any_def arg_def arg_bool_or_def arg_bool_def ex_edit_def five
        ex_input_def version_columns_def ex_version_def)
  have "pg_published (page_info_of ?s ex_page) = 5" by (simp add: page_info_of_def ex_page_def)
  then show ?thesis
    using view ex_apply
    by (simp add: prepare_patch_def slug id version ex_parse_edits inp Let_def require_def max_result_bytes_def ex_patch_def)
qed


end
