(* ===== verification/Mcp_Pages.thy ===== *)
theory Mcp_Pages
  imports Page_Patch Mutations
begin

text \<open>
  The page tools of \<open>internal/mcp/tools_pages.go\<close> over the operations of \<open>internal/versions\<close>, and the readers of
  managed pages of \<open>reads.go\<close>. Each tool answers with the serving state it reads after its operation; what others
  commit before that read is a function \<open>later\<close>.
\<close>

subsection \<open>The managed contract of a page\<close>

record page_data_view =
  dv_page :: page_info
  dv_version :: summary
  dv_managed :: managed
  dv_freshness :: "freshness option"

definition no_template :: go_error where
  "no_template = conflict ''page has no published template to manage'' ''page_not_data_managed'' VNil"

definition get_page_data :: "deploy_env \<Rightarrow> int \<Rightarrow> string \<Rightarrow> db \<Rightarrow> go_error + page_data_view" where
  \<comment> \<open>the stamps are those of the document; the data profile of the answer is left out\<close>
  "get_page_data env now slug s =
     res_bind (get_page slug s) (\<lambda>pv.
       (case pv_published pv of
          None \<Rightarrow> Inl no_template
        | Some v \<Rightarrow>
            res_bind (env_parse env (vd_html v)) (\<lambda>m.
            let lc = pv_check pv in
            Inr \<lparr>dv_page = pv_page pv, dv_version = vd_version v, dv_managed = m,
                 dv_freshness = freshness_of
                   \<lparr>fi_source_as_of = parse_time (m_source_as_of m), fi_refreshed_at = parse_time (m_refreshed_at m),
                    fi_check_at = lc_at lc, fi_check_outcome = deref (lc_outcome lc), fi_check_detail = deref (lc_detail lc),
                    fi_check_source = lc_source lc\<rparr> now\<rparr>)))"

record page_config_view =
  cv_page :: page_info
  cv_version :: summary
  cv_managed :: managed

definition not_published :: go_error where
  "not_published = conflict ''page has no published version'' ''update_page_not_published'' VNil"

definition get_page_config :: "deploy_env \<Rightarrow> string \<Rightarrow> db \<Rightarrow> go_error + page_config_view" where
  "get_page_config env slug s =
     res_bind (get_page slug s) (\<lambda>pv.
       (case pv_published pv of
          None \<Rightarrow> Inl not_published
        | Some v \<Rightarrow>
            res_bind (parse_config_managed env (vd_html v)) (\<lambda>m.
            Inr \<lparr>cv_page = pv_page pv, cv_version = vd_version v, cv_managed = m\<rparr>)))"

subsection \<open>Reading\<close>

record page_answer =
  an_page :: page_info
  an_published :: "(summary \<times> string option) option"   \<comment> \<open>with its document when it was asked for\<close>
  an_is_live :: bool
  an_urls :: page_urls

definition page_serves :: "page_info \<Rightarrow> bool" where
  "page_serves p = (pg_published p \<noteq> 0 \<and> \<not> pg_disabled p)"

definition get_page_tool :: "mcp_env \<Rightarrow> args \<Rightarrow> db \<Rightarrow> go_error + page_answer" where
  "get_page_tool me a s =
     res_bind (get_page (fst (arg_str a ''slug'')) s) (\<lambda>pv.
     Inr \<lparr>an_page = pv_page pv,
          an_published = map_option
            (\<lambda>v. (vd_version v, if arg_bool_or a ''include_html'' False then Some (vd_html v) else None)) (pv_published pv),
          an_is_live = page_serves (pv_page pv), an_urls = page_urls_for me (pg_slug (pv_page pv))\<rparr>)"

definition no_published_version :: "string \<Rightarrow> go_error" where
  "no_published_version slug =
     bad_request (''page '' @ slug @ '' has no published version; pass version_id'') ''no_published_version'' VNil"

definition get_version_tool :: "args \<Rightarrow> db \<Rightarrow> go_error + version_detail" where
  "get_version_tool a s =
     (case arg_id a ''version_id'' of (i, given) \<Rightarrow>
        if given then get_version (fst (arg_str a ''slug'')) i s
        else
          res_bind (normalized_slug a) (\<lambda>n.
          res_bind (get_page n s) (\<lambda>pv.
            (case pv_published pv of None \<Rightarrow> Inl (no_published_version n) | Some v \<Rightarrow> Inr v))))"

definition published_or_given :: "args \<Rightarrow> string \<Rightarrow> string \<Rightarrow> db \<Rightarrow> go_error + int" where
  "published_or_given a slug missing s =
     (case arg_id a ''version_id'' of (i, given) \<Rightarrow>
        if given then Inr i
        else
          res_bind (get_page slug s) (\<lambda>pv.
            if pg_published (pv_page pv) = 0 then Inl (bad_request missing ''no_published_version'' VNil)
            else Inr (pg_published (pv_page pv))))"

definition preflight_page :: "patch_env \<Rightarrow> (db \<Rightarrow> db) \<Rightarrow> args \<Rightarrow> db \<Rightarrow> go_error + string \<times> goval" where
  "preflight_page pe later a s =
     res_bind (normalized_slug a) (\<lambda>n.
     res_bind (published_or_given a n
       (''page '' @ n @ '' has no published version; pass version_id to preflight a draft'') s) (\<lambda>i.
     res_bind (get_version n i (later s)) (\<lambda>v.
     Inr (id_string (vs_id (vd_version v)), pe_analyze pe (vd_html v) (vs_mode (vd_version v))))))"

definition page_urls_tool :: "mcp_env \<Rightarrow> args \<Rightarrow> db \<Rightarrow> go_error + page_urls" where
  "page_urls_tool me a s =
     res_bind (get_page (fst (arg_str a ''slug'')) s) (\<lambda>pv. Inr (page_urls_for me (pg_slug (pv_page pv))))"

subsection \<open>Refresh checks, schedules and health\<close>

definition check_args :: "args \<Rightarrow> check_input" where
  "check_args a =
     (let text = (\<lambda>k. case arg_str a k of (s, ok) \<Rightarrow> if ok then VStr s else VNull) in
      \<lparr>ck_slug = fst (arg_str a ''slug''), ck_outcome = fst (arg_str a ''outcome''), ck_detail = text ''detail'',
       ck_source = text ''source_as_of_seen'', ck_now = None\<rparr>)"

definition record_refresh_check_tool ::
  "mcp_env \<Rightarrow> int \<Rightarrow> request \<Rightarrow> args \<Rightarrow> actor \<Rightarrow> db \<Rightarrow> (go_error + string \<times> freshness option) \<times> db" where
  "record_refresh_check_tool me clock rq a who = record_refresh_check (me_deploy me) clock rq (check_args a) who"

definition set_page_refresh_schedule ::
  "mcp_env \<Rightarrow> int \<Rightarrow> request \<Rightarrow> args \<Rightarrow> actor \<Rightarrow> db \<Rightarrow> (go_error + schedule_result) \<times> db" where
  "set_page_refresh_schedule me clock rq a who =
     set_refresh_schedule (me_deploy me) (me_health me) clock rq (fst (arg_str a ''slug'')) (arg_any a ''schedule'') (arg_any a ''owner'') who"

definition list_refresh_health_tool ::
  "mcp_env \<Rightarrow> int \<Rightarrow> int \<Rightarrow> args \<Rightarrow> db \<Rightarrow> (go_error + health_report \<times> page_urls list) \<times> db" where
  "list_refresh_health_tool me now now' a s =
     (case list_refresh_health (me_deploy me) (me_health me) (me_lists me) (arg_bool_or a ''needs_attention'' True) now now' s of
        (Inl e, s') \<Rightarrow> (Inl e, s')
      | (Inr r, s') \<Rightarrow> (Inr (r, map (\<lambda>p. page_urls_for me (hr_slug p)) (rp_pages r)), s'))"

subsection \<open>Deploying\<close>

text \<open>
  \<open>filePlaceholderRE\<close>. Its letters have no case variants outside ASCII, and \<open>[^)]\<close> on runes is \<open>[^)]\<close> on
  bytes, as the byte of \<open>)\<close> occurs in no longer encoding.
\<close>

definition either_case :: "char \<Rightarrow> regex" where
  "either_case c = (let u = char_of (byte (lower_byte c) - 32) in
     if 97 \<le> byte (lower_byte c) \<and> byte (lower_byte c) \<le> 122 then RCls [(lower_byte c, lower_byte c), (u, u)] else RChr c)"

definition folded :: "string \<Rightarrow> regex" where
  "folded w = foldr (\<lambda>c r. RSeq (either_case c) r) w ROne"

definition exactly :: "string \<Rightarrow> regex" where
  "exactly w = foldr (\<lambda>c r. RSeq (RChr c) r) w ROne"

definition js_space :: regex where
  "js_space = foldr (\<lambda>r x. RAlt (exactly (utf8_encode r)) x) js_space_runes RZero"

definition file_placeholder_re :: regex where
  "file_placeholder_re =
     RAlt (RSeq (exactly ''$('') (RSeq (RStar js_space) (RSeq (folded ''cat'')
            (RSeq (ROpt (RSeq (RPlus js_space) (RStar (RCls [(CHR 0x00, CHR ''(''), (CHR ''*'', CHR 0xFF)]))))
              (RSeq (RStar js_space) (exactly '')''))))))
       (RAlt (folded ''PLACEHOLDER'') (RAlt (folded ''REPLACE_ME'') (folded ''FILE_CONTENT_PLACEHOLDER'')))"

definition assert_mcp_html :: "string \<Rightarrow> go_error + string" where
  "assert_mcp_html html =
     (let t = js_trim html in
      if t = [] then Inl (bad_request ''html is required'' ''html_required'' VNil)
      else if matches file_placeholder_re t
      then Inl (bad_request
        ''html is a literal file placeholder, not page content; use the staged page-upload tools for workspace files''
        ''html_placeholder'' VNil)
      else Inr t)"

definition inline_advice :: string where
  "inline_advice =
     ''Every inline byte is output you pay for once and prompt you pay for on every later step. '' @
     ''If this is another instance of a design Pages already stores, call list_templates and then '' @
     ''create_page_from_template with just its config (kilobytes). Otherwise write the file to disk and '' @
     ''use create_upload_ticket, which returns a URL your shell PUTs the file to '' @ em_dash @
     '' the bytes never pass through your context at all.''"

definition assert_inline_html :: "int \<Rightarrow> string \<Rightarrow> go_error + string" where
  "assert_inline_html limit html =
     res_bind (assert_mcp_html html) (\<lambda>t.
       let n = int (length t) in
       if limit < n
       then Inl (bad_request (''html is '' @ itoa n @ '' bytes; inline deploys are capped at '' @ itoa limit @ ''. '' @ inline_advice)
         ''html_too_large_for_inline'' (VObj [(''bytes'', VInt n), (''max_bytes'', VInt limit)]))
       else Inr t)"

definition mcp_deploy_input :: "args \<Rightarrow> string \<Rightarrow> string \<Rightarrow> deploy_input" where
  "mcp_deploy_input a slug html =
     \<lparr>in_slug = slug, in_html = html, in_mode = arg_any a ''render_mode'', in_note = arg_any a ''note'', in_author = VNil,
      in_source = ''mcp'', in_publish = VBool (arg_bool_or a ''publish'' True), in_expected = arg_any a ''expected_version'',
      in_data = None, in_binding = None\<rparr>"

definition created_only_input :: "args \<Rightarrow> deploy_input \<Rightarrow> create_deploy_input" where
  "created_only_input a inp =
     \<lparr>cd_deploy = inp, cd_title = VStr (fst (arg_str a ''title'')),
      cd_client = (case arg_str a ''client_id'' of (s, ok) \<Rightarrow> if ok \<and> s \<noteq> [] then VStr s else VNull),
      cd_workspace = arg_any a ''workspace_id'', cd_approval = VBool (arg_bool_or a ''require_approval'' False)\<rparr>"

record deploy_answer =
  da_created :: "bool option"                  \<comment> \<open>left out by \<open>update_page\<close>\<close>
  da_guidance :: guidance
  da_schema_generated :: bool
  da_preflight :: goval

definition deploy_or_create ::
  "mcp_env \<Rightarrow> request \<Rightarrow> bool \<Rightarrow> args \<Rightarrow> deploy_input \<Rightarrow> actor \<Rightarrow> db \<Rightarrow> (go_error + bool \<times> deploy_result) \<times> db" where
  "deploy_or_create me rq existing a inp who s =
     (if existing then
        (case deploy (me_deploy me) rq inp who s of (Inl e, s') \<Rightarrow> (Inl e, s') | (Inr r, s') \<Rightarrow> (Inr (False, r), s'))
      else create_and_deploy (me_deploy me) rq (created_only_input a inp) who s)"

definition deploy_page ::
  "mcp_env \<Rightarrow> patch_env \<Rightarrow> int \<Rightarrow> (db \<Rightarrow> db) \<Rightarrow> request \<Rightarrow> bool \<Rightarrow> args \<Rightarrow> actor \<Rightarrow> db \<Rightarrow> (go_error + deploy_answer) \<times> db" where
  \<comment> \<open>\<open>deployPage\<close>: the tools \<open>deploy_page\<close> and, for an existing page, \<open>update_page\<close>\<close>
  "deploy_page me pe limit later rq existing a who s =
     (let html = fst (arg_str a ''html''); slug = fst (arg_str a ''slug'') in
      case assert_inline_html limit html of
        Inl e \<Rightarrow> (Inl e, s)
      | Inr _ \<Rightarrow>
          (case deploy_or_create me rq existing a (mcp_deploy_input a slug html) who s of
             (Inl e, s') \<Rightarrow> (Inl e, s')
           | (Inr (created, r), s') \<Rightarrow>
               (case res_bind (normalize_slug (VStr slug)) (\<lambda>n.
                     res_bind (current_page_state slug (later s')) (\<lambda>st. Inr (n, st))) of
                  Inl e \<Rightarrow> (Inl e, later s')
                | Inr (n, st) \<Rightarrow>
                    (Inr \<lparr>da_created = (if existing then None else Some created), da_guidance = deploy_guidance me r st n,
                          da_schema_generated = dr_schema_generated r,
                          da_preflight = pe_analyze pe html (fst (arg_str a ''render_mode''))\<rparr>,
                     later s'))))"

subsection \<open>Publishing and settings\<close>

record published_answer =
  pn_version :: summary
  pn_version_is_live :: bool
  pn_page_is_live :: bool
  pn_live_version :: goval
  pn_next_step :: string
  pn_urls :: page_urls

definition published_answer_of :: "mcp_env \<Rightarrow> summary \<Rightarrow> page_state \<Rightarrow> string \<Rightarrow> published_answer" where
  "published_answer_of me v st slug =
     (let live = (\<not> st_disabled st \<and> same_id (vs_id v) (st_published st)) in
      \<lparr>pn_version = v, pn_version_is_live = live, pn_page_is_live = (st_published st \<noteq> 0 \<and> \<not> st_disabled st),
       pn_live_version = id_or_null (st_published st),
       pn_next_step = (if live then ''Live now '' @ em_dash @ '' share urls.live with the user or client.''
         else ''The live pointer changed again; reload get_page before sharing a URL.''),
       pn_urls = page_urls_for me slug\<rparr>)"

definition published_result ::
  "mcp_env \<Rightarrow> (db \<Rightarrow> db) \<Rightarrow> request \<Rightarrow> args \<Rightarrow> bool \<Rightarrow> actor \<Rightarrow> db \<Rightarrow> (go_error + published_answer) \<times> db" where
  \<comment> \<open>\<open>publish_page\<close> and \<open>rollback_page\<close>\<close>
  "published_result me later rq a is_publish who s =
     (case normalized_slug a of
        Inl e \<Rightarrow> (Inl e, s)
      | Inr n \<Rightarrow>
          let i = fst (arg_id a ''version_id''); expected = arg_any a ''expected_version'';
              note0 = arg_any a ''note'' in
          (case (if is_publish then publish rq n i expected who s
                 else rollback rq n i expected (if note0 = VNil then VNull else note0) who s) of
             (Inl e, s') \<Rightarrow> (Inl e, s')
           | (Inr v, s') \<Rightarrow>
               (case current_page_state n (later s') of
                  Inl e \<Rightarrow> (Inl e, later s')
                | Inr st \<Rightarrow> (Inr (published_answer_of me v st n), later s'))))"

record password_answer =
  pw_slug :: string
  pw_has_password :: bool
  pw_page_is_live :: bool
  pw_urls :: page_urls
  pw_next_step :: string

definition set_password_tool ::
  "mcp_env \<Rightarrow> secret_env \<Rightarrow> (db \<Rightarrow> db) \<Rightarrow> request \<Rightarrow> args \<Rightarrow> actor \<Rightarrow> db \<Rightarrow> (go_error + password_answer) \<times> db" where
  "set_password_tool me env later rq a who s =
     (let slug = fst (arg_str a ''slug'') in
      case set_password env rq slug (VStr (fst (arg_str a ''password''))) who s of
        (Inl e, s') \<Rightarrow> (Inl e, s')
      | (Inr (n, has), s') \<Rightarrow>
          (case get_page slug (later s') of
             Inl e \<Rightarrow> (Inl e, later s')
           | Inr pv \<Rightarrow>
               let p = pv_page pv in
               (Inr \<lparr>pw_slug = n, pw_has_password = has, pw_page_is_live = page_serves p, pw_urls = page_urls_for me (pg_slug p),
                  pw_next_step =
                    (if pg_disabled p
                     then ''Password saved, but the page is disabled and not serving. Ask a human admin to re-enable it before sharing urls.live.''
                     else if pg_published p = 0
                     then ''Password saved, but no version is published. Publish or complete human approval before sharing urls.live.''
                     else ''Client access is ready '' @ em_dash @ '' share urls.live and the password with the client.'')\<rparr>,
                later s')))"

definition set_title_tool :: "request \<Rightarrow> args \<Rightarrow> actor \<Rightarrow> db \<Rightarrow> (go_error + string \<times> string) \<times> db" where
  "set_title_tool rq a who = set_title rq (fst (arg_str a ''slug'')) (VStr (fst (arg_str a ''title''))) who"

definition delete_page_tool :: "request \<Rightarrow> args \<Rightarrow> actor \<Rightarrow> db \<Rightarrow> (go_error + string \<times> bool) \<times> db" where
  "delete_page_tool rq a who = delete_page rq (fst (arg_str a ''slug'')) who"

subsection \<open>What an agent is told\<close>

lemma current_page_state_Inr:
  assumes "current_page_state slug s = Inr st" "normalize_slug (VStr slug) = Inr n"
  obtains q where "find_live n s = Some q" "st_disabled st = p_disabled q" "st_published st = p_published q"
proof -
  from assms(1) obtain pv where pv: "get_page slug s = Inr pv"
    and st: "st = \<lparr>st_disabled = pg_disabled (pv_page pv), st_published = pg_published (pv_page pv)\<rparr>"
    by (auto simp add: current_page_state_def res_bind_Inr_iff)
  obtain q where "find_live n s = Some q" "pv_page pv = page_info_of s q" by (rule get_page_Inr [OF pv assms(2)])
  with st show ?thesis by (intro that) (simp_all add: page_info_of_def)
qed

definition serves :: "string \<Rightarrow> int \<Rightarrow> db \<Rightarrow> bool" where
  \<comment> \<open>the live page of the slug is not disabled and its pointer is the version\<close>
  "serves n v s \<longleftrightarrow> (\<exists>q. find_live n s = Some q \<and> \<not> p_disabled q \<and> p_published q = v \<and> v \<noteq> 0)"

lemma same_id_serves:
  assumes "current_page_state slug s = Inr st" "normalize_slug (VStr slug) = Inr n"
  shows "\<not> st_disabled st \<and> same_id v (st_published st) \<longleftrightarrow> serves n v s"
  by (rule current_page_state_Inr [OF assms]) (auto simp add: same_id_def serves_def)

text \<open>The answers of the deploying and publishing tools say that a version is live exactly when it is served.\<close>

lemma deploy_tool_truthful:
  assumes "deploy_page me pe limit later rq existing a who s = (Inr out, s')"
    and n: "normalize_slug (VStr (fst (arg_str a ''slug''))) = Inr n"
  shows "gd_version_is_live (da_guidance out) \<longleftrightarrow> serves n (vs_id (gd_version (da_guidance out))) s'"
proof -
  from assms obtain r st where "current_page_state (fst (arg_str a ''slug'')) s' = Inr st" "da_guidance out = deploy_guidance me r st n"
    by (auto simp add: deploy_page_def Let_def res_bind_Inr_iff split: sum.splits prod.splits)
  then show ?thesis using same_id_serves [OF _ n, of s' st "vs_id (dr_version r)"] by (simp add: deploy_guidance_def)
qed

lemma publish_tool_truthful:
  assumes "published_result me later rq a is_publish who s = (Inr out, s')" and n: "normalized_slug a = Inr n"
  shows "pn_version_is_live out \<longleftrightarrow> serves n (vs_id (pn_version out)) s'"
proof -
  from assms obtain v st where st: "current_page_state n s' = Inr st" "out = published_answer_of me v st n"
    by (auto simp add: published_result_def Let_def split: sum.splits prod.splits if_splits)
  have "normalize_slug (VStr n) = Inr n" using n unfolding normalized_slug_def by (rule slug.idempotent)
  with st same_id_serves [of n s' st n "vs_id v"] show ?thesis by (simp add: published_answer_of_def Let_def)
qed

end
