(* ===== verification/Spec2Isabelle.thy ===== *)
theory Spec2Isabelle
  imports Version_Runs Client_Keys Rate_Limit Tokens Mcp_Pages
begin

text \<open>
  Elcano Pages hosts client dashboards that agents write. This development models the part of the
  program that decides what a client sees: the version state machine of \<open>internal/versions\<close>, the
  workspaces around it, the tools and tokens through which agents reach it, and the value models and
  calendars it computes with. Definitions translate the Go code, keep its names where HOL leaves
  them free, and compute.

  \<^bold>\<open>How the program works.\<close> A page has a slug, settings and a pointer
  (\<open>pages.published_version_id\<close>) to the version its client sees; a version is an immutable document
  with a status draft, pending, approved or rejected. REST, MCP and the admin shell route every
  change through \<open>internal/versions\<close>: each operation validates its arguments, opens a transaction,
  locks the page row, checks the caller's authority and the expected version, changes rows and
  writes an audit row. Agents may publish only on pages that are neither disabled nor gated by
  approval; humans decide on pending versions. Scheduled refreshes pour new data into a published
  document; a health report compares what happened with the cron expression of the page.

  \<^bold>\<open>Foundations.\<close>
  \<^item> \<open>Prelude\<close>: sums as results, ordered lists, selection of a row by the greatest key.
  \<^item> \<open>Go_Strings\<close>: UTF-8, UTF-16 lengths, trimming and decimal numbers (\<open>internal/jsstr\<close>).
  \<^item> \<open>Regex\<close>: regular expressions by derivatives, for the patterns of the code.
  \<^item> \<open>Json_Object\<close>, \<open>Json_Value\<close>: the ordered object and the values of \<open>internal/jsonv\<close>. The object
    refines an association list in JavaScript key order (locale \<open>ordered_map\<close> and its
    interpretation); \<open>stringify\<close> and \<open>format_number\<close> are the writer.
  \<^item> \<open>Doubles\<close>, \<open>Json_Parser\<close>, \<open>Json_Roundtrip\<close>: the parser of \<open>internal/jsonv\<close> byte by byte, on the rounding of
    decimals to doubles that \<open>strconv\<close> does, and that it reads what the writer writes. \<open>Base64\<close> is
    \<open>internal/nodebuf\<close>.
  \<^item> \<open>Args\<close>, \<open>Routens\<close>: optional arguments, slugs, ids and errors (\<open>args.go\<close>, \<open>internal/apierror\<close>,
    \<open>internal/jsx\<close>, \<open>internal/routens\<close>).
  \<^item> \<open>Calendar\<close>, \<open>Cron\<close>: the Gregorian calendar as package \<open>time\<close> computes it and \<open>internal/cron\<close>.

  \<^bold>\<open>The database.\<close> \<open>Database\<close> has the tables of \<open>migrations/*.sql\<close> as lists of records in a state
  record \<open>db\<close>; NULL ids are 0 as in \<open>jsx.ID\<close>, other NULLs are \<open>None\<close>. A transaction is a function from
  the state to an error or a result and a state, and \<open>with_tx\<close> commits it or leaves the state as it
  was. Row locks make the transactions of a page sequential; where the code reads before it locks,
  a function \<open>others\<close> of type \<open>db \<Rightarrow> db\<close> stands for what commits in between, and the theorems hold for
  every such function that keeps the tables well formed. \<open>now()\<close> is the time the request brings.
  \<open>Invariants\<close> holds the well-formedness of the tables (\<open>wf_db\<close>) and the locale \<open>tx_contract\<close>: a
  relation between the states before and after that is reflexive and transitive holds of a
  transaction once it holds of its statements. Each contract of the development is an
  interpretation of it (history, well-formedness, guards, audit).

  \<^bold>\<open>The state machine.\<close>
  \<^item> \<open>Locking\<close>: \<open>LockPage\<close>, \<open>lockVersion\<close>, \<open>AssertExpectedVersion\<close>, the authority checks and
    \<open>movePointer\<close> of \<open>deploy.go\<close>.
  \<^item> \<open>Deploy\<close>: \<open>PrepareDeploy\<close>, \<open>DeployLocked\<close>, \<open>Deploy\<close>, \<open>SaveDeck\<close>. The dedupe query, the insertion with
    its constraints and the fast path to publishing are definitions of their own; \<open>matching\<close> and
    \<open>lands\<close> are the specification of where a deploy ends up.
  \<^item> \<open>Page_Creation\<close>: \<open>CreatePage\<close>, \<open>CreateAndDeploy\<close>, the race for a slug.
  \<^item> \<open>Mutations\<close>: \<open>mutations.go\<close> (publish, rollback, approve, reject, settings, password, delete,
    restore).
  \<^item> \<open>Managed_Data\<close>: \<open>UpdatePageData\<close> and \<open>UpdatePageConfig\<close>.
  \<^item> \<open>Freshness\<close>, \<open>Refresh_Health\<close>: \<open>freshness.go\<close>, \<open>RecordRefreshCheck\<close>, \<open>refreshhealth.go\<close>,
    \<open>coveragegaps.go\<close>.
  \<^item> \<open>Workspaces\<close>: \<open>internal/workspaces\<close>.
  \<^item> \<open>Version_Machine\<close>: the 24 operations as a datatype, \<open>perform\<close> as one call, and the contract
    \<open>sound\<close> that every call meets. \<open>Version_Runs\<close>: \<open>runs\<close>, the inductive relation of sequences of
    calls by any actors, and what holds of every state they reach.

  \<^bold>\<open>Agents.\<close>
  \<^item> \<open>Tokens\<close>: \<open>internal/tokens\<close>: bearer tokens with grants on slugs, and runs of their operations between which
    pages come and go.
  \<^item> \<open>Client_Keys\<close>, \<open>Rate_Limit\<close>: \<open>internal/ratelimit\<close>, the limiter with its reference of fixed windows and the
    keys it counts clients by.
  \<^item> \<open>Listing\<close>: \<open>reads.go\<close>, the lists as table, order and window. \<open>Cursor\<close>: \<open>internal/mcp/cursor.go\<close>. \<open>Keyset\<close>: the
    locale \<open>keyset_list\<close>, the contract of a list that is paged through, with walks as its clients; \<open>Paging\<close>
    interprets it for the tools \<open>list_pages\<close> and \<open>list_versions\<close>, and \<open>Walks\<close> has their theorems.
  \<^item> \<open>Page_Patch\<close>: \<open>internal/pagepatch\<close> and the tool \<open>patch_page\<close>. \<open>Mcp_Pages\<close>: the other page tools of
    \<open>internal/mcp/tools_pages.go\<close>.

  \<^bold>\<open>What is shown.\<close> Of runs: the tables stay well formed, agents never pass an approval gate, no
  pointer moves without an audit row, history is immutable, a review can always be finished, and a
  refused call changes nothing. Of operations: what each does on success, and the errors that matter
  (a stale expected version, a lost race). Of data: the ordered object refines a list, ids and times
  are read back as written, cron expressions denote sets of minutes, \<open>Prev\<close>, \<open>Next\<close> and \<open>MaxGap\<close>
  compute what they promise within the 2929 days of the code's horizon, and the health verdict and
  report follow their rules. JSON is read back as it was written. Of agents: a scoped token stays on
  its page, a revoked one is dead, a patch loses no update and changes what its edits say, a walk
  through a list ends and misses nothing, the limiter treats every key as if it were alone.

  \<^bold>\<open>Bounds and fuel.\<close> The searches of \<open>Cron\<close> recurse on the days the code's loop counts (2929) and
  \<open>max_gap\<close> on the 10081 minutes of a week and one; \<open>max_gap_longest\<close> shows the latter is enough and
  \<open>leap_sunday_beyond_horizon\<close> that the former is not. All other functions terminate by
  structure or by a measure. The parser's nesting limit of 10000 is the code's. Ids are integers (the identity sequences of BIGINT are not exhausted by
  a run of the service); the bit sets of cron fields are 64-bit words.

  \<^bold>\<open>Parameters.\<close> \<open>deploy_env\<close> holds what package \<open>pagedata\<close> and the drivers compute: the scan of
  managed blocks, hashes, the cast to timestamptz. \<open>services\<close> collects these with the password hash
  and vault, \<open>lower\<close> of PostgreSQL and the reading of coverage gaps. \<open>mcp_env\<close> adds SHA-256, the origins
  of the service and the case folding of \<open>ILIKE\<close>; \<open>patch_env\<close> the size budgets and the findings of
  preflight; HMAC is an argument of the token operations. Nothing is assumed of them unless a theorem
  says so (\<open>reads_stamps\<close>: the cast to timestamptz reads what \<open>FormatTime\<close> writes).

  \<^bold>\<open>Not modelled.\<close> A COMMIT that fails or whose answer is lost, the connection pool and its timeouts;
  the startup task that fills coverage gaps outside a request; the HTTP and admin surfaces, the MCP
  transport, its schemas and its data, template and upload tools; the search \<open>find_in_version\<close>; sign-in;
  cryptography; the JSON Schema validator, the profiler and the HTML scanner of \<open>pagedata\<close>; rendering
  and preflight; uploads, templates and portals; the operator's commands. These are text
  processing, transport or glue around the operations above.
\<close>

end
